(* ===== verification/Prelude.thy ===== *)
theory Prelude
  imports Main "HOL-Library.Word" "HOL-Library.List_Lexorder" "HOL-Library.Char_ord"
    "HOL-Library.Code_Target_Numeral"
begin

section \<open>Shared types, proof collections and list lemmas\<close>

text \<open>
  The vocabulary every component uses: the C++ integer types at their width, byte buffers,
  \<open>std::variant<T, failure>\<close> results as sums with the failure on the left, the sorted
  association lists that stand for \<open>std::map\<close>, the partition points computed by
  \<open>std::ranges::lower_bound\<close> and \<open>upper_bound\<close>, and the generic facts about them.

  Strings are \<open>std::string\<close>, that is, sequences of bytes; the order of \<open>std::less<>\<close> on
  strings is the lexicographic order of their unsigned bytes, which the library's
  \<open>List_Lexorder\<close> and \<open>Char_ord\<close> give to the type \<^typ>\<open>string\<close>.
\<close>

unbundle bit_operations_syntax

type_synonym u8 = "8 word"
type_synonym u32 = "32 word"
type_synonym u64 = "64 word"
type_synonym i64 = "64 word"
type_synonym byte = "8 word"
type_synonym bytes = "byte list"

named_theorems contract_simps \<open>unfolding rules of the validation predicates\<close>
named_theorems store_simps \<open>unfolding rules of the session-store operations\<close>
named_theorems map_simps \<open>laws of the ordered-map operations\<close>

subsection \<open>Machine sizes\<close>

text \<open>
  \<open>std::size_t\<close> has 64 bits on the supported platforms. Sizes are natural numbers here; a
  subtraction is written with its wrap-around, so that an underflow is visible in the model.
\<close>

definition size_sub :: "nat \<Rightarrow> nat \<Rightarrow> nat" where
  "size_sub a b = (if b \<le> a then a - b else a + 2 ^ 64 - b)"

lemma size_sub_le [simp]: "b \<le> a \<Longrightarrow> size_sub a b = a - b"
  by (simp add: size_sub_def)

text \<open>
  \<open>std::numeric_limits<std::uint64_t>::max()\<close>.
\<close>

definition max_u64 :: u64 where
  "max_u64 = 18446744073709551615"

lemma max_u64_minus: "max_u64 = - 1"
  by (simp add: max_u64_def)

text \<open>
  \<open>std::vector::back\<close> of an empty vector is undefined behaviour: \<^const>\<open>None\<close>.
\<close>

definition vector_back :: "'a list \<Rightarrow> 'a option" where
  "vector_back xs = (if xs = [] then None else Some (last xs))"

subsection \<open>Lists\<close>

lemma takeWhile_append_dropWhile: "takeWhile P xs @ dropWhile P xs = xs"
  by simp

lemma find_Some_set: "List.find P xs = Some x \<Longrightarrow> x \<in> set xs \<and> P x"
  by (auto simp: find_Some_iff)

lemma find_None_all: "List.find P xs = None \<longleftrightarrow> (\<forall>x \<in> set xs. \<not> P x)"
  by (auto simp: find_None_iff)

lemma find_distinct_map:
  assumes "distinct (map f xs)" and "x \<in> set xs"
  shows "List.find (\<lambda>y. f y = f x) xs = Some x"
  using assms by (induction xs) (auto simp: image_iff)

lemma find_eq_None_image: "List.find (\<lambda>y. f y = k) xs = None \<longleftrightarrow> k \<notin> f ` set xs"
  by (auto simp: find_None_iff)

lemma sum_list_filter_le:
  fixes f :: "'a \<Rightarrow> nat"
  shows "sum_list (map f (filter P xs)) \<le> sum_list (map f xs)"
  by (induction xs) auto

lemma sum_list_bound:
  fixes f :: "'a \<Rightarrow> nat"
  shows "(\<And>x. x \<in> set xs \<Longrightarrow> f x \<le> b) \<Longrightarrow> sum_list (map f xs) \<le> length xs * b"
  by (induction xs) (auto intro: add_mono)

subsection \<open>Partition points of strictly sorted lists\<close>

lemma sorted_wrt_less_distinct: "sorted_wrt (<) (xs :: 'a :: linorder list) \<Longrightarrow> distinct xs"
  using strict_sorted_iff by blast

lemma sorted_insert_new:
  fixes f :: "'a \<Rightarrow> 'b :: linorder"
  assumes "sorted_wrt (<) (map f xs)" and "f d \<notin> f ` set xs"
  shows "sorted_wrt (<) (map f (takeWhile (\<lambda>e. f e < f d) xs @ [d] @ dropWhile (\<lambda>e. f e < f d) xs))"
  using assms
proof (induction xs)
  case (Cons x xs)
  have "set (takeWhile (\<lambda>e. f e < f d) xs) \<union> set (dropWhile (\<lambda>e. f e < f d) xs) = set xs"
    by (metis set_append takeWhile_dropWhile_id)
  moreover have "f d < f x" if "\<not> f x < f d"
    using Cons.prems(2) that by (auto simp: not_less le_less)
  ultimately show ?case
    using Cons by (auto simp: ball_Un)
qed simp

text \<open>
  The continuation of a page: in a strictly sorted list, the elements above the last key of a
  non-empty prefix of the elements above \<open>a\<close> are the ones that prefix left out.
\<close>

lemma dropWhile_le_last:
  fixes f :: "'a \<Rightarrow> 'b :: linorder"
  assumes sorted: "sorted_wrt (<) (map f (pre @ mid @ [z] @ post))"
  shows "dropWhile (\<lambda>e. f e \<le> f z) (pre @ mid @ [z] @ post) = post"
proof -
  have "\<forall>e \<in> set (pre @ mid @ [z]). f e \<le> f z"
    using sorted by (auto simp: sorted_wrt_append intro: less_imp_le)
  then have "dropWhile (\<lambda>e. f e \<le> f z) ((pre @ mid @ [z]) @ post) = dropWhile (\<lambda>e. f e \<le> f z) post"
    by (intro dropWhile_append2) auto
  moreover have "\<forall>e \<in> set post. \<not> f e \<le> f z"
    using sorted by (auto simp: sorted_wrt_append not_le)
  ultimately show ?thesis by (cases post) auto
qed

lemma upper_bound_continues:
  fixes f :: "'a \<Rightarrow> 'b :: linorder"
  assumes sorted: "sorted_wrt (<) (map f xs)"
    and rest: "rest = dropWhile (\<lambda>e. f e \<le> a) xs"
    and k: "0 < k" "k \<le> length rest"
  shows "dropWhile (\<lambda>e. f e \<le> f (last (take k rest))) xs = drop k rest"
proof -
  define pre where "pre = takeWhile (\<lambda>e. f e \<le> a) xs"
  define z where "z = last (take k rest)"
  have "take k rest \<noteq> []"
    using k by auto
  then have "take k rest = butlast (take k rest) @ [z]"
    unfolding z_def by (rule append_butlast_last_id[symmetric])
  then have "xs = pre @ butlast (take k rest) @ [z] @ drop k rest"
    by (metis append_assoc append_take_drop_id pre_def rest takeWhile_dropWhile_id)
  then show ?thesis
    using dropWhile_le_last[of f pre "butlast (take k rest)" z "drop k rest"] sorted
    by (simp add: z_def)
qed

lemma dropWhile_le_all:
  fixes f :: "'a \<Rightarrow> 'b :: linorder"
  shows "(\<And>x. x \<in> set xs \<Longrightarrow> a < f x) \<Longrightarrow> dropWhile (\<lambda>e. f e \<le> a) xs = xs"
  by (cases xs) (auto simp: not_le)

end
