(* ===== verification/Framing.thy ===== *)
theory Framing
  imports Prelude
begin

section \<open>Framing: four length bytes, then the payload\<close>

text \<open>
  Models \<open>src/protocol/framing.cpp\<close> and the framing part of
  \<open>include/pipeforge/protocol.hpp\<close>: \<open>frame\<close>, the incremental \<open>frame_decoder\<close>
  (\<open>consume\<close>, \<open>finish\<close>) and the codec's \<open>failure\<close> value.
  \<open>split_frames\<close> is the reference: it decodes a whole byte stream at once.
  \<open>drain\<close> is the documented way of using the decoder: call \<open>consume\<close> again on the
  unconsumed suffix. The main result is that \<open>drain\<close> refines \<open>split_frames\<close> from every
  state of the decoder, so that a stream decodes to the same frames however it is cut.
\<close>

subsection \<open>The codec's limits and failures\<close>

datatype failure_code =
    FC_malformed | FC_invalid_fields | FC_unsupported_version | FC_limit_exceeded | FC_truncated

record failure =
  fl_code :: failure_code
  fl_close_session :: bool
  fl_request_id :: "u64 option"

type_synonym 'a result = "failure + 'a"

definition max_payload_bytes :: nat where
  "max_payload_bytes = 1024 * 1024"

definition frame_header_bytes :: nat where
  "frame_header_bytes = 4"

abbreviation fatal :: "failure_code \<Rightarrow> failure" where
  "fatal c \<equiv> \<lparr>fl_code = c, fl_close_session = True, fl_request_id = None\<rparr>"

subsection \<open>Encoding\<close>

definition header_byte :: "u32 \<Rightarrow> nat \<Rightarrow> byte" where
  "header_byte len index = ucast (drop_bit (index * 8) len AND 0xff)"

definition frame :: "bytes \<Rightarrow> bytes result" where
  "frame payload =
     (if payload = [] \<or> length payload > max_payload_bytes then Inl (fatal FC_limit_exceeded)
      else let len = (of_nat (length payload) :: u32)
           in Inr (map (header_byte len) [0..<frame_header_bytes] @ payload))"

subsection \<open>The incremental decoder\<close>

record frame_decoder =
  fd_header :: bytes
  fd_header_used :: nat
  fd_expected :: nat
  fd_payload :: bytes
  fd_poisoned :: bool

record frame_progress =
  fp_consumed :: nat
  fp_payload :: "bytes option"

definition frame_decoder_init :: frame_decoder where
  "frame_decoder_init =
     \<lparr>fd_header = replicate frame_header_bytes 0, fd_header_used = 0, fd_expected = 0,
      fd_payload = [], fd_poisoned = False\<rparr>"

fun header_length_from :: "u32 \<Rightarrow> nat \<Rightarrow> bytes \<Rightarrow> u32" where
  "header_length_from len shift [] = len"
| "header_length_from len shift (b # bs) =
     header_length_from (len OR push_bit shift (ucast b)) (shift + 8) bs"

definition header_length :: "bytes \<Rightarrow> u32" where
  "header_length header = header_length_from 0 0 header"

definition consume_payload ::
  "frame_decoder \<Rightarrow> nat \<Rightarrow> bytes \<Rightarrow> frame_decoder \<times> frame_progress" where
  "consume_payload d original_size input =
     (let count = min (length input) (size_sub (fd_expected d) (length (fd_payload d)));
          filled = fd_payload d @ take count input;
          rest = drop count input
      in if length filled \<noteq> fd_expected d
         then (d\<lparr>fd_payload := filled\<rparr>,
               \<lparr>fp_consumed = original_size - length rest, fp_payload = None\<rparr>)
         else (d\<lparr>fd_payload := [], fd_header_used := 0, fd_expected := 0\<rparr>,
               \<lparr>fp_consumed = original_size - length rest, fp_payload = Some filled\<rparr>))"

definition consume :: "frame_decoder \<Rightarrow> bytes \<Rightarrow> frame_decoder \<times> frame_progress result" where
  "consume d input =
     (if fd_poisoned d then (d, Inl (fatal FC_malformed))
      else if fd_header_used d < length (fd_header d) then
        (let count = min (length input) (length (fd_header d) - fd_header_used d);
             header = take (fd_header_used d) (fd_header d) @ take count input
                        @ drop (fd_header_used d + count) (fd_header d);
             used = fd_header_used d + count;
             d1 = d\<lparr>fd_header := header, fd_header_used := used\<rparr>
         in if used \<noteq> length header then (d1, Inr \<lparr>fp_consumed = count, fp_payload = None\<rparr>)
            else let n = header_length header
                 in if n = 0 \<or> unat n > max_payload_bytes
                    then (d1\<lparr>fd_poisoned := True\<rparr>, Inl (fatal FC_limit_exceeded))
                    else (case consume_payload (d1\<lparr>fd_expected := unat n\<rparr>) (length input)
                                 (drop count input) of
                            (d2, p) \<Rightarrow> (d2, Inr p)))
      else (case consume_payload d (length input) input of (d2, p) \<Rightarrow> (d2, Inr p)))"

definition finish :: "frame_decoder \<Rightarrow> failure option" where
  "finish d =
     (if fd_poisoned d \<or> fd_header_used d \<noteq> 0
      then Some (fatal (if fd_poisoned d then FC_malformed else FC_truncated))
      else None)"

subsection \<open>Driving the decoder, and the reference decoder\<close>

text \<open>
  \<open>drain\<close> feeds one input slice: it calls \<open>consume\<close> until the slice is used up and returns
  the completed payloads with the decoder's last state or the failure. The test on
  \<open>consumed\<close> only makes the recursion terminate: a call that consumes nothing of a
  nonempty slice does not exist (lemma \<open>consume_progress\<close>).
\<close>

function drain :: "frame_decoder \<Rightarrow> bytes \<Rightarrow> bytes list \<times> frame_decoder result" where
  "drain d input =
     (if input = [] then ([], Inr d)
      else case consume d input of
             (d', Inl f) \<Rightarrow> ([], Inl f)
           | (d', Inr p) \<Rightarrow>
               (if fp_consumed p = 0 then ([], Inr d')
                else let (ps, r) = drain d' (drop (fp_consumed p) input)
                     in (case fp_payload p of None \<Rightarrow> (ps, r) | Some x \<Rightarrow> (x # ps, r))))"
  by pat_completeness auto
termination
  by (relation "measure (\<lambda>(d, input). length input)") auto

fun drain_all :: "frame_decoder \<Rightarrow> bytes list \<Rightarrow> bytes list \<times> frame_decoder result" where
  "drain_all d [] = ([], Inr d)"
| "drain_all d (chunk # chunks) =
     (case drain d chunk of
        (ps, Inl f) \<Rightarrow> (ps, Inl f)
      | (ps, Inr d') \<Rightarrow> (case drain_all d' chunks of (qs, r) \<Rightarrow> (ps @ qs, r)))"

function split_frames :: "bytes \<Rightarrow> bytes list \<times> bytes result" where
  "split_frames bs =
     (if length bs < frame_header_bytes then ([], Inr bs)
      else let n = unat (header_length (take frame_header_bytes bs))
           in if n = 0 \<or> n > max_payload_bytes then ([], Inl (fatal FC_limit_exceeded))
              else if length bs < frame_header_bytes + n then ([], Inr bs)
              else let (ps, r) = split_frames (drop (frame_header_bytes + n) bs)
                   in (take n (drop frame_header_bytes bs) # ps, r))"
  by pat_completeness auto
termination
  by (relation "measure length") (auto simp: frame_header_bytes_def)

declare drain.simps [simp del] split_frames.simps [simp del]

text \<open>The decoder's invariant, and the bytes of the unfinished frame it holds.\<close>

definition decoder_ok :: "frame_decoder \<Rightarrow> bool" where
  "decoder_ok d \<longleftrightarrow>
     \<not> fd_poisoned d \<and> length (fd_header d) = frame_header_bytes \<and>
     fd_header_used d \<le> frame_header_bytes \<and>
     (if fd_header_used d < frame_header_bytes then fd_payload d = [] \<and> fd_expected d = 0
      else fd_expected d = unat (header_length (fd_header d)) \<and> 0 < fd_expected d \<and>
           fd_expected d \<le> max_payload_bytes \<and> length (fd_payload d) < fd_expected d)"

definition partial :: "frame_decoder \<Rightarrow> bytes" where
  "partial d = take (fd_header_used d) (fd_header d) @ fd_payload d"

text \<open>
  Vocabulary of the refinement proof: a decoder between header and payload, the header array after
  a copy of \<open>count\<close> input bytes, and what one successful call contributes to the reference.
\<close>

definition mid_payload :: "frame_decoder \<Rightarrow> bool" where
  "mid_payload d \<longleftrightarrow> \<not> fd_poisoned d \<and> length (fd_header d) = frame_header_bytes \<and>
     fd_header_used d = frame_header_bytes \<and> fd_expected d = unat (header_length (fd_header d)) \<and>
     0 < fd_expected d \<and> fd_expected d \<le> max_payload_bytes \<and> length (fd_payload d) < fd_expected d"

definition filled_header :: "frame_decoder \<Rightarrow> bytes \<Rightarrow> nat \<Rightarrow> bytes" where
  "filled_header d input count = take (fd_header_used d) (fd_header d) @ take count input
      @ drop (fd_header_used d + count) (fd_header d)"

definition step_refines :: "bytes \<Rightarrow> bytes \<Rightarrow> frame_decoder \<times> frame_progress \<Rightarrow> bool" where
  "step_refines pre input r \<longleftrightarrow> (case r of (d', p) \<Rightarrow>
     decoder_ok d' \<and> 0 < fp_consumed p \<and> fp_consumed p \<le> length input \<and>
     (case fp_payload p of
        None \<Rightarrow> fp_consumed p = length input \<and> partial d' = pre @ input
      | Some x \<Rightarrow> partial d' = [] \<and> x \<noteq> [] \<and> length x \<le> max_payload_bytes \<and> 
          split_frames (pre @ input) =
            (let (ps, r) = split_frames (drop (fp_consumed p) input) in (x # ps, r))))"

subsection \<open>The length header\<close>

lemma bit_header_byte: "bit (header_byte len i) k \<longleftrightarrow> k < 8 \<and> bit len (i * 8 + k)"
proof -
  have "header_byte len i = ucast (take_bit 8 (drop_bit (i * 8) len))"
    by (simp add: header_byte_def take_bit_eq_mask mask_eq_exp_minus_1)
  then show ?thesis
    by (auto simp: bit_simps ac_simps dest: bit_imp_le_length)
qed

lemma bit_shifted_header_byte:
  assumes "k < 32"
  shows "bit (push_bit (i * 8) (ucast (header_byte len i)) :: u32) k \<longleftrightarrow>
     i * 8 \<le> k \<and> k < i * 8 + 8 \<and> bit len k"
  using assms by (auto simp: bit_simps bit_header_byte)

lemma header_length_bytes [simp]:
  "header_length (map (header_byte n) [0..<frame_header_bytes]) = n"
proof (rule bit_word_eqI)
  fix k assume "k < LENGTH(32)"
  then have k: "k < 32" by simp
  have eq: "[0..<frame_header_bytes] = [0, 1, 2, 3]"
    by (simp add: frame_header_bytes_def upt_rec)
  have "header_length (map (header_byte n) [0..<frame_header_bytes]) =
     push_bit (0 * 8) (ucast (header_byte n 0)) OR push_bit (1 * 8) (ucast (header_byte n 1)) OR
     push_bit (2 * 8) (ucast (header_byte n 2)) OR push_bit (3 * 8) (ucast (header_byte n 3))"
    by (simp add: eq header_length_def or.assoc)
  then have "bit (header_length (map (header_byte n) [0..<frame_header_bytes])) k \<longleftrightarrow>
     0 * 8 \<le> k \<and> k < 0 * 8 + 8 \<and> bit n k \<or> 1 * 8 \<le> k \<and> k < 1 * 8 + 8 \<and> bit n k \<or>
     2 * 8 \<le> k \<and> k < 2 * 8 + 8 \<and> bit n k \<or> 3 * 8 \<le> k \<and> k < 3 * 8 + 8 \<and> bit n k"
    by (simp only: bit_or_iff bit_shifted_header_byte[OF k])
  then show "bit (header_length (map (header_byte n) [0..<frame_header_bytes])) k \<longleftrightarrow> bit n k"
    using k by linarith
qed
lemma split_frames_short: "length bs < frame_header_bytes \<Longrightarrow> split_frames bs = ([], Inr bs)"
  by (simp add: split_frames.simps)

lemma split_frames_header:
  assumes "length header = frame_header_bytes" and "n = unat (header_length header)"
  shows "split_frames (header @ bs) =
    (if n = 0 \<or> n > max_payload_bytes then ([], Inl (fatal FC_limit_exceeded))
     else if length bs < n then ([], Inr (header @ bs))
     else let (ps, r) = split_frames (drop n bs) in (take n bs # ps, r))"
  using assms by (subst split_frames.simps) (simp add: Let_def)

lemma split_frames_partial:
  assumes "decoder_ok d"
  shows "split_frames (partial d) = ([], Inr (partial d))"
proof (cases "fd_header_used d < frame_header_bytes")
  case True
  with assms show ?thesis
    by (intro split_frames_short) (simp add: decoder_ok_def partial_def)
next
  case False
  with assms show ?thesis
    by (auto simp: decoder_ok_def partial_def split_frames_header[OF _ refl])
qed

lemma consume_payload_cases:
  assumes "length (fd_payload d) < fd_expected d"
    and "room = fd_expected d - length (fd_payload d)"
  shows "consume_payload d (k + length input) input =
    (if length input < room
     then (d\<lparr>fd_payload := fd_payload d @ input\<rparr>, \<lparr>fp_consumed = k + length input, fp_payload = None\<rparr>)
     else (d\<lparr>fd_payload := [], fd_header_used := 0, fd_expected := 0\<rparr>,
           \<lparr>fp_consumed = k + room, fp_payload = Some (fd_payload d @ take room input)\<rparr>))"
  using assms by (auto simp: consume_payload_def Let_def min_def)

lemma split_frames_mid_payload:
  assumes d: "mid_payload d" and room: "room = fd_expected d - length (fd_payload d)"
    and len: "room \<le> length input"
  shows "split_frames (partial d @ input) =
     (let (ps, r) = split_frames (drop room input) in ((fd_payload d @ take room input) # ps, r))"
proof -
  have "partial d @ input = fd_header d @ (fd_payload d @ input)"
    using d by (simp add: mid_payload_def partial_def)
  moreover have le: "fd_expected d \<le> length (fd_payload d @ input)"
    using len room by simp
  moreover have "split_frames (fd_header d @ (fd_payload d @ input)) =
     (let (ps, r) = split_frames (drop (fd_expected d) (fd_payload d @ input))
      in (take (fd_expected d) (fd_payload d @ input) # ps, r))"
    using d le by (subst split_frames_header[OF _ refl]) (simp_all add: mid_payload_def)
  moreover have "take (fd_expected d) (fd_payload d @ input) = fd_payload d @ take room input"
    "drop (fd_expected d) (fd_payload d @ input) = drop room input"
    using d room by (simp_all add: mid_payload_def)
  ultimately show ?thesis by simp
qed


lemma consume_payload_refines:
  assumes d: "mid_payload d" and pre: "pre @ skipped = partial d" and ne: "skipped @ input \<noteq> []"
  shows "step_refines pre (skipped @ input)
           (consume_payload d (length skipped + length input) input)"
proof -
  define room where "room = fd_expected d - length (fd_payload d)"
  have lt: "length (fd_payload d) < fd_expected d" using d by (simp add: mid_payload_def)
  note c = consume_payload_cases[OF lt room_def]
  have pre': "pre @ skipped @ input = partial d @ input" using pre by simp
  show ?thesis
  proof (cases "length input < room")
    case True
    then have "length (fd_payload d @ input) < fd_expected d" by (simp add: room_def)
    with True d ne show ?thesis
      by (simp add: c step_refines_def pre' decoder_ok_def partial_def mid_payload_def)
  next
    case False
    have "0 < room" using lt by (simp add: room_def)
    moreover have "room \<le> length input" using False by simp
    moreover have "decoder_ok (d\<lparr>fd_payload := [], fd_header_used := 0, fd_expected := 0\<rparr>)"
      using d by (simp add: decoder_ok_def mid_payload_def frame_header_bytes_def)
    moreover have "length (fd_payload d @ take room input) \<le> max_payload_bytes"
      using d False by (simp add: mid_payload_def room_def)
    ultimately show ?thesis
      using False split_frames_mid_payload[OF d room_def, of input]
      by (simp add: c step_refines_def pre' partial_def)
        auto
  qed
qed

lemma decoder_ok_cases:
  assumes "decoder_ok d"
  obtains (header) "fd_header_used d < frame_header_bytes" "fd_payload d = []" "fd_expected d = 0"
    | (body) "mid_payload d"
  using assms by (auto simp: decoder_ok_def mid_payload_def split: if_splits)


lemma length_filled_header:
  "fd_header_used d + count \<le> length (fd_header d) \<Longrightarrow> count \<le> length input \<Longrightarrow>
    length (filled_header d input count) = length (fd_header d)"
  by (simp add: filled_header_def)

lemma take_filled_header:
  "fd_header_used d + count \<le> length (fd_header d) \<Longrightarrow> count \<le> length input \<Longrightarrow>
    take (fd_header_used d + count) (filled_header d input count)
      = take (fd_header_used d) (fd_header d) @ take count input"
  by (simp add: filled_header_def)

lemma consume_header:
  assumes "\<not> fd_poisoned d" "length (fd_header d) = frame_header_bytes"
    "fd_header_used d < frame_header_bytes"
    and "count = min (length input) (frame_header_bytes - fd_header_used d)"
    and "h = filled_header d input count"
    and "d1 = d\<lparr>fd_header := h, fd_header_used := fd_header_used d + count\<rparr>"
  shows "consume d input =
    (if fd_header_used d + count \<noteq> frame_header_bytes
     then (d1, Inr \<lparr>fp_consumed = count, fp_payload = None\<rparr>)
     else if unat (header_length h) = 0 \<or> unat (header_length h) > max_payload_bytes
     then (d1\<lparr>fd_poisoned := True\<rparr>, Inl (fatal FC_limit_exceeded))
     else (case consume_payload (d1\<lparr>fd_expected := unat (header_length h)\<rparr>) (length input)
                  (drop count input) of (d2, p) \<Rightarrow> (d2, Inr p)))"
proof -
  have len: "length h = frame_header_bytes"
    using assms by (simp add: length_filled_header)
  show ?thesis
    unfolding consume_def Let_def
    by (simp only: assms(1-3) if_True if_False assms(4)[symmetric] filled_header_def[symmetric]
        assms(5)[symmetric] assms(6)[symmetric] len unat_eq_0[symmetric])
qed

lemma consume_refines:
  assumes d: "decoder_ok d" and ne: "input \<noteq> []"
  shows "case consume d input of
      (d', Inl f) \<Rightarrow> f = fatal FC_limit_exceeded \<and> fd_poisoned d' \<and> split_frames (partial d @ input) = ([], Inl f)
    | (d', Inr p) \<Rightarrow> step_refines (partial d) input (d', p)"
  using d
proof (cases rule: decoder_ok_cases)
  case body
  then have "consume d input = (case consume_payload d (length input) input of (d2, p) \<Rightarrow> (d2, Inr p))"
    by (simp add: consume_def mid_payload_def)
  with consume_payload_refines[OF body, of "partial d" "[]" input] ne show ?thesis
    by (simp split: prod.splits)
next
  case header
  define count where "count = min (length input) (frame_header_bytes - fd_header_used d)"
  define h where "h = filled_header d input count"
  define d1 where "d1 = d\<lparr>fd_header := h, fd_header_used := fd_header_used d + count\<rparr>"
  have len: "length (fd_header d) = frame_header_bytes" "\<not> fd_poisoned d"
    using d by (simp_all add: decoder_ok_def)
  have cnt: "0 < count" "fd_header_used d + count \<le> frame_header_bytes" "count \<le> length input"
    using ne header by (simp_all add: count_def)
  have lenh: "length h = frame_header_bytes"
    using len cnt by (simp add: h_def length_filled_header)
  have taken: "take (fd_header_used d + count) h = partial d @ take count input"
    using header len cnt by (simp add: h_def take_filled_header partial_def)
  note c = consume_header[OF len(2,1) header(1) count_def h_def d1_def]
  show ?thesis
  proof (cases "fd_header_used d + count = frame_header_bytes")
    case False
    then have "count = length input" "fd_header_used d + count < frame_header_bytes"
       using cnt by (auto simp: count_def)
    moreover from this have "decoder_ok d1" 
      using header len lenh by (simp add: d1_def decoder_ok_def)
    ultimately show ?thesis
      using False cnt taken header by (simp add: c step_refines_def d1_def partial_def)
  next
    case full: True
    have "h = partial d @ take count input"
      using taken full lenh by simp
    then have split: "partial d @ input = h @ drop count input" by simp
    show ?thesis
    proof (cases "unat (header_length h) = 0 \<or> unat (header_length h) > max_payload_bytes")
      case True
      then show ?thesis
        using full by (simp add: c split split_frames_header[OF lenh refl])
    next
      case False
      define d2 where "d2 = d1\<lparr>fd_expected := unat (header_length h)\<rparr>"
      have "mid_payload d2"
        using False full header len lenh by (simp add: d2_def d1_def mid_payload_def)
      moreover have "partial d @ take count input = partial d2"
        using taken full header by (simp add: d2_def d1_def partial_def)
      ultimately have "step_refines (partial d) input (consume_payload d2 (length input) (drop count input))"
        using consume_payload_refines[of d2 "partial d" "take count input" "drop count input"] ne cnt by simp
      moreover have "consume d input = (case consume_payload d2 (length input) (drop count input) of (d2, p) \<Rightarrow> (d2, Inr p))"
        using False full by (simp add: c d2_def)
      ultimately show ?thesis by (simp split: prod.splits)
    qed
  qed
qed

lemma partial_bounded:
  "decoder_ok d \<Longrightarrow> length (partial d) < frame_header_bytes + max_payload_bytes"
  by (auto simp: decoder_ok_def partial_def max_payload_bytes_def split: if_splits)

lemma drain_refines:
  assumes "decoder_ok d"
  shows "case drain d input of
      (ps, Inl f) \<Rightarrow> split_frames (partial d @ input) = (ps, Inl f)
    | (ps, Inr d') \<Rightarrow> decoder_ok d' \<and> split_frames (partial d @ input) = (ps, Inr (partial d'))"
  using assms
proof (induction d input rule: drain.induct)
  case (1 d input)
  show ?case
  proof (cases "input = []")
    case True
    with 1 show ?thesis by (simp add: drain.simps split_frames_partial)
  next
    case ne: False
    obtain d' r where c: "consume d input = (d', r)" by (cases "consume d input")
    show ?thesis
    proof (cases r)
      case (Inl f)
      with c ne consume_refines[OF "1.prems" ne] show ?thesis
        by (simp add: drain.simps[of d input])
    next
      case (Inr p)
      have s: "step_refines (partial d) input (d', p)"
        using consume_refines[OF "1.prems" ne] c Inr by simp
      then have ok: "decoder_ok d'" and pos: "fp_consumed p \<noteq> 0" by (simp_all add: step_refines_def)
      note IH = "1.IH"[OF ne c[symmetric] Inr pos ok]
      show ?thesis
      proof (cases "fp_payload p")
        case None
        with s ok pos have "drain d' (drop (fp_consumed p) input) = ([], Inr d')" "partial d' = partial d @ input"
          by (simp_all add: step_refines_def drain.simps)
        with ok c Inr ne pos None show ?thesis
          using split_frames_partial[OF ok] by (simp add: drain.simps[of d input])
      next
        case (Some x)
        with s IH c Inr ne pos show ?thesis
          by (auto simp: drain.simps[of d input] step_refines_def split: sum.splits prod.splits)
      qed
    qed
  qed
qed

lemma split_frames_unfold:
  "frame_header_bytes \<le> length bs \<Longrightarrow> n = unat (header_length (take frame_header_bytes bs)) \<Longrightarrow>
   split_frames bs =
    (if n = 0 \<or> n > max_payload_bytes then ([], Inl (fatal FC_limit_exceeded))
     else if length bs < frame_header_bytes + n then ([], Inr bs)
     else let (ps, r) = split_frames (drop (frame_header_bytes + n) bs)
          in (take n (drop frame_header_bytes bs) # ps, r))"
  by (subst split_frames.simps) (simp add: Let_def)

lemma split_frames_append:
  "split_frames (xs @ ys) =
     (case split_frames xs of
        (ps, Inl f) \<Rightarrow> (ps, Inl f)
      | (ps, Inr r) \<Rightarrow> (case split_frames (r @ ys) of (qs, r') \<Rightarrow> (ps @ qs, r')))"
proof (induction xs rule: split_frames.induct)
  case (1 xs)
  define n where "n = unat (header_length (take frame_header_bytes xs))"
  show ?case
  proof (cases "frame_header_bytes \<le> length xs \<and> n \<noteq> 0 \<and> n \<le> max_payload_bytes \<and> frame_header_bytes + n \<le> length xs")
    case True
    then have long: "frame_header_bytes \<le> length xs" "frame_header_bytes \<le> length (xs @ ys)"
      and hd: "n = unat (header_length (take frame_header_bytes (xs @ ys)))"
      by (simp_all add: n_def)
    have IH: "split_frames (drop (frame_header_bytes + n) xs @ ys) =
        (case split_frames (drop (frame_header_bytes + n) xs) of
           (ps, Inl f) \<Rightarrow> (ps, Inl f)
         | (ps, Inr r) \<Rightarrow> (case split_frames (r @ ys) of (qs, r') \<Rightarrow> (ps @ qs, r')))"
      using True by (intro "1.IH"[OF _ n_def]) auto
    show ?thesis
      unfolding split_frames_unfold[OF long(2) hd] split_frames_unfold[OF long(1) n_def]
      using True IH by (simp add: Let_def split: prod.splits sum.splits)
  next
    case False
    then consider "length xs < frame_header_bytes"
      | "frame_header_bytes \<le> length xs" "n = 0 \<or> n > max_payload_bytes"
      | "frame_header_bytes \<le> length xs" "\<not> (n = 0 \<or> n > max_payload_bytes)" "length xs < frame_header_bytes + n"
      by linarith
    then show ?thesis
    proof cases
      case 2
      then have "split_frames xs = ([], Inl (fatal FC_limit_exceeded))"
        "split_frames (xs @ ys) = ([], Inl (fatal FC_limit_exceeded))"
        by (simp_all add: split_frames_unfold[OF _ n_def] split_frames_unfold[of "xs @ ys" n] n_def)
      then show ?thesis by simp
    qed (simp_all add: split_frames_short split_frames_unfold[OF _ n_def] split: prod.splits)
  qed
qed

lemma drain_all_refines:
  assumes "decoder_ok d"
  shows "case drain_all d chunks of
      (ps, Inl f) \<Rightarrow> split_frames (partial d @ concat chunks) = (ps, Inl f)
    | (ps, Inr d') \<Rightarrow> decoder_ok d' \<and> split_frames (partial d @ concat chunks) = (ps, Inr (partial d'))"
  using assms
proof (induction chunks arbitrary: d)
  case Nil
  then show ?case by (simp add: split_frames_partial)
next
  case (Cons c cs)
  obtain ps r where d: "drain d c = (ps, r)" by (cases "drain d c")
  note split = split_frames_append[of "partial d @ c" "concat cs"]
  show ?case
  proof (cases r)
    case (Inl f)
    with d split drain_refines[OF Cons.prems, of c] show ?thesis by simp
  next
    case (Inr d')
    with d drain_refines[OF Cons.prems, of c] have ok: "decoder_ok d'"
      and s: "split_frames (partial d @ c) = (ps, Inr (partial d'))" by simp_all
    obtain qs r' where ds: "drain_all d' cs = (qs, r')" by (cases "drain_all d' cs")
    with d Inr split s Cons.IH[OF ok] show ?thesis
      by (cases r') simp_all
  qed
qed

lemma decoder_ok_init: "decoder_ok frame_decoder_init"
  and partial_init [simp]: "partial frame_decoder_init = []"
  by (simp_all add: frame_decoder_init_def decoder_ok_def partial_def frame_header_bytes_def)

lemma finish_partial:
  "decoder_ok d \<Longrightarrow> finish d = (if partial d = [] then None else Some (fatal FC_truncated))"
  by (auto simp: finish_def decoder_ok_def partial_def frame_header_bytes_def split: if_splits)

lemma frame_Inr_iff:
  "frame p = Inr bs \<longleftrightarrow> p \<noteq> [] \<and> length p \<le> max_payload_bytes \<and>
     bs = map (header_byte (of_nat (length p))) [0..<frame_header_bytes] @ p"
  by (auto simp: frame_def Let_def)

lemma split_frames_frame:
  assumes "frame p = Inr bs"
  shows "split_frames (bs @ rest) = (case split_frames rest of (ps, r) \<Rightarrow> (p # ps, r))"
proof -
  define n where "n = (of_nat (length p) :: u32)"
  from assms have p: "p \<noteq> []" "length p \<le> max_payload_bytes"
    and bs: "bs = map (header_byte n) [0..<frame_header_bytes] @ p"
    by (auto simp: frame_Inr_iff n_def)
  have n: "unat n = length p"
    using p by (simp add: n_def unat_of_nat max_payload_bytes_def)
  have "split_frames (map (header_byte n) [0..<frame_header_bytes] @ (p @ rest)) =
    (case split_frames rest of (ps, r) \<Rightarrow> (p # ps, r))"
    by (subst split_frames_header[OF _ refl]) (use n p in \<open>simp_all add: Let_def\<close>)
  then show ?thesis by (simp add: bs)
qed

lemma split_frames_concat:
  "map frame ps = map Inr fs \<Longrightarrow> split_frames (concat fs) = (ps, Inr [])"
proof (induction ps arbitrary: fs)
  case Nil
  then show ?case by (simp add: split_frames_short frame_header_bytes_def)
next
  case (Cons p ps)
  then show ?case by (auto simp: split_frames_frame)
qed
subsection \<open>Properties\<close>

text \<open>
  Property C1. The incremental decoder refines the reference decoder: from every state the decoder
  can be in, and for every way of cutting the input into slices, the payloads it hands out, the
  failure it ends with, or else the bytes it still holds, are those the reference computes from the
  bytes already held followed by the whole input.
\<close>

theorem decoder_refines_reference:
  assumes "decoder_ok d"
  shows "case drain_all d chunks of
      (ps, Inl f) \<Rightarrow> split_frames (partial d @ concat chunks) = (ps, Inl f)
    | (ps, Inr d') \<Rightarrow> decoder_ok d' \<and> split_frames (partial d @ concat chunks) = (ps, Inr (partial d'))"
  using assms by (rule drain_all_refines)

theorem decoder_refines_reference_witness:
  "decoder_ok frame_decoder_init \<and>
   split_frames [1, 0, 0, 0, 7, 0, 0, 0, 0] = ([[7]], Inl (fatal FC_limit_exceeded))"
proof -
  have "drain_all frame_decoder_init [[1, 0], [0, 0, 7, 0], [0, 0, 0]] =
      ([[7]], Inl (fatal FC_limit_exceeded))"
    by code_simp
  then show ?thesis
    using decoder_refines_reference[OF decoder_ok_init, of "[[1, 0], [0, 0, 7, 0], [0, 0, 0]]"]
    by (simp add: decoder_ok_init)
qed

text \<open>
  Property C13. Round trip: frames written by \<open>frame\<close>, concatenated and cut at arbitrary places,
  are decoded to exactly the payloads that were framed, in order, and the end of the stream after
  them is clean.
\<close>

theorem frames_roundtrip:
  assumes "map frame ps = map Inr fs" and "concat chunks = concat fs"
  shows "\<exists>d. drain_all frame_decoder_init chunks = (ps, Inr d) \<and> finish d = None"
proof -
  have "split_frames (partial frame_decoder_init @ concat chunks) = (ps, Inr [])"
    using assms split_frames_concat by simp
  with drain_all_refines[OF decoder_ok_init, of chunks] show ?thesis
    by (cases "drain_all frame_decoder_init chunks"; cases "snd (drain_all frame_decoder_init chunks)")
      (auto simp: finish_partial)
qed

theorem frames_roundtrip_witness:
  "\<exists>d. drain_all frame_decoder_init [[2], [0, 0, 0, 1], [2, 1, 0, 0], [0, 3]] = ([[1, 2], [3]], Inr d)
     \<and> finish d = None"
  by (rule frames_roundtrip[where fs = "[[2, 0, 0, 0, 1, 2], [1, 0, 0, 0, 3]]"])
    (simp_all add: frame_Inr_iff header_byte_def frame_header_bytes_def max_payload_bytes_def upt_rec)

text \<open>
  Every call of \<open>consume\<close> on a healthy decoder with a nonempty slice either poisons
  the decoder with \<open>limit_exceeded\<close>, or makes progress without reading past the slice, stays healthy,
  never holds more than one bounded frame, and completes only nonempty payloads of at most 1 MiB.
\<close>

theorem consume_bounded:
  assumes "decoder_ok d" and "input \<noteq> []"
  shows "case consume d input of
      (d', Inl f) \<Rightarrow> f = fatal FC_limit_exceeded \<and> fd_poisoned d'
    | (d', Inr p) \<Rightarrow> decoder_ok d' \<and> 0 < fp_consumed p \<and> fp_consumed p \<le> length input \<and>
        length (partial d') < frame_header_bytes + max_payload_bytes \<and>
        (\<forall>x. fp_payload p = Some x \<longrightarrow> x \<noteq> [] \<and> length x \<le> max_payload_bytes)"
  using consume_refines[OF assms] partial_bounded
  by (auto simp: step_refines_def split: prod.splits sum.splits option.splits)

theorem consume_bounded_witness:
  "case consume frame_decoder_init [1, 0, 0, 0, 9, 5] of
      (d', Inl f) \<Rightarrow> f = fatal FC_limit_exceeded \<and> fd_poisoned d'
    | (d', Inr p) \<Rightarrow> decoder_ok d' \<and> 0 < fp_consumed p \<and> fp_consumed p \<le> length [1 :: byte, 0, 0, 0, 9, 5] \<and>
        length (partial d') < frame_header_bytes + max_payload_bytes \<and>
        (\<forall>x. fp_payload p = Some x \<longrightarrow> x \<noteq> [] \<and> length x \<le> max_payload_bytes)"
  by (rule consume_bounded[OF decoder_ok_init]) simp

text \<open>
  A failing decoder stays failing: whenever \<open>consume\<close> fails, every later \<open>consume\<close> of
  any input fails with \<open>malformed\<close>, leaves the decoder as it is, and \<open>finish\<close> reports the failure.
\<close>

theorem failure_poisons:
  assumes "consume d input = (d', Inl f)"
  shows "consume d' later = (d', Inl (fatal FC_malformed)) \<and> finish d' = Some (fatal FC_malformed)"
proof -
  have "fd_poisoned d'"
    using assms by (auto simp: consume_def Let_def split: if_splits prod.splits)
  then show ?thesis by (simp add: consume_def finish_def)
qed

theorem failure_poisons_witness:
  "consume (fst (consume frame_decoder_init [0, 0, 0, 0])) [7] =
     (fst (consume frame_decoder_init [0, 0, 0, 0]), Inl (fatal FC_malformed)) \<and>
   finish (fst (consume frame_decoder_init [0, 0, 0, 0])) = Some (fatal FC_malformed)"
  by (rule failure_poisons[where d = frame_decoder_init and input = "[0, 0, 0, 0]"
        and f = "fatal FC_limit_exceeded"])
    code_simp

end
