(* ===== verification/Contracts.thy ===== *)
theory Contracts
  imports Framing
begin

section \<open>Contracts: values, metadata, operations, envelopes\<close>

text \<open>
  The owning value types of \<open>include/pipeforge/contracts.hpp\<close>, constructor by constructor and
  field by field. A struct is a record whose fields carry a short prefix of the struct's name,
  because Isabelle's record fields share one name space; a \<open>std::variant\<close> is a datatype with
  one constructor per alternative.

  An \<open>enum class : std::uint8_t\<close> can hold every byte, named or not, and the code tests for unnamed
  ones (\<open>valid_kind\<close>, the default branch of \<open>make_error\<close>), so the two enums that cross a trust
  boundary, \<open>error_code\<close> and \<open>value_kind\<close>, wrap the byte and name its enumerators.

  A \<open>double\<close> is its IEEE-754 bit pattern; \<open>std::int64_t\<close> is a 64-bit word read with \<^const>\<open>sint\<close>.
  The valueless state of \<open>std::variant\<close> exists only after an exception during assignment;
  exceptions other than the typed failures are outside the model, and so is that state.
\<close>

definition protocol_version :: u32 where
  "protocol_version = 1"

definition max_string_bytes :: nat where
  "max_string_bytes = 64 * 1024"

definition max_entries :: nat where
  "max_entries = 64"

definition max_name_bytes :: nat where
  "max_name_bytes = 128"

definition max_recursion_depth :: int where
  "max_recursion_depth = 16"

definition default_page_size :: u32 where
  "default_page_size = 32"

datatype value_t = Text string | Integer i64 | Real u64

datatype error_code = Error_code u8

abbreviation EC_invalid_request :: error_code where "EC_invalid_request \<equiv> Error_code 1"
abbreviation EC_not_found :: error_code where "EC_not_found \<equiv> Error_code 2"
abbreviation EC_quota_exceeded :: error_code where "EC_quota_exceeded \<equiv> Error_code 3"
abbreviation EC_timeout :: error_code where "EC_timeout \<equiv> Error_code 4"
abbreviation EC_cancelled :: error_code where "EC_cancelled \<equiv> Error_code 5"
abbreviation EC_access_denied :: error_code where "EC_access_denied \<equiv> Error_code 6"
abbreviation EC_transport_failure :: error_code where "EC_transport_failure \<equiv> Error_code 7"
abbreviation EC_internal_failure :: error_code where "EC_internal_failure \<equiv> Error_code 8"
abbreviation EC_unsupported_version :: error_code where "EC_unsupported_version \<equiv> Error_code 9"
abbreviation EC_numeric_overflow :: error_code where "EC_numeric_overflow \<equiv> Error_code 10"

datatype value_kind = Value_kind u8

abbreviation VK_text :: value_kind where "VK_text \<equiv> Value_kind 1"
abbreviation VK_integer :: value_kind where "VK_integer \<equiv> Value_kind 2"
abbreviation VK_real :: value_kind where "VK_real \<equiv> Value_kind 3"

record named_value =
  nv_name :: string
  nv_data :: value_t

record value_record =
  vr_id :: u64
  vr_data :: value_t

record parameter =
  pm_name :: string
  pm_kind :: value_kind

record attribute =
  at_name :: string
  at_kind :: value_kind
  at_read_only :: bool

record method_t =
  mt_name :: string
  mt_parameters :: "parameter list"
  mt_result_kind :: value_kind

record class_description =
  cd_name :: string
  cd_attributes :: "attribute list"
  cd_methods :: "method_t list"
  cd_constructor_parameters :: "parameter list"

record object_snapshot =
  os_id :: u64
  os_class_name :: string
  os_state :: "named_value list"

datatype operation =
    List_classes string u32
  | Describe_class string
  | Put_value value_t
  | Get_value u64
  | List_values u64 u32
  | Create_object string "named_value list"
  | Get_object u64
  | Release_object u64
  | Get_attribute u64 string
  | Invoke_method u64 string "named_value list"

record classes_page =
  cp_names :: "string list"
  cp_next :: string

record values_page =
  vp_values :: "value_record list"
  vp_next :: u64

record remote_error =
  re_code :: error_code
  re_message :: string

datatype outcome =
    Classes_page classes_page
  | Class_description class_description
  | Value_record value_record
  | Values_page values_page
  | Object_snapshot object_snapshot
  | Released
  | Value value_t
  | Remote_error remote_error

record request =
  rq_id :: u64
  rq_body :: operation
  rq_version :: u32

record response =
  rs_id :: u64
  rs_body :: outcome
  rs_version :: u32

end
