(* ===== verification/Validation.thy ===== *)
theory Validation
  imports Contracts "HOL-Library.Multiset"
begin

section \<open>Validation of names, values, arguments and metadata\<close>

text \<open>
  Models \<open>include/pipeforge/validation.hpp\<close> and \<open>src/contracts/validation.cpp\<close>, which the codec,
  the registry and the session store share. UTF-8 validity is decided by the third-party library
  \<open>utf8_range\<close>: it is the parameter \<open>utf8\<close> of every definition that uses it. The locale
  \<open>utf8_validator\<close> states what the code relies on: ASCII text is valid, and the concatenation of
  valid texts is valid. The theory \<open>Utf8\<close> interprets it.
\<close>

definition max_message_nodes :: nat where
  "max_message_nodes = 4096"

definition name_char :: "char \<Rightarrow> bool" where
  "name_char c \<longleftrightarrow>
     (CHR ''a'' \<le> c \<and> c \<le> CHR ''z'') \<or> (CHR ''A'' \<le> c \<and> c \<le> CHR ''Z'') \<or>
     (CHR ''0'' \<le> c \<and> c \<le> CHR ''9'') \<or> c = CHR ''_''"

fun valid_name :: "string \<Rightarrow> bool \<Rightarrow> bool" where
  "valid_name [] allow_empty = allow_empty"
| "valid_name (c # cs) allow_empty =
     (if length (c # cs) > max_name_bytes \<or> (CHR ''0'' \<le> c \<and> c \<le> CHR ''9'') then False
      else list_all name_char (c # cs))"

fun valid_kind :: "value_kind \<Rightarrow> bool" where
  "valid_kind kind = (kind = VK_text \<or> kind = VK_integer \<or> kind = VK_real)"

definition isfinite :: "u64 \<Rightarrow> bool" where
  "isfinite bits \<longleftrightarrow> drop_bit 52 bits AND 0x7ff \<noteq> 0x7ff"

fun valid_value :: "(string \<Rightarrow> bool) \<Rightarrow> value_t \<Rightarrow> bool" where
  "valid_value utf8 (Text text) = (length text \<le> max_string_bytes \<and> utf8 text)"
| "valid_value utf8 (Integer i) = True"
| "valid_value utf8 (Real bits) = isfinite bits"

fun kind_of :: "value_t \<Rightarrow> value_kind" where
  "kind_of (Text text) = VK_text"
| "kind_of (Integer i) = VK_integer"
| "kind_of (Real bits) = VK_real"

fun value_bytes :: "value_t \<Rightarrow> nat" where
  "value_bytes (Text text) = length text"
| "value_bytes (Integer i) = 8"
| "value_bytes (Real bits) = 8"

definition valid_page_size :: "u32 \<Rightarrow> bool" where
  "valid_page_size n \<longleftrightarrow> n \<noteq> 0 \<and> unat n \<le> max_entries"

text \<open>
  \<open>valid_names\<close> is a template over any range of entries with a \<open>name\<close>; the model takes the names.
  \<open>seen\<close> is the local \<open>std::set\<close>, and the conjunction short-circuits as in the lambda.
\<close>

fun valid_names_from :: "string set \<Rightarrow> string list \<Rightarrow> bool" where
  "valid_names_from seen [] = True"
| "valid_names_from seen (name # names) =
     (valid_name name False \<and> name \<notin> seen \<and> valid_names_from (insert name seen) names)"

definition valid_names :: "string list \<Rightarrow> bool" where
  "valid_names names = valid_names_from {} names"

definition valid_parameters :: "parameter list \<Rightarrow> bool" where
  "valid_parameters parameters \<longleftrightarrow>
     length parameters \<le> max_entries \<and> valid_names (map pm_name parameters) \<and>
     list_all (\<lambda>item. valid_kind (pm_kind item)) parameters"

definition valid_named_values :: "(string \<Rightarrow> bool) \<Rightarrow> named_value list \<Rightarrow> bool" where
  "valid_named_values utf8 entries \<longleftrightarrow>
     length entries \<le> max_entries \<and> valid_names (map nv_name entries) \<and>
     list_all (\<lambda>item. valid_value utf8 (nv_data item)) entries"

definition valid_arguments ::
  "(string \<Rightarrow> bool) \<Rightarrow> named_value list \<Rightarrow> parameter list \<Rightarrow> bool" where
  "valid_arguments utf8 arguments parameters =
     (if length arguments \<noteq> length parameters \<or> \<not> valid_named_values utf8 arguments then False
      else list_all (\<lambda>p. case List.find (\<lambda>a. nv_name a = pm_name p) arguments of
                           None \<Rightarrow> False
                         | Some found \<Rightarrow> kind_of (nv_data found) = pm_kind p) parameters)"

fun method_nodes :: "nat \<Rightarrow> method_t list \<Rightarrow> nat option" where
  "method_nodes nodes [] = Some nodes"
| "method_nodes nodes (m # ms) =
     (if \<not> valid_kind (mt_result_kind m) \<or> \<not> valid_parameters (mt_parameters m) then None
      else method_nodes (nodes + length (mt_parameters m)) ms)"

definition valid_description :: "class_description \<Rightarrow> bool" where
  "valid_description d =
     (if \<not> valid_name (cd_name d) False \<or> length (cd_attributes d) > max_entries \<or>
         length (cd_methods d) > max_entries \<or> \<not> valid_names (map at_name (cd_attributes d)) \<or>
         \<not> valid_names (map mt_name (cd_methods d)) \<or>
         \<not> valid_parameters (cd_constructor_parameters d) then False
      else if \<not> list_all (\<lambda>a. valid_kind (at_kind a)) (cd_attributes d) then False
      else case method_nodes (1 + length (cd_attributes d) + length (cd_methods d) +
                              length (cd_constructor_parameters d)) (cd_methods d) of
             None \<Rightarrow> False
           | Some nodes \<Rightarrow> nodes < max_message_nodes)"

definition make_error :: "error_code \<Rightarrow> remote_error" where
  "make_error c =
     (if c = EC_invalid_request then \<lparr>re_code = c, re_message = ''Invalid request''\<rparr>
      else if c = EC_not_found then \<lparr>re_code = c, re_message = ''Resource not found''\<rparr>
      else if c = EC_quota_exceeded then \<lparr>re_code = c, re_message = ''Resource limit exceeded''\<rparr>
      else if c = EC_timeout then \<lparr>re_code = c, re_message = ''Operation timed out''\<rparr>
      else if c = EC_cancelled then \<lparr>re_code = c, re_message = ''Operation cancelled''\<rparr>
      else if c = EC_access_denied then \<lparr>re_code = c, re_message = ''Session access denied''\<rparr>
      else if c = EC_transport_failure then \<lparr>re_code = c, re_message = ''Transport failure''\<rparr>
      else if c = EC_unsupported_version
        then \<lparr>re_code = c, re_message = ''Unsupported protocol version''\<rparr>
      else if c = EC_numeric_overflow then \<lparr>re_code = c, re_message = ''Numeric overflow''\<rparr>
      else \<lparr>re_code = EC_internal_failure, re_message = ''Internal failure''\<rparr>)"

subsection \<open>What the predicates mean\<close>

lemma valid_names_from_iff:
  "valid_names_from seen names \<longleftrightarrow>
     (\<forall>n \<in> set names. valid_name n False) \<and> distinct names \<and> set names \<inter> seen = {}"
  by (induction names arbitrary: seen) auto

lemma valid_names_iff [contract_simps]:
  "valid_names names \<longleftrightarrow> (\<forall>n \<in> set names. valid_name n False) \<and> distinct names"
  by (simp add: valid_names_def valid_names_from_iff)

lemma valid_name_chars: "valid_name n b \<Longrightarrow> list_all name_char n"
  by (cases n) (auto split: if_splits)

lemma valid_name_length: "valid_name n b \<Longrightarrow> length n \<le> max_name_bytes"
  by (cases n) (auto simp: max_name_bytes_def split: if_splits)

lemma valid_name_nonempty [simp]: "valid_name n False \<Longrightarrow> n \<noteq> []"
  by (cases n) auto

lemma valid_name_weaken: "valid_name n False \<Longrightarrow> valid_name n b"
  by (cases n) auto

lemma valid_name_strengthen: "valid_name n b \<Longrightarrow> n \<noteq> [] \<Longrightarrow> valid_name n False"
  by (cases n) (auto split: if_splits)

lemma name_char_ascii:
  assumes "name_char c"
  shows "of_char c < (128 :: nat)"
  using assms by (auto simp: name_char_def less_eq_char_def)

lemma valid_parametersD:
  assumes "valid_parameters ps"
  shows "distinct (map pm_name ps)" "length ps \<le> max_entries"
    "\<And>p. p \<in> set ps \<Longrightarrow> valid_name (pm_name p) False \<and> valid_kind (pm_kind p)"
  using assms by (auto simp: valid_parameters_def contract_simps list_all_iff)

lemma valid_named_valuesD:
  assumes "valid_named_values utf8 vs"
  shows "distinct (map nv_name vs)" "length vs \<le> max_entries"
    "\<And>v. v \<in> set vs \<Longrightarrow> valid_name (nv_name v) False \<and> valid_value utf8 (nv_data v)"
  using assms by (auto simp: valid_named_values_def contract_simps list_all_iff)

lemma value_bytes_bounded: "valid_value utf8 v \<Longrightarrow> value_bytes v \<le> max_string_bytes"
  by (cases v) (auto simp: max_string_bytes_def)

lemma valid_kind_kind_of [simp]: "valid_kind (kind_of v)"
  by (cases v) auto

subsection \<open>Matching a declared signature\<close>

text \<open>
  Both \<open>valid_arguments\<close> and the session store's \<open>state_matches\<close> compare sizes and then look every
  declared name up. With unique names on both sides this is equality of the two signatures as
  multisets, so neither order nor repetition can matter.
\<close>

definition value_signature :: "named_value list \<Rightarrow> (string \<times> value_kind) list" where
  "value_signature vs = map (\<lambda>v. (nv_name v, kind_of (nv_data v))) vs"

lemma map_fst_value_signature [simp]: "map fst (value_signature vs) = map nv_name vs"
  by (simp add: value_signature_def)

lemma length_value_signature [simp]: "length (value_signature vs) = length vs"
  by (simp add: value_signature_def)

lemma map_of_value_signature:
  "map_of (value_signature vs) n =
     map_option (\<lambda>v. kind_of (nv_data v)) (List.find (\<lambda>v. nv_name v = n) vs)"
  by (induction vs) (auto simp: value_signature_def)

lemma all_declared_iff_mset:
  assumes "distinct (map fst as)" and "distinct (map fst ds)" and len: "length as = length ds"
  shows "list_all (\<lambda>(n, k). map_of as n = Some k) ds \<longleftrightarrow> mset as = mset ds"
proof
  assume "list_all (\<lambda>(n, k). map_of as n = Some k) ds"
  then have sub: "set ds \<subseteq> set as"
    by (auto simp: list_all_iff dest: map_of_SomeD)
  have "distinct as" "distinct ds"
    using assms by (auto simp: distinct_map)
  then have "card (set ds) = card (set as)"
    using len by (simp add: distinct_card)
  with sub have "set ds = set as"
    by (intro card_subset_eq) auto
  then show "mset as = mset ds"
    using \<open>distinct as\<close> \<open>distinct ds\<close> by (metis set_eq_iff_mset_eq_distinct)
next
  assume "mset as = mset ds"
  then have "set as = set ds" by (rule mset_eq_setD)
  then show "list_all (\<lambda>(n, k). map_of as n = Some k) ds"
    using assms(1) by (auto simp: list_all_iff)
qed

lemma find_kind_iff:
  "(case List.find (\<lambda>v. nv_name v = n) vs of None \<Rightarrow> False | Some found \<Rightarrow> kind_of (nv_data found) = k)
     \<longleftrightarrow> map_of (value_signature vs) n = Some k"
  by (auto simp: map_of_value_signature split: option.splits)

subsection \<open>Error descriptions\<close>

lemma make_error_code: "re_code (make_error c) = c \<or> re_code (make_error c) = EC_internal_failure"
  by (simp add: make_error_def)

lemma make_error_idem [simp]: "make_error (re_code (make_error c)) = make_error c"
  by (simp add: make_error_def)

subsection \<open>The UTF-8 library\<close>

locale utf8_validator =
  fixes utf8 :: "string \<Rightarrow> bool"
  assumes utf8_ascii: "list_all (\<lambda>c. of_char c < (128 :: nat)) s \<Longrightarrow> utf8 s"
    and utf8_append: "utf8 s \<Longrightarrow> utf8 t \<Longrightarrow> utf8 (s @ t)"
begin

lemma utf8_name: "valid_name n b \<Longrightarrow> utf8 n"
  by (rule utf8_ascii) (use valid_name_chars name_char_ascii in \<open>auto simp: list_all_iff\<close>)

lemma utf8_make_error: "utf8 (re_message (make_error c))"
  by (rule utf8_ascii) (simp add: make_error_def)

lemma valid_value_append:
  "valid_value utf8 (Text s) \<Longrightarrow> valid_value utf8 (Text t) \<Longrightarrow> length t \<le> max_string_bytes - length s \<Longrightarrow>
    valid_value utf8 (Text (s @ t))"
  by (auto simp: utf8_append)

end

subsection \<open>Properties\<close>

text \<open>
  Property C24. Argument validation accepts exactly the declared signature, regardless of order:
  for parameters the registry accepts, \<open>valid_arguments\<close> holds if and only if the arguments are
  well-formed named values and their names with their kinds are, as a multiset, the declared
  parameter names with their kinds.
\<close>

theorem valid_arguments_exact:
  assumes "valid_parameters ps"
  shows "valid_arguments utf8 args ps \<longleftrightarrow>
    valid_named_values utf8 args \<and>
    mset (map (\<lambda>a. (nv_name a, kind_of (nv_data a))) args) = mset (map (\<lambda>p. (pm_name p, pm_kind p)) ps)"
proof -
  define ds where "ds = map (\<lambda>p. (pm_name p, pm_kind p)) ps"
  have ds: "distinct (map fst ds)" "length ds = length ps"
    using valid_parametersD[OF assms] by (simp_all add: ds_def comp_def)
  have all: "list_all (\<lambda>p. case List.find (\<lambda>a. nv_name a = pm_name p) args of
      None \<Rightarrow> False | Some found \<Rightarrow> kind_of (nv_data found) = pm_kind p) ps
    \<longleftrightarrow> list_all (\<lambda>(n, k). map_of (value_signature args) n = Some k) ds"
    by (simp add: find_kind_iff ds_def list_all_iff)
  have "length args = length ps" if "mset (value_signature args) = mset ds"
    using that ds(2) by (metis length_value_signature size_mset)
  then show ?thesis
    using all_declared_iff_mset[of "value_signature args" ds] ds valid_named_valuesD(1)[of utf8 args]
    by (auto simp: valid_arguments_def all value_signature_def[symmetric] ds_def[symmetric])
qed

theorem valid_arguments_exact_witness:
  "valid_arguments (\<lambda>_. True)
     [\<lparr>nv_name = ''b'', nv_data = Integer 7\<rparr>, \<lparr>nv_name = ''a'', nv_data = Text ''x''\<rparr>]
     [\<lparr>pm_name = ''a'', pm_kind = VK_text\<rparr>, \<lparr>pm_name = ''b'', pm_kind = VK_integer\<rparr>]"
proof -
  have "valid_parameters [\<lparr>pm_name = ''a'', pm_kind = VK_text\<rparr>, \<lparr>pm_name = ''b'', pm_kind = VK_integer\<rparr>]"
    by code_simp
  moreover have "valid_named_values (\<lambda>_. True)
     [\<lparr>nv_name = ''b'', nv_data = Integer 7\<rparr>, \<lparr>nv_name = ''a'', nv_data = Text ''x''\<rparr>]"
    by code_simp
  ultimately show ?thesis
    by (simp add: valid_arguments_exact)
qed

end
