(* ===== verification/Wire.thy ===== *)
theory Wire
  imports Validation
begin

section \<open>Wire messages and their resource limits\<close>

text \<open>
  The messages of \<open>proto/pipeforge/v1/protocol.proto\<close> as the codec sees them through the generated
  accessors, and the resource checks of \<open>src/protocol/codec.cpp\<close> that run over every message by
  reflection (\<open>bounded_unknowns\<close>, \<open>validate_message\<close>).

  A message keeps the fields it did not recognise (\<open>UnknownFieldSet\<close>). A oneof is a datatype
  whose first constructor is the unset case; a singular message field may be absent and then
  reads as its default instance; enumerations are open, so an enumeration field is any integer.

  \<open>ListFields\<close> of the reflection interface enumerates the fields that are present in the order of
  their numbers: a singular string only when it is not empty, a repeated field only when it has
  elements, a member of a oneof or a message field when it is set. A \<open>reflected\<close> tree is that
  view; fields that are neither strings nor messages only count.
\<close>

datatype unknown_field =
    UF_varint u64
  | UF_fixed32 u32
  | UF_fixed64 u64
  | UF_length_delimited string
  | UF_group "unknown_field list"

type_synonym unknowns = "unknown_field list"

datatype reflected = Reflected unknowns "reflected_field list"
and reflected_field = RF_message "reflected list" | RF_string "string list" | RF_other nat

subsection \<open>Messages\<close>

datatype pb_data = PB_data_not_set | PB_text string | PB_integer i64 | PB_real u64

record pb_value =
  pv_unknown :: unknowns
  pv_data :: pb_data

record pb_named_value =
  pn_unknown :: unknowns
  pn_name :: string
  pn_value :: "pb_value option"

record pb_value_record =
  pvr_unknown :: unknowns
  pvr_id :: u64
  pvr_value :: "pb_value option"

record pb_parameter =
  pp_unknown :: unknowns
  pp_name :: string
  pp_kind :: int

record pb_attribute =
  pa_unknown :: unknowns
  pa_name :: string
  pa_kind :: int
  pa_read_only :: bool

record pb_method =
  pmt_unknown :: unknowns
  pmt_name :: string
  pmt_parameters :: "pb_parameter list"
  pmt_result_kind :: int

record pb_class_description =
  pc_unknown :: unknowns
  pc_name :: string
  pc_attributes :: "pb_attribute list"
  pc_methods :: "pb_method list"
  pc_constructor_parameters :: "pb_parameter list"

datatype pb_operation =
    PB_operation_not_set
  | PB_list_classes unknowns string u32
  | PB_describe_class unknowns string
  | PB_put_value unknowns "pb_value option"
  | PB_get_value unknowns u64
  | PB_list_values unknowns u64 u32
  | PB_create_object unknowns string "pb_named_value list"
  | PB_get_object unknowns u64
  | PB_release_object unknowns u64
  | PB_get_attribute unknowns u64 string
  | PB_invoke_method unknowns u64 string "pb_named_value list"

datatype pb_outcome =
    PB_outcome_not_set
  | PB_classes unknowns "string list" string
  | PB_description pb_class_description
  | PB_value_record pb_value_record
  | PB_values unknowns "pb_value_record list" u64
  | PB_object unknowns u64 string "pb_named_value list"
  | PB_released unknowns
  | PB_value pb_value
  | PB_error unknowns int string

record pb_request =
  pr_unknown :: unknowns
  pr_version :: "u32 option"
  pr_request_id :: u64
  pr_operation :: pb_operation

record pb_response =
  ps_unknown :: unknowns
  ps_version :: "u32 option"
  ps_request_id :: u64
  ps_outcome :: pb_outcome

subsection \<open>Reflection\<close>

definition present_string :: "string \<Rightarrow> reflected_field list" where
  "present_string s = (if s = [] then [] else [RF_string [s]])"

definition present_scalar :: "bool \<Rightarrow> reflected_field list" where
  "present_scalar nonzero = (if nonzero then [RF_other 1] else [])"

definition present_messages :: "reflected list \<Rightarrow> reflected_field list" where
  "present_messages ms = (if ms = [] then [] else [RF_message ms])"

fun reflect_data :: "pb_data \<Rightarrow> reflected_field list" where
  "reflect_data PB_data_not_set = []"
| "reflect_data (PB_text s) = [RF_string [s]]"
| "reflect_data (PB_integer i) = [RF_other 1]"
| "reflect_data (PB_real r) = [RF_other 1]"

definition reflect_value :: "pb_value \<Rightarrow> reflected" where
  "reflect_value v = Reflected (pv_unknown v) (reflect_data (pv_data v))"

definition reflect_optional :: "pb_value option \<Rightarrow> reflected_field list" where
  "reflect_optional v = present_messages (case v of None \<Rightarrow> [] | Some v \<Rightarrow> [reflect_value v])"

definition reflect_named :: "pb_named_value \<Rightarrow> reflected" where
  "reflect_named n = Reflected (pn_unknown n) (present_string (pn_name n) @ reflect_optional (pn_value n))"

definition reflect_record :: "pb_value_record \<Rightarrow> reflected" where
  "reflect_record r = Reflected (pvr_unknown r) (present_scalar (pvr_id r \<noteq> 0) @ reflect_optional (pvr_value r))"

definition reflect_parameter :: "pb_parameter \<Rightarrow> reflected" where
  "reflect_parameter p = Reflected (pp_unknown p) (present_string (pp_name p) @ present_scalar (pp_kind p \<noteq> 0))"

definition reflect_attribute :: "pb_attribute \<Rightarrow> reflected" where
  "reflect_attribute a = Reflected (pa_unknown a)
     (present_string (pa_name a) @ present_scalar (pa_kind a \<noteq> 0) @ present_scalar (pa_read_only a))"

definition reflect_method :: "pb_method \<Rightarrow> reflected" where
  "reflect_method m = Reflected (pmt_unknown m)
     (present_string (pmt_name m) @ present_messages (map reflect_parameter (pmt_parameters m)) @
      present_scalar (pmt_result_kind m \<noteq> 0))"

definition reflect_description :: "pb_class_description \<Rightarrow> reflected" where
  "reflect_description d = Reflected (pc_unknown d)
     (present_string (pc_name d) @ present_messages (map reflect_attribute (pc_attributes d)) @
      present_messages (map reflect_method (pc_methods d)) @
      present_messages (map reflect_parameter (pc_constructor_parameters d)))"

fun reflect_operation :: "pb_operation \<Rightarrow> reflected list" where
  "reflect_operation PB_operation_not_set = []"
| "reflect_operation (PB_list_classes u after limit) =
     [Reflected u (present_string after @ present_scalar (limit \<noteq> 0))]"
| "reflect_operation (PB_describe_class u name) = [Reflected u (present_string name)]"
| "reflect_operation (PB_put_value u v) = [Reflected u (reflect_optional v)]"
| "reflect_operation (PB_get_value u i) = [Reflected u (present_scalar (i \<noteq> 0))]"
| "reflect_operation (PB_list_values u after limit) =
     [Reflected u (present_scalar (after \<noteq> 0) @ present_scalar (limit \<noteq> 0))]"
| "reflect_operation (PB_create_object u name args) =
     [Reflected u (present_string name @ present_messages (map reflect_named args))]"
| "reflect_operation (PB_get_object u i) = [Reflected u (present_scalar (i \<noteq> 0))]"
| "reflect_operation (PB_release_object u i) = [Reflected u (present_scalar (i \<noteq> 0))]"
| "reflect_operation (PB_get_attribute u i name) =
     [Reflected u (present_scalar (i \<noteq> 0) @ present_string name)]"
| "reflect_operation (PB_invoke_method u i name args) =
     [Reflected u (present_scalar (i \<noteq> 0) @ present_string name @ present_messages (map reflect_named args))]"

fun reflect_outcome :: "pb_outcome \<Rightarrow> reflected list" where
  "reflect_outcome PB_outcome_not_set = []"
| "reflect_outcome (PB_classes u names nxt) =
     [Reflected u ((if names = [] then [] else [RF_string names]) @ present_string nxt)]"
| "reflect_outcome (PB_description d) = [reflect_description d]"
| "reflect_outcome (PB_value_record r) = [reflect_record r]"
| "reflect_outcome (PB_values u rs nxt) =
     [Reflected u (present_messages (map reflect_record rs) @ present_scalar (nxt \<noteq> 0))]"
| "reflect_outcome (PB_object u i name state) =
     [Reflected u (present_scalar (i \<noteq> 0) @ present_string name @ present_messages (map reflect_named state))]"
| "reflect_outcome (PB_released u) = [Reflected u []]"
| "reflect_outcome (PB_value v) = [reflect_value v]"
| "reflect_outcome (PB_error u c message) =
     [Reflected u (present_scalar (c \<noteq> 0) @ present_string message)]"

definition reflect_request :: "pb_request \<Rightarrow> reflected" where
  "reflect_request m = Reflected (pr_unknown m)
     (present_scalar (pr_version m \<noteq> None) @ present_scalar (pr_request_id m \<noteq> 0) @
      present_messages (reflect_operation (pr_operation m)))"

definition reflect_response :: "pb_response \<Rightarrow> reflected" where
  "reflect_response m = Reflected (ps_unknown m)
     (present_scalar (ps_version m \<noteq> None) @ present_scalar (ps_request_id m \<noteq> 0) @
      present_messages (reflect_outcome (ps_outcome m)))"

subsection \<open>Resource limits\<close>

definition max_unknown_fields :: int where
  "max_unknown_fields = 128"

text \<open>
  \<open>bounded_unknowns\<close> with its loop; the reference parameter \<open>remaining\<close> is returned.
\<close>

function (sequential) bounded_unknowns :: "unknowns \<Rightarrow> int \<Rightarrow> int \<Rightarrow> bool \<times> int"
  and bounded_fields :: "unknowns \<Rightarrow> int \<Rightarrow> int \<Rightarrow> bool \<times> int" where
  "bounded_unknowns fs remaining depth =
     (if depth > max_recursion_depth \<or> int (length fs) > remaining then (False, remaining)
      else bounded_fields fs (remaining - int (length fs)) depth)"
| "bounded_fields [] remaining depth = (True, remaining)"
| "bounded_fields (UF_length_delimited s # fs) remaining depth =
     (if length s > max_string_bytes then (False, remaining) else bounded_fields fs remaining depth)"
| "bounded_fields (UF_group g # fs) remaining depth =
     (case bounded_unknowns g remaining (depth + 1) of
        (False, remaining') \<Rightarrow> (False, remaining')
      | (True, remaining') \<Rightarrow> bounded_fields fs remaining' depth)"
| "bounded_fields (f # fs) remaining depth = bounded_fields fs remaining depth"
  by pat_completeness auto

termination
  by (relation "measure (case_sum (\<lambda>(fs, r, d). Suc (2 * size_list size fs)) (\<lambda>(fs, r, d). 2 * size_list size fs))")
    auto

fun validate_strings :: "(string \<Rightarrow> bool) \<Rightarrow> string list \<Rightarrow> failure_code option" where
  "validate_strings utf8 [] = None"
| "validate_strings utf8 (s # ss) =
     (if length s > max_string_bytes then Some FC_limit_exceeded
      else if \<not> utf8 s then Some FC_invalid_fields
      else validate_strings utf8 ss)"

fun field_count :: "reflected_field \<Rightarrow> nat" where
  "field_count (RF_message ms) = length ms"
| "field_count (RF_string ss) = length ss"
| "field_count (RF_other n) = n"

text \<open>
  \<open>validate_message\<close> with its two loops; the reference parameters \<open>nodes\<close> and \<open>unknowns\<close> are returned.
\<close>

function (sequential) validate_message :: "(string \<Rightarrow> bool) \<Rightarrow> reflected \<Rightarrow> nat \<Rightarrow> int \<Rightarrow> failure_code option \<times> nat \<times> int"
  and validate_fields :: "(string \<Rightarrow> bool) \<Rightarrow> reflected_field list \<Rightarrow> nat \<Rightarrow> int \<Rightarrow> failure_code option \<times> nat \<times> int"
  and validate_field :: "(string \<Rightarrow> bool) \<Rightarrow> reflected_field \<Rightarrow> nat \<Rightarrow> int \<Rightarrow> failure_code option \<times> nat \<times> int"
  and validate_messages :: "(string \<Rightarrow> bool) \<Rightarrow> reflected list \<Rightarrow> nat \<Rightarrow> int \<Rightarrow> failure_code option \<times> nat \<times> int" where
  "validate_message utf8 (Reflected us fs) nodes unknowns =
     (if nodes = 0 then (Some FC_limit_exceeded, nodes, unknowns)
      else case bounded_unknowns us unknowns 0 of
        (False, unknowns') \<Rightarrow> (Some FC_limit_exceeded, nodes - 1, unknowns')
      | (True, unknowns') \<Rightarrow> validate_fields utf8 fs (nodes - 1) unknowns')"
| "validate_fields utf8 [] nodes unknowns = (None, nodes, unknowns)"
| "validate_fields utf8 (f # fs) nodes unknowns =
     (if field_count f > max_entries then (Some FC_limit_exceeded, nodes, unknowns)
      else case validate_field utf8 f nodes unknowns of
        (Some e, r) \<Rightarrow> (Some e, r)
      | (None, nodes', unknowns') \<Rightarrow> validate_fields utf8 fs nodes' unknowns')"
| "validate_field utf8 (RF_message ms) nodes unknowns = validate_messages utf8 ms nodes unknowns"
| "validate_field utf8 (RF_string ss) nodes unknowns = (validate_strings utf8 ss, nodes, unknowns)"
| "validate_field utf8 (RF_other n) nodes unknowns = (None, nodes, unknowns)"
| "validate_messages utf8 [] nodes unknowns = (None, nodes, unknowns)"
| "validate_messages utf8 (m # ms) nodes unknowns =
     (case validate_message utf8 m nodes unknowns of
        (Some e, r) \<Rightarrow> (Some e, r)
      | (None, nodes', unknowns') \<Rightarrow> validate_messages utf8 ms nodes' unknowns')"
  by pat_completeness auto

termination
  by (relation "measure (case_sum
      (case_sum (\<lambda>(v, m, n, u). Suc (2 * size m)) (\<lambda>(v, fs, n, u). 2 * size_list size fs))
      (case_sum (\<lambda>(v, f, n, u). Suc (2 * size f)) (\<lambda>(v, ms, n, u). Suc (2 * size_list size ms))))")
    auto

subsection \<open>What the limits mean\<close>

text \<open>
  The reference reading of the two checks: totals over the whole tree and conditions on each part
  of it, with no budget threaded through.
\<close>

primrec unknown_fields :: "unknown_field \<Rightarrow> int" where
  "unknown_fields (UF_varint v) = 1"
| "unknown_fields (UF_fixed32 v) = 1"
| "unknown_fields (UF_fixed64 v) = 1"
| "unknown_fields (UF_length_delimited s) = 1"
| "unknown_fields (UF_group g) = 1 + sum_list (map unknown_fields g)"

primrec unknown_ok :: "unknown_field \<Rightarrow> int \<Rightarrow> bool" where
  "unknown_ok (UF_varint v) depth = True"
| "unknown_ok (UF_fixed32 v) depth = True"
| "unknown_ok (UF_fixed64 v) depth = True"
| "unknown_ok (UF_length_delimited s) depth = (length s \<le> max_string_bytes)"
| "unknown_ok (UF_group g) depth =
     (depth < max_recursion_depth \<and> (\<forall>ok \<in> set (map unknown_ok g). ok (depth + 1)))"

abbreviation total_unknowns :: "unknowns \<Rightarrow> int" where
  "total_unknowns us \<equiv> sum_list (map unknown_fields us)"

primrec message_nodes :: "reflected \<Rightarrow> nat" and field_nodes :: "reflected_field \<Rightarrow> nat" where
  "message_nodes (Reflected us fs) = Suc (sum_list (map field_nodes fs))"
| "field_nodes (RF_message ms) = sum_list (map message_nodes ms)"
| "field_nodes (RF_string ss) = 0"
| "field_nodes (RF_other n) = 0"

primrec message_unknowns :: "reflected \<Rightarrow> int" and field_unknowns :: "reflected_field \<Rightarrow> int" where
  "message_unknowns (Reflected us fs) = total_unknowns us + sum_list (map field_unknowns fs)"
| "field_unknowns (RF_message ms) = sum_list (map message_unknowns ms)"
| "field_unknowns (RF_string ss) = 0"
| "field_unknowns (RF_other n) = 0"

primrec message_ok :: "reflected \<Rightarrow> (string \<Rightarrow> bool) \<Rightarrow> bool"
  and field_ok :: "reflected_field \<Rightarrow> (string \<Rightarrow> bool) \<Rightarrow> bool" where
  "message_ok (Reflected us fs) utf8 =
     ((\<forall>f \<in> set us. unknown_ok f 0) \<and> (\<forall>ok \<in> set (map field_ok fs). ok utf8))"
| "field_ok (RF_message ms) utf8 = (length ms \<le> max_entries \<and> (\<forall>ok \<in> set (map message_ok ms). ok utf8))"
| "field_ok (RF_string ss) utf8 =
     (length ss \<le> max_entries \<and> (\<forall>s \<in> set ss. length s \<le> max_string_bytes \<and> utf8 s))"
| "field_ok (RF_other n) utf8 = (n \<le> max_entries)"

lemma unknown_fields_pos: "0 < unknown_fields f"
proof (induction f)
  case (UF_group g)
  then have "0 \<le> total_unknowns g"
    by (intro sum_list_nonneg) (auto intro: less_imp_le)
  then show ?case by simp
qed simp_all

lemma total_unknowns_length: "int (length us) \<le> total_unknowns us"
proof (induction us)
  case (Cons f us)
  then show ?case using unknown_fields_pos[of f] by simp
qed simp

lemma bounded_unknowns_exact:
  shows "bounded_unknowns us r d = (True, r') \<longleftrightarrow>
      d \<le> max_recursion_depth \<and> (\<forall>f \<in> set us. unknown_ok f d) \<and> total_unknowns us \<le> r \<and> r' = r - total_unknowns us"
    and "0 \<le> r \<Longrightarrow> d \<le> max_recursion_depth \<Longrightarrow> bounded_fields us r d = (True, r') \<longleftrightarrow>
      (\<forall>f \<in> set us. unknown_ok f d) \<and> total_unknowns us - int (length us) \<le> r \<and>
      r' = r - (total_unknowns us - int (length us))"
proof (induction us r d and us r d arbitrary: r' and r' rule: bounded_unknowns_bounded_fields.induct)
  case (1 fs r d)
  then show ?case using total_unknowns_length[of fs] by auto
next
  case (4 g fs r d)
  have g: "0 \<le> total_unknowns g"
    using total_unknowns_length[of g] by linarith
  have fs: "int (length fs) \<le> total_unknowns fs"
    by (rule total_unknowns_length)
  show ?case
  proof (cases "bounded_unknowns g r (d + 1)")
    case (Pair ok r1)
    then show ?thesis
    proof (cases ok)
      case True
      then have "d + 1 \<le> max_recursion_depth \<and> (\<forall>f \<in> set g. unknown_ok f (d + 1)) \<and>
          total_unknowns g \<le> r \<and> r1 = r - total_unknowns g"
        using "4.IH"(1)[of r1] Pair by simp
      then show ?thesis
        using "4.IH"(2)[OF Pair[symmetric]] "4.prems" Pair True by auto
    next
      case False
      then have "\<not> (d + 1 \<le> max_recursion_depth \<and> (\<forall>f \<in> set g. unknown_ok f (d + 1)) \<and> total_unknowns g \<le> r)"
        using "4.IH"(1)[of "r - total_unknowns g"] Pair by auto
      then show ?thesis
        using Pair False g fs by auto
    qed
  qed
qed auto

lemma validate_strings_None:
  "validate_strings utf8 ss = None \<longleftrightarrow> (\<forall>s \<in> set ss. length s \<le> max_string_bytes \<and> utf8 s)"
  by (induction ss) auto

lemma message_unknowns_nonneg: "0 \<le> message_unknowns m" "0 \<le> field_unknowns f"
proof (induction m and f)
  case (Reflected us fs)
  have "0 \<le> total_unknowns us"
    using total_unknowns_length[of us] by linarith
  moreover have "0 \<le> sum_list (map field_unknowns fs)"
    using Reflected by (intro sum_list_nonneg) auto
  ultimately show ?case by simp
qed (auto intro!: sum_list_nonneg)

lemma sum_unknowns_nonneg:
  "0 \<le> sum_list (map message_unknowns ms)" "0 \<le> sum_list (map field_unknowns fs)"
  by (auto intro!: sum_list_nonneg message_unknowns_nonneg)

lemma validate_message_exact:
  shows "0 \<le> u \<Longrightarrow> validate_message utf8 m n u = (None, n', u') \<longleftrightarrow>
      message_ok m utf8 \<and> message_nodes m \<le> n \<and> message_unknowns m \<le> u \<and>
      n' = n - message_nodes m \<and> u' = u - message_unknowns m"
    and "0 \<le> u \<Longrightarrow> validate_fields utf8 fs n u = (None, n', u') \<longleftrightarrow>
      (\<forall>f \<in> set fs. field_ok f utf8) \<and> sum_list (map field_nodes fs) \<le> n \<and>
      sum_list (map field_unknowns fs) \<le> u \<and>
      n' = n - sum_list (map field_nodes fs) \<and> u' = u - sum_list (map field_unknowns fs)"
    and "0 \<le> u \<Longrightarrow> field_count f \<le> max_entries \<Longrightarrow> validate_field utf8 f n u = (None, n', u') \<longleftrightarrow>
      field_ok f utf8 \<and> field_nodes f \<le> n \<and> field_unknowns f \<le> u \<and>
      n' = n - field_nodes f \<and> u' = u - field_unknowns f"
    and "0 \<le> u \<Longrightarrow> validate_messages utf8 ms n u = (None, n', u') \<longleftrightarrow>
      (\<forall>m \<in> set ms. message_ok m utf8) \<and> sum_list (map message_nodes ms) \<le> n \<and>
      sum_list (map message_unknowns ms) \<le> u \<and>
      n' = n - sum_list (map message_nodes ms) \<and> u' = u - sum_list (map message_unknowns ms)"
proof (induction utf8 m n u and utf8 fs n u and utf8 f n u and utf8 ms n u arbitrary: n' u' and n' u' and n' u' and n' u'
    rule: validate_message_validate_fields_validate_field_validate_messages.induct)
  case (1 utf8 us fs n u)
  have nonneg: "0 \<le> sum_list (map field_unknowns fs)" by (rule sum_unknowns_nonneg)
  show ?case
  proof (cases "n = 0")
    case False
    obtain ok u1 where b: "bounded_unknowns us u 0 = (ok, u1)" by fastforce
    show ?thesis
    proof (cases ok)
      case True
      then have us: "(\<forall>f \<in> set us. unknown_ok f 0) \<and> total_unknowns us \<le> u \<and> u1 = u - total_unknowns us"
        using bounded_unknowns_exact(1)[of us u 0 u1] b by simp
      then show ?thesis
        using "1.IH"[OF False b[symmetric]] b True False by auto
    next
      case off: False
      then have "\<not> ((\<forall>f \<in> set us. unknown_ok f 0) \<and> total_unknowns us \<le> u)"
        using bounded_unknowns_exact(1)[of us u 0 "u - total_unknowns us"] b
        by (auto simp: max_recursion_depth_def)
      then show ?thesis
        using b off False nonneg by auto
    qed
  qed simp
next
  case (3 utf8 f fs n u)
  have nonneg: "0 \<le> sum_list (map field_unknowns fs)" by (rule sum_unknowns_nonneg)
  have big: "\<not> field_ok f utf8" if "max_entries < field_count f"
    using that by (cases f) auto
  show ?case
  proof (cases "max_entries < field_count f")
    case False
    obtain e n1 u1 where v: "validate_field utf8 f n u = (e, n1, u1)" by (rule prod_cases3)
    note IH1 = "3.IH"(1)[OF False "3.prems"]
    show ?thesis
    proof (cases e)
      case None
      then show ?thesis
        using IH1[of n1 u1] "3.IH"(2)[OF False v[symmetric] None refl] False v by auto
    next
      case (Some c)
      then have "\<not> (field_ok f utf8 \<and> field_nodes f \<le> n \<and> field_unknowns f \<le> u)"
        using IH1 False v by auto
      then show ?thesis using Some v False nonneg by auto
    qed
  qed (use big in auto)
next
  case (8 utf8 m ms n u)
  have nonneg: "0 \<le> sum_list (map message_unknowns ms)" by (rule sum_unknowns_nonneg)
  obtain e n1 u1 where v: "validate_message utf8 m n u = (e, n1, u1)" by (rule prod_cases3)
  note IH1 = "8.IH"(1)[OF "8.prems"]
  show ?case
  proof (cases e)
    case None
    then show ?thesis
      using IH1[of n1 u1] "8.IH"(2)[OF v[symmetric] None refl] v by auto
  next
    case (Some c)
    then have "\<not> (message_ok m utf8 \<and> message_nodes m \<le> n \<and> message_unknowns m \<le> u)"
      using IH1 v by auto
    then show ?thesis using Some v nonneg by auto
  qed
qed (auto simp: validate_strings_None)

lemma message_ok_iff:
  "message_ok (Reflected us fs) utf8 \<longleftrightarrow> (\<forall>f \<in> set us. unknown_ok f 0) \<and> (\<forall>f \<in> set fs. field_ok f utf8)"
  by simp

lemma field_ok_messages_iff:
  "field_ok (RF_message ms) utf8 \<longleftrightarrow> length ms \<le> max_entries \<and> (\<forall>m \<in> set ms. message_ok m utf8)"
  by simp

declare message_ok.simps [simp del] field_ok.simps(1) [simp del]
declare message_ok_iff [simp] field_ok_messages_iff [simp]

end
