(* ===== verification/Codec.thy ===== *)
theory Codec
  imports Wire
begin

section \<open>The codec\<close>

text \<open>
  Models \<open>src/protocol/codec.cpp\<close>: the translation of wire messages to contract values
  (\<open>read_value\<close>, \<open>read_named\<close>, \<open>read_operation\<close>, \<open>read_record\<close>, \<open>read_parameters\<close>,
  \<open>read_description\<close>, \<open>read_outcome\<close>) and back (\<open>write_*\<close>), \<open>validate_envelope\<close>, \<open>parse\<close>,
  \<open>serialize\<close> and the four entry points.

  The Protobuf runtime is a parameter, one \<open>protobuf\<close> record per envelope: \<open>pb_parse\<close> is
  \<open>ParseFromCodedStream\<close> under the limits the code sets together with \<open>ConsumedEntireMessage\<close>,
  \<open>pb_byte_size\<close> is \<open>ByteSizeLong\<close> and \<open>pb_serialize\<close> is \<open>SerializeToArray\<close>. The Unicode check of
  \<open>utf8_range\<close> is the parameter \<open>utf8\<close>. Writers return the message they build where the code
  fills a fresh one; \<open>std::nullopt\<close> of a reader is \<^const>\<open>None\<close>.
\<close>

record 'm protobuf =
  pb_parse :: "bytes \<Rightarrow> 'm option"
  pb_byte_size :: "'m \<Rightarrow> nat"
  pb_serialize :: "'m \<Rightarrow> bytes option"

definition value_field :: "pb_value option \<Rightarrow> pb_value" where
  "value_field v = (case v of None \<Rightarrow> \<lparr>pv_unknown = [], pv_data = PB_data_not_set\<rparr> | Some m \<Rightarrow> m)"

definition read_value :: "pb_value \<Rightarrow> value_t option" where
  "read_value input =
     (case pv_data input of
        PB_text s \<Rightarrow> Some (Text s)
      | PB_integer i \<Rightarrow> Some (Integer i)
      | PB_real r \<Rightarrow> if isfinite r then Some (Real r) else None
      | PB_data_not_set \<Rightarrow> None)"

fun write_value :: "value_t \<Rightarrow> pb_value" where
  "write_value (Text s) = \<lparr>pv_unknown = [], pv_data = PB_text s\<rparr>"
| "write_value (Integer i) = \<lparr>pv_unknown = [], pv_data = PB_integer i\<rparr>"
| "write_value (Real r) = \<lparr>pv_unknown = [], pv_data = PB_real r\<rparr>"

fun read_entries :: "pb_named_value list \<Rightarrow> named_value list option" where
  "read_entries [] = Some []"
| "read_entries (entry # entries) =
     (case read_value (value_field (pn_value entry)) of
        None \<Rightarrow> None
      | Some data \<Rightarrow> map_option ((#) \<lparr>nv_name = pn_name entry, nv_data = data\<rparr>) (read_entries entries))"

definition read_named :: "pb_named_value list \<Rightarrow> named_value list option" where
  "read_named entries =
     (case read_entries entries of
        None \<Rightarrow> None
      | Some output \<Rightarrow> if \<not> valid_names (map nv_name output) then None else Some output)"

definition write_named :: "named_value list \<Rightarrow> pb_named_value list" where
  "write_named entries =
     map (\<lambda>entry. \<lparr>pn_unknown = [], pn_name = nv_name entry, pn_value = Some (write_value (nv_data entry))\<rparr>) entries"

fun read_operation :: "pb_operation \<Rightarrow> operation option" where
  "read_operation (PB_list_classes u after limit) =
     (if valid_name after True \<and> valid_page_size limit then Some (List_classes after limit) else None)"
| "read_operation (PB_describe_class u name) =
     (if valid_name name False then Some (Describe_class name) else None)"
| "read_operation (PB_put_value u v) = map_option Put_value (read_value (value_field v))"
| "read_operation (PB_get_value u i) = (if i \<noteq> 0 then Some (Get_value i) else None)"
| "read_operation (PB_list_values u after limit) =
     (if valid_page_size limit then Some (List_values after limit) else None)"
| "read_operation (PB_create_object u name args) =
     (if valid_name name False then map_option (Create_object name) (read_named args) else None)"
| "read_operation (PB_get_object u i) = (if i \<noteq> 0 then Some (Get_object i) else None)"
| "read_operation (PB_release_object u i) = (if i \<noteq> 0 then Some (Release_object i) else None)"
| "read_operation (PB_get_attribute u i name) =
     (if i \<noteq> 0 \<and> valid_name name False then Some (Get_attribute i name) else None)"
| "read_operation (PB_invoke_method u i name args) =
     (if i \<noteq> 0 \<and> valid_name name False then map_option (Invoke_method i name) (read_named args) else None)"
| "read_operation PB_operation_not_set = None"

fun write_operation :: "operation \<Rightarrow> pb_operation" where
  "write_operation (List_classes after limit) = PB_list_classes [] after limit"
| "write_operation (Describe_class name) = PB_describe_class [] name"
| "write_operation (Put_value v) = PB_put_value [] (Some (write_value v))"
| "write_operation (Get_value i) = PB_get_value [] i"
| "write_operation (List_values after limit) = PB_list_values [] after limit"
| "write_operation (Create_object name args) = PB_create_object [] name (write_named args)"
| "write_operation (Get_object i) = PB_get_object [] i"
| "write_operation (Release_object i) = PB_release_object [] i"
| "write_operation (Get_attribute i name) = PB_get_attribute [] i name"
| "write_operation (Invoke_method i name args) = PB_invoke_method [] i name (write_named args)"

definition read_record :: "pb_value_record \<Rightarrow> value_record option" where
  "read_record input =
     (case read_value (value_field (pvr_value input)) of
        Some data \<Rightarrow> if pvr_id input \<noteq> 0 then Some \<lparr>vr_id = pvr_id input, vr_data = data\<rparr> else None
      | None \<Rightarrow> None)"

definition write_record :: "value_record \<Rightarrow> pb_value_record" where
  "write_record input =
     \<lparr>pvr_unknown = [], pvr_id = vr_id input, pvr_value = Some (write_value (vr_data input))\<rparr>"

text \<open>
  \<open>static_cast<value_kind>\<close> of an open enumeration keeps the low eight bits, and
  \<open>static_cast<int>\<close> of the result reads them as an unsigned number.
\<close>

definition cast_kind :: "int \<Rightarrow> value_kind" where
  "cast_kind k = Value_kind (word_of_int k)"

fun kind_int :: "value_kind \<Rightarrow> int" where
  "kind_int (Value_kind k) = uint k"

definition read_kind :: "int \<Rightarrow> value_kind option" where
  "read_kind k =
     (if \<not> valid_kind (cast_kind k) \<or> kind_int (cast_kind k) \<noteq> k then None else Some (cast_kind k))"

fun read_parameter_list :: "pb_parameter list \<Rightarrow> parameter list option" where
  "read_parameter_list [] = Some []"
| "read_parameter_list (argument # input) =
     (case read_kind (pp_kind argument) of
        None \<Rightarrow> None
      | Some kind \<Rightarrow> map_option ((#) \<lparr>pm_name = pp_name argument, pm_kind = kind\<rparr>) (read_parameter_list input))"

definition read_parameters :: "pb_parameter list \<Rightarrow> parameter list option" where
  "read_parameters input =
     (case read_parameter_list input of
        None \<Rightarrow> None
      | Some output \<Rightarrow> if \<not> valid_names (map pm_name output) then None else Some output)"

definition write_parameters :: "parameter list \<Rightarrow> pb_parameter list" where
  "write_parameters input =
     map (\<lambda>argument. \<lparr>pp_unknown = [], pp_name = pm_name argument, pp_kind = kind_int (pm_kind argument)\<rparr>) input"

fun read_attributes :: "pb_attribute list \<Rightarrow> attribute list option" where
  "read_attributes [] = Some []"
| "read_attributes (field # rest) =
     (case read_kind (pa_kind field) of
        None \<Rightarrow> None
      | Some kind \<Rightarrow> map_option ((#) \<lparr>at_name = pa_name field, at_kind = kind, at_read_only = pa_read_only field\<rparr>)
                       (read_attributes rest))"

fun read_methods :: "pb_method list \<Rightarrow> method_t list option" where
  "read_methods [] = Some []"
| "read_methods (function # functions) =
     (case read_kind (pmt_result_kind function) of
        None \<Rightarrow> None
      | Some kind \<Rightarrow>
        (case read_parameters (pmt_parameters function) of
           None \<Rightarrow> None
         | Some parameters \<Rightarrow>
           map_option ((#) \<lparr>mt_name = pmt_name function, mt_parameters = parameters, mt_result_kind = kind\<rparr>)
             (read_methods functions)))"

definition read_description :: "pb_class_description \<Rightarrow> class_description option" where
  "read_description input =
     (if \<not> valid_name (pc_name input) False then None
      else case read_parameters (pc_constructor_parameters input) of
        None \<Rightarrow> None
      | Some constr \<Rightarrow>
        (case read_attributes (pc_attributes input) of
           None \<Rightarrow> None
         | Some attributes \<Rightarrow>
           (case read_methods (pc_methods input) of
              None \<Rightarrow> None
            | Some methods \<Rightarrow>
              if \<not> valid_names (map at_name attributes) \<or> \<not> valid_names (map mt_name methods) then None
              else Some \<lparr>cd_name = pc_name input, cd_attributes = attributes, cd_methods = methods,
                         cd_constructor_parameters = constr\<rparr>)))"

definition write_description :: "class_description \<Rightarrow> pb_class_description" where
  "write_description input =
     \<lparr>pc_unknown = [], pc_name = cd_name input,
      pc_attributes = map (\<lambda>field. \<lparr>pa_unknown = [], pa_name = at_name field,
        pa_kind = kind_int (at_kind field), pa_read_only = at_read_only field\<rparr>) (cd_attributes input),
      pc_methods = map (\<lambda>function. \<lparr>pmt_unknown = [], pmt_name = mt_name function,
        pmt_parameters = write_parameters (mt_parameters function),
        pmt_result_kind = kind_int (mt_result_kind function)\<rparr>) (cd_methods input),
      pc_constructor_parameters = write_parameters (cd_constructor_parameters input)\<rparr>"

text \<open>
  \<open>std::ranges::adjacent_find\<close> finds the first of two equal neighbours.
\<close>

fun has_adjacent_equal :: "'a list \<Rightarrow> bool" where
  "has_adjacent_equal (x # y # zs) = (x = y \<or> has_adjacent_equal (y # zs))"
| "has_adjacent_equal _ = False"

fun read_records :: "u64 \<Rightarrow> pb_value_record list \<Rightarrow> (value_record list \<times> u64) option" where
  "read_records previous [] = Some ([], previous)"
| "read_records previous (r # rs) =
     (case read_record r of
        None \<Rightarrow> None
      | Some data \<Rightarrow>
        if vr_id data \<le> previous then None
        else map_option (map_prod ((#) data) id) (read_records (vr_id data) rs))"

fun error_int :: "error_code \<Rightarrow> int" where
  "error_int (Error_code c) = uint c"

fun read_outcome :: "pb_outcome \<Rightarrow> outcome option" where
  "read_outcome (PB_classes u names nxt) =
     (if \<not> list_all (\<lambda>name. valid_name name False) names \<or> \<not> sorted names \<or> has_adjacent_equal names \<or>
         (nxt \<noteq> [] \<and> (names = [] \<or> nxt \<noteq> last names))
      then None else Some (Classes_page \<lparr>cp_names = names, cp_next = nxt\<rparr>))"
| "read_outcome (PB_description d) = map_option Class_description (read_description d)"
| "read_outcome (PB_value_record r) = map_option Value_record (read_record r)"
| "read_outcome (PB_values u rs nxt) =
     (case read_records 0 rs of
        None \<Rightarrow> None
      | Some (values, previous) \<Rightarrow>
        if nxt \<noteq> 0 \<and> (values = [] \<or> nxt \<noteq> previous) then None
        else Some (Values_page \<lparr>vp_values = values, vp_next = nxt\<rparr>))"
| "read_outcome (PB_object u i name state) =
     (if i \<noteq> 0 \<and> valid_name name False
      then map_option (\<lambda>state. Object_snapshot \<lparr>os_id = i, os_class_name = name, os_state = state\<rparr>) (read_named state)
      else None)"
| "read_outcome (PB_released u) = Some Released"
| "read_outcome (PB_value v) = map_option Value (read_value v)"
| "read_outcome (PB_error u c message) =
     (if 1 \<le> c \<and> c \<le> 10
      then Some (Remote_error \<lparr>re_code = Error_code (word_of_int c), re_message = message\<rparr>) else None)"
| "read_outcome PB_outcome_not_set = None"

fun write_outcome :: "outcome \<Rightarrow> pb_outcome" where
  "write_outcome (Classes_page page) = PB_classes [] (cp_names page) (cp_next page)"
| "write_outcome (Class_description d) = PB_description (write_description d)"
| "write_outcome (Value_record r) = PB_value_record (write_record r)"
| "write_outcome (Values_page page) = PB_values [] (map write_record (vp_values page)) (vp_next page)"
| "write_outcome (Object_snapshot snap) =
     PB_object [] (os_id snap) (os_class_name snap) (write_named (os_state snap))"
| "write_outcome Released = PB_released []"
| "write_outcome (Value v) = PB_value (write_value v)"
| "write_outcome (Remote_error e) = PB_error [] (error_int (re_code e)) (re_message e)"

subsection \<open>Envelopes\<close>

definition validate_envelope ::
  "(string \<Rightarrow> bool) \<Rightarrow> u64 \<Rightarrow> u32 option \<Rightarrow> reflected \<Rightarrow> failure option" where
  "validate_envelope utf8 i ver message =
     (if i = 0 then Some \<lparr>fl_code = FC_invalid_fields, fl_close_session = True, fl_request_id = None\<rparr>
      else case ver of
        None \<Rightarrow> Some \<lparr>fl_code = FC_invalid_fields, fl_close_session = False, fl_request_id = Some i\<rparr>
      | Some v \<Rightarrow>
        if v \<noteq> protocol_version
        then Some \<lparr>fl_code = FC_unsupported_version, fl_close_session = False, fl_request_id = Some i\<rparr>
        else case validate_message utf8 message max_message_nodes max_unknown_fields of
          (Some e, _) \<Rightarrow> Some \<lparr>fl_code = e, fl_close_session = False, fl_request_id = Some i\<rparr>
        | (None, _) \<Rightarrow> None)"

definition parse :: "'m protobuf \<Rightarrow> ('m \<Rightarrow> failure option) \<Rightarrow> bytes \<Rightarrow> 'm result" where
  "parse rt envelope payload =
     (if payload = [] \<or> length payload > max_payload_bytes
      then Inl \<lparr>fl_code = FC_limit_exceeded, fl_close_session = True, fl_request_id = None\<rparr>
      else case pb_parse rt payload of
        None \<Rightarrow> Inl \<lparr>fl_code = FC_malformed, fl_close_session = True, fl_request_id = None\<rparr>
      | Some message \<Rightarrow> (case envelope message of Some e \<Rightarrow> Inl e | None \<Rightarrow> Inr message))"

definition serialize :: "'m protobuf \<Rightarrow> ('m \<Rightarrow> u64) \<Rightarrow> 'm \<Rightarrow> bytes result" where
  "serialize rt request_id message =
     (if pb_byte_size rt message > max_payload_bytes
      then Inl \<lparr>fl_code = FC_limit_exceeded, fl_close_session = False, fl_request_id = Some (request_id message)\<rparr>
      else case pb_serialize rt message of
        None \<Rightarrow> Inl \<lparr>fl_code = FC_malformed, fl_close_session = True, fl_request_id = None\<rparr>
      | Some output \<Rightarrow> Inr output)"

definition request_envelope :: "(string \<Rightarrow> bool) \<Rightarrow> pb_request \<Rightarrow> failure option" where
  "request_envelope utf8 m = validate_envelope utf8 (pr_request_id m) (pr_version m) (reflect_request m)"

definition response_envelope :: "(string \<Rightarrow> bool) \<Rightarrow> pb_response \<Rightarrow> failure option" where
  "response_envelope utf8 m = validate_envelope utf8 (ps_request_id m) (ps_version m) (reflect_response m)"

definition supported_version :: u32 where
  "supported_version = protocol_version"

text \<open>
  A singular scalar reads as zero when the optional field is absent; \<open>validate_envelope\<close> has
  rejected that case before the version is copied.
\<close>

definition decode_request :: "(string \<Rightarrow> bool) \<Rightarrow> pb_request protobuf \<Rightarrow> bytes \<Rightarrow> request result" where
  "decode_request utf8 rt payload =
     (case parse rt (request_envelope utf8) payload of
        Inl e \<Rightarrow> Inl e
      | Inr message \<Rightarrow>
        (case read_operation (pr_operation message) of
           Some body \<Rightarrow> Inr \<lparr>rq_id = pr_request_id message, rq_body = body,
                            rq_version = (case pr_version message of None \<Rightarrow> 0 | Some v \<Rightarrow> v)\<rparr>
         | None \<Rightarrow> Inl \<lparr>fl_code = FC_invalid_fields, fl_close_session = False,
                        fl_request_id = Some (pr_request_id message)\<rparr>))"

definition decode_response :: "(string \<Rightarrow> bool) \<Rightarrow> pb_response protobuf \<Rightarrow> bytes \<Rightarrow> response result" where
  "decode_response utf8 rt payload =
     (case parse rt (response_envelope utf8) payload of
        Inl e \<Rightarrow> Inl e
      | Inr message \<Rightarrow>
        (case read_outcome (ps_outcome message) of
           Some body \<Rightarrow> Inr \<lparr>rs_id = ps_request_id message, rs_body = body,
                            rs_version = (case ps_version message of None \<Rightarrow> 0 | Some v \<Rightarrow> v)\<rparr>
         | None \<Rightarrow> Inl \<lparr>fl_code = FC_invalid_fields, fl_close_session = False,
                        fl_request_id = Some (ps_request_id message)\<rparr>))"

definition request_message :: "request \<Rightarrow> pb_request" where
  "request_message input =
     \<lparr>pr_unknown = [], pr_version = Some (rq_version input), pr_request_id = rq_id input,
      pr_operation = write_operation (rq_body input)\<rparr>"

definition response_message :: "response \<Rightarrow> pb_response" where
  "response_message input =
     \<lparr>ps_unknown = [], ps_version = Some (rs_version input), ps_request_id = rs_id input,
      ps_outcome = write_outcome (rs_body input)\<rparr>"

definition encode_request :: "(string \<Rightarrow> bool) \<Rightarrow> pb_request protobuf \<Rightarrow> request \<Rightarrow> bytes result" where
  "encode_request utf8 rt input =
     (let message = request_message input in
      case request_envelope utf8 message of
        Some e \<Rightarrow> Inl e
      | None \<Rightarrow>
        if read_operation (pr_operation message) = None
        then Inl \<lparr>fl_code = FC_invalid_fields, fl_close_session = False, fl_request_id = Some (rq_id input)\<rparr>
        else serialize rt pr_request_id message)"

definition encode_response :: "(string \<Rightarrow> bool) \<Rightarrow> pb_response protobuf \<Rightarrow> response \<Rightarrow> bytes result" where
  "encode_response utf8 rt input =
     (let message = response_message input in
      case response_envelope utf8 message of
        Some e \<Rightarrow> Inl e
      | None \<Rightarrow>
        if read_outcome (ps_outcome message) = None
        then Inl \<lparr>fl_code = FC_invalid_fields, fl_close_session = False, fl_request_id = Some (rs_id input)\<rparr>
        else serialize rt ps_request_id message)"

subsection \<open>Reading back what was written\<close>

lemma read_write_value: "read_value (write_value v) = Some w \<Longrightarrow> w = v"
  by (cases v) (auto simp: read_value_def split: if_splits)

lemma read_write_value_valid [simp]: "valid_value utf8 v \<Longrightarrow> read_value (write_value v) = Some v"
  by (cases v) (auto simp: read_value_def)

lemma read_value_again: "read_value m = Some v \<Longrightarrow> read_value (write_value v) = Some v"
  by (auto simp: read_value_def split: pb_data.splits if_splits)

lemma value_field_Some [simp]: "value_field (Some m) = m"
  by (simp add: value_field_def)

lemma read_entries_write:
  "read_entries (write_named vs) = (if \<forall>v \<in> set vs. read_value (write_value (nv_data v)) \<noteq> None then Some vs else None)"
  by (induction vs) (auto simp: write_named_def split: option.splits dest: read_write_value)

lemma read_write_named: "read_named (write_named vs) = Some ws \<Longrightarrow> ws = vs"
  by (auto simp: read_named_def read_entries_write split: if_splits)

lemma read_write_named_valid [simp]: "valid_named_values utf8 vs \<Longrightarrow> read_named (write_named vs) = Some vs"
  using valid_named_valuesD(3)[of utf8 vs]
  by (fastforce simp: read_named_def read_entries_write valid_named_values_def)

lemma read_entries_values:
  "read_entries ms = Some vs \<Longrightarrow> v \<in> set vs \<Longrightarrow> read_value (write_value (nv_data v)) = Some (nv_data v)"
proof (induction ms arbitrary: vs)
  case (Cons m ms)
  then show ?case
    using read_value_again by (fastforce split: option.splits)
qed simp

lemma read_named_again: "read_named ms = Some vs \<Longrightarrow> read_named (write_named vs) = Some vs"
  using read_entries_values by (fastforce simp: read_named_def read_entries_write split: option.splits if_splits)

lemma read_write_operation: "read_operation (write_operation oper) = Some b \<Longrightarrow> b = oper"
  by (cases oper) (auto split: if_splits dest: read_write_value read_write_named)

lemma read_operation_again: "read_operation m = Some oper \<Longrightarrow> read_operation (write_operation oper) = Some oper"
  by (cases m) (auto split: if_splits simp: read_value_again read_named_again)

lemma kind_cast [simp]: "cast_kind (kind_int k) = k"
  by (cases k) (simp add: cast_kind_def)

lemma read_kind_int: "read_kind (kind_int k) = (if valid_kind k then Some k else None)"
  by (cases k) (auto simp: read_kind_def cast_kind_def)

lemma read_parameter_list_write:
  "read_parameter_list (write_parameters ps) = (if \<forall>p \<in> set ps. valid_kind (pm_kind p) then Some ps else None)"
  by (induction ps) (auto simp: write_parameters_def read_kind_int)

lemma read_write_parameters:
  "read_parameters (write_parameters ps) = Some qs \<Longrightarrow> qs = ps"
  by (auto simp: read_parameters_def read_parameter_list_write split: if_splits)

lemma read_write_parameters_valid [simp]: "valid_parameters ps \<Longrightarrow> read_parameters (write_parameters ps) = Some ps"
  using valid_parametersD(3)[of ps]
  by (auto simp: read_parameters_def read_parameter_list_write valid_parameters_def)

abbreviation write_attribute :: "attribute \<Rightarrow> pb_attribute" where
  "write_attribute field \<equiv> \<lparr>pa_unknown = [], pa_name = at_name field,
     pa_kind = kind_int (at_kind field), pa_read_only = at_read_only field\<rparr>"

abbreviation write_method :: "method_t \<Rightarrow> pb_method" where
  "write_method function \<equiv> \<lparr>pmt_unknown = [], pmt_name = mt_name function,
     pmt_parameters = write_parameters (mt_parameters function),
     pmt_result_kind = kind_int (mt_result_kind function)\<rparr>"

lemma read_attributes_write:
  "read_attributes (map write_attribute as) = (if \<forall>a \<in> set as. valid_kind (at_kind a) then Some as else None)"
  by (induction as) (auto simp: read_kind_int)

lemma read_methods_write: "read_methods (map write_method ms) = Some ns \<Longrightarrow> ns = ms"
  by (induction ms arbitrary: ns)
    (auto simp: read_kind_int split: option.splits if_splits dest: read_write_parameters)

lemma read_methods_write_valid:
  "\<forall>m \<in> set ms. valid_kind (mt_result_kind m) \<and> valid_parameters (mt_parameters m) \<Longrightarrow>
     read_methods (map write_method ms) = Some ms"
  by (induction ms) (auto simp: read_kind_int)

lemma read_write_description: "read_description (write_description d) = Some e \<Longrightarrow> e = d"
  by (auto simp: read_description_def write_description_def read_attributes_write
      split: if_splits option.splits dest!: read_methods_write read_write_parameters)

lemma read_records_write: "read_records p (map write_record rs) = Some (qs, q) \<Longrightarrow> qs = rs"
  by (induction rs arbitrary: p qs)
    (auto simp: read_record_def write_record_def split: option.splits if_splits dest: read_write_value)

lemma error_cast [simp]: "Error_code (word_of_int (error_int c)) = c"
  by (cases c) simp

lemma read_write_record: "read_record (write_record r) = Some q \<Longrightarrow> q = r"
  by (auto simp: read_record_def write_record_def split: option.splits if_splits dest: read_write_value)

lemma read_write_outcome: "read_outcome (write_outcome r) = Some b \<Longrightarrow> b = r"
  by (cases r) (auto split: if_splits option.splits
      dest!: read_write_value read_write_named read_write_description read_write_record read_records_write)

end
