(* ===== verification/Utf8.thy ===== *)
theory Utf8
  imports Validation
begin

section \<open>A UTF-8 validator for the library's contract\<close>

text \<open>
  \<open>utf8_range::IsStructurallyValid\<close> belongs to a third-party library. Its documented behaviour is
  to accept exactly the well-formed UTF-8 byte sequences of the Unicode standard (table 3-7: no
  overlong forms, no surrogates, nothing above U+10FFFF). \<open>structurally_valid\<close> is that table. It shows
  that the contract \<open>utf8_validator\<close> can be met, and concrete examples are evaluated with it.
\<close>

definition continuation :: "nat \<Rightarrow> bool" where
  "continuation b \<longleftrightarrow> 0x80 \<le> b \<and> b \<le> 0xbf"

definition sequence_length :: "nat \<Rightarrow> nat" where
  "sequence_length a =
     (if a < 0x80 then 1 else if 0xc2 \<le> a \<and> a \<le> 0xdf then 2
      else if 0xe0 \<le> a \<and> a \<le> 0xef then 3 else if 0xf0 \<le> a \<and> a \<le> 0xf4 then 4 else 0)"

definition second_ok :: "nat \<Rightarrow> nat \<Rightarrow> bool" where
  "second_ok a b \<longleftrightarrow>
     (if a = 0xe0 then 0xa0 \<le> b \<and> b \<le> 0xbf
      else if a = 0xed then 0x80 \<le> b \<and> b \<le> 0x9f
      else if a = 0xf0 then 0x90 \<le> b \<and> b \<le> 0xbf
      else if a = 0xf4 then 0x80 \<le> b \<and> b \<le> 0x8f else continuation b)"

fun tail_ok :: "nat \<Rightarrow> nat list \<Rightarrow> bool" where
  "tail_ok a [] = True"
| "tail_ok a (b # bs) = (second_ok a b \<and> list_all continuation bs)"

fun next_char :: "nat list \<Rightarrow> nat list option" where
  "next_char [] = None"
| "next_char (a # xs) =
     (let n = sequence_length a
      in if n = 0 \<or> length xs < n - 1 \<or> \<not> tail_ok a (take (n - 1) xs) then None
         else Some (drop (n - 1) xs))"

lemma next_char_length: "next_char xs = Some r \<Longrightarrow> length r < length xs"
  by (cases xs) (auto simp: Let_def split: if_splits)

function well_formed :: "nat list \<Rightarrow> bool" where
  "well_formed xs =
     (xs = [] \<or> (case next_char xs of None \<Rightarrow> False | Some r \<Rightarrow> well_formed r))"
  by pat_completeness auto
termination
  by (relation "measure length") (auto dest: next_char_length)

declare well_formed.simps [simp del]

definition structurally_valid :: "string \<Rightarrow> bool" where
  "structurally_valid s = well_formed (map of_char s)"

lemma next_char_append: "next_char xs = Some r \<Longrightarrow> next_char (xs @ ys) = Some (r @ ys)"
  by (cases xs) (auto simp: Let_def split: if_splits)

lemma well_formed_append: "well_formed xs \<Longrightarrow> well_formed (xs @ ys) = well_formed ys"
proof (induction xs rule: well_formed.induct)
  case (1 xs)
  show ?case
  proof (cases "next_char xs")
    case None
    with "1.prems" show ?thesis by (simp add: well_formed.simps[of xs])
  next
    case (Some r)
    then have "xs \<noteq> []" by auto
    with "1.prems" Some have "well_formed r" by (simp add: well_formed.simps[of xs])
    with "1.IH"[OF Some] show ?thesis
      using \<open>xs \<noteq> []\<close> next_char_append[OF Some, of ys] by (simp add: well_formed.simps[of "xs @ ys"])
  qed
qed

lemma well_formed_ascii: "list_all (\<lambda>b. b < 0x80) xs \<Longrightarrow> well_formed xs"
proof (induction xs)
  case Nil
  then show ?case by (simp add: well_formed.simps)
next
  case (Cons b xs)
  then have "next_char (b # xs) = Some xs" by (simp add: sequence_length_def)
  with Cons show ?case by (simp add: well_formed.simps[of "b # xs"])
qed

interpretation utf8_table: utf8_validator structurally_valid
  by unfold_locales
    (auto simp: structurally_valid_def well_formed_append list.pred_map comp_def intro: well_formed_ascii)

end
