(* ===== verification/Codec_Limits.thy ===== *)
theory Codec_Limits
  imports Codec Utf8
begin

section \<open>What the codec accepts and rejects\<close>

text \<open>
  The reference reading of the codec: \<open>operation_ok\<close> and \<open>outcome_ok\<close> say which operations and
  outcomes are well formed, in terms of the predicates the session store uses. The lemmas show
  that a message the writers build passes \<open>validate_envelope\<close> and reads back exactly when its
  content is well formed, and which failures the entry points can report.
\<close>

subsection \<open>Resource totals of written messages\<close>

declare ball_Un [simp]

lemma present_string_ok [simp]:
  "(\<forall>f \<in> set (present_string s). field_ok f utf8) \<longleftrightarrow> s = [] \<or> length s \<le> max_string_bytes \<and> utf8 s"
  "sum_list (map field_nodes (present_string s)) = 0" "sum_list (map field_unknowns (present_string s)) = 0"
  by (auto simp: present_string_def max_entries_def)

lemma present_scalar_ok [simp]:
  "\<forall>f \<in> set (present_scalar b). field_ok f utf8"
  "sum_list (map field_nodes (present_scalar b)) = 0" "sum_list (map field_unknowns (present_scalar b)) = 0"
  by (auto simp: present_scalar_def max_entries_def)

lemma present_messages_ok [simp]:
  "(\<forall>f \<in> set (present_messages ms). field_ok f utf8) \<longleftrightarrow>
     length ms \<le> max_entries \<and> (\<forall>m \<in> set ms. message_ok m utf8)"
  "sum_list (map field_nodes (present_messages ms)) = sum_list (map message_nodes ms)"
  "sum_list (map field_unknowns (present_messages ms)) = sum_list (map message_unknowns ms)"
  by (auto simp: present_messages_def)

lemma reflect_written_value:
  "message_ok (reflect_value (write_value v)) utf8 \<longleftrightarrow>
     (case v of Text s \<Rightarrow> length s \<le> max_string_bytes \<and> utf8 s | _ \<Rightarrow> True)"
  "message_nodes (reflect_value (write_value v)) = 1" "message_unknowns (reflect_value (write_value v)) = 0"
  by (cases v; simp add: reflect_value_def max_entries_def)+

lemma valid_value_iff:
  "valid_value utf8 v \<longleftrightarrow> message_ok (reflect_value (write_value v)) utf8 \<and> read_value (write_value v) = Some v"
  unfolding reflect_written_value by (cases v) (auto simp: read_value_def)

lemma valid_value_iff_read:
  "message_ok (reflect_value (write_value v)) utf8 \<and> read_value (write_value v) \<noteq> None \<longleftrightarrow> valid_value utf8 v"
  using read_write_value[of v] by (auto simp: valid_value_iff)

lemma reflect_optional_Some [simp]:
  "(\<forall>f \<in> set (reflect_optional (Some m)). field_ok f utf8) \<longleftrightarrow> message_ok (reflect_value m) utf8"
  "sum_list (map field_nodes (reflect_optional (Some m))) = message_nodes (reflect_value m)"
  "sum_list (map field_unknowns (reflect_optional (Some m))) = message_unknowns (reflect_value m)"
  by (simp_all add: reflect_optional_def max_entries_def)

lemma reflect_written_named:
  "message_ok (reflect_named \<lparr>pn_unknown = [], pn_name = n, pn_value = Some (write_value v)\<rparr>) utf8 \<longleftrightarrow>
     (n = [] \<or> length n \<le> max_string_bytes \<and> utf8 n) \<and> message_ok (reflect_value (write_value v)) utf8"
  "message_nodes (reflect_named \<lparr>pn_unknown = [], pn_name = n, pn_value = Some (write_value v)\<rparr>) = 2"
  "message_unknowns (reflect_named \<lparr>pn_unknown = [], pn_name = n, pn_value = Some (write_value v)\<rparr>) = 0"
  by (simp_all add: reflect_named_def reflect_written_value)

lemma written_named_totals [simp]:
  "length (write_named vs) = length vs"
  "(\<Sum>m \<leftarrow> write_named vs. message_nodes (reflect_named m)) = 2 * length vs"
  "(\<Sum>m \<leftarrow> write_named vs. message_unknowns (reflect_named m)) = 0"
  by (induction vs) (simp_all add: write_named_def reflect_written_named)

lemma reflect_written_record:
  "message_ok (reflect_record (write_record r)) utf8 \<longleftrightarrow> message_ok (reflect_value (write_value (vr_data r))) utf8"
  "message_nodes (reflect_record (write_record r)) = 2" "message_unknowns (reflect_record (write_record r)) = 0"
  by (simp_all add: reflect_record_def write_record_def reflect_written_value)

lemma written_records_totals [simp]:
  "(\<Sum>r \<leftarrow> rs. message_nodes (reflect_record (write_record r))) = 2 * length rs"
  "(\<Sum>r \<leftarrow> rs. message_unknowns (reflect_record (write_record r))) = 0"
  by (induction rs) (simp_all add: reflect_written_record)

lemma reflect_written_parameter:
  "message_ok (reflect_parameter \<lparr>pp_unknown = [], pp_name = n, pp_kind = k\<rparr>) utf8 \<longleftrightarrow>
     n = [] \<or> length n \<le> max_string_bytes \<and> utf8 n"
  "message_nodes (reflect_parameter \<lparr>pp_unknown = [], pp_name = n, pp_kind = k\<rparr>) = 1"
  "message_unknowns (reflect_parameter \<lparr>pp_unknown = [], pp_name = n, pp_kind = k\<rparr>) = 0"
  by (simp_all add: reflect_parameter_def)

lemma written_parameters_totals [simp]:
  "length (write_parameters ps) = length ps"
  "(\<Sum>p \<leftarrow> write_parameters ps. message_nodes (reflect_parameter p)) = length ps"
  "(\<Sum>p \<leftarrow> write_parameters ps. message_unknowns (reflect_parameter p)) = 0"
  by (induction ps) (simp_all add: write_parameters_def reflect_written_parameter)

lemma reflect_written_attribute:
  "message_ok (reflect_attribute (write_attribute a)) utf8 \<longleftrightarrow>
     at_name a = [] \<or> length (at_name a) \<le> max_string_bytes \<and> utf8 (at_name a)"
  "message_nodes (reflect_attribute (write_attribute a)) = 1"
  "message_unknowns (reflect_attribute (write_attribute a)) = 0"
  by (simp_all add: reflect_attribute_def)

lemma written_attributes_totals [simp]:
  "(\<Sum>a \<leftarrow> as. message_nodes (reflect_attribute (write_attribute a))) = length as"
  "(\<Sum>a \<leftarrow> as. message_unknowns (reflect_attribute (write_attribute a))) = 0"
  by (induction as) (simp_all add: reflect_written_attribute)

lemma reflect_written_method:
  "message_nodes (reflect_method (write_method m)) = Suc (length (mt_parameters m))"
  "message_unknowns (reflect_method (write_method m)) = 0"
  by (simp_all add: reflect_method_def comp_def)

lemma written_methods_totals [simp]:
  "(\<Sum>m \<leftarrow> ms. message_nodes (reflect_method (write_method m))) =
     length ms + (\<Sum>m \<leftarrow> ms. length (mt_parameters m))"
  "(\<Sum>m \<leftarrow> ms. message_unknowns (reflect_method (write_method m))) = 0"
  by (induction ms) (simp_all add: reflect_written_method)

lemma method_nodes_Some:
  "method_nodes n ms = Some k \<longleftrightarrow>
     (\<forall>m \<in> set ms. valid_kind (mt_result_kind m) \<and> valid_parameters (mt_parameters m)) \<and>
     k = n + (\<Sum>m \<leftarrow> ms. length (mt_parameters m))"
  by (induction n ms rule: method_nodes.induct) auto

lemma valid_descriptionD:
  assumes "valid_description d"
  shows "valid_name (cd_name d) False" "length (cd_attributes d) \<le> max_entries" "length (cd_methods d) \<le> max_entries"
    "valid_names (map at_name (cd_attributes d))" "valid_names (map mt_name (cd_methods d))"
    "valid_parameters (cd_constructor_parameters d)" "\<forall>a \<in> set (cd_attributes d). valid_kind (at_kind a)"
    "\<forall>m \<in> set (cd_methods d). valid_kind (mt_result_kind m) \<and> valid_parameters (mt_parameters m)"
    "1 + length (cd_attributes d) + length (cd_methods d) + length (cd_constructor_parameters d) +
       (\<Sum>m \<leftarrow> cd_methods d. length (mt_parameters m)) < max_message_nodes"
  using assms by (auto simp: valid_description_def list_all_iff method_nodes_Some split: if_splits option.splits)

lemma read_write_description_valid: "valid_description d \<Longrightarrow> read_description (write_description d) = Some d"
  using valid_descriptionD[of d]
  by (auto simp: read_description_def write_description_def read_attributes_write read_methods_write_valid)

subsection \<open>Well-formed operations\<close>

fun operation_ok :: "(string \<Rightarrow> bool) \<Rightarrow> operation \<Rightarrow> bool" where
  "operation_ok utf8 (List_classes after limit) = (valid_name after True \<and> valid_page_size limit)"
| "operation_ok utf8 (Describe_class name) = valid_name name False"
| "operation_ok utf8 (Put_value v) = valid_value utf8 v"
| "operation_ok utf8 (Get_value i) = (i \<noteq> 0)"
| "operation_ok utf8 (List_values after limit) = valid_page_size limit"
| "operation_ok utf8 (Create_object name args) = (valid_name name False \<and> valid_named_values utf8 args)"
| "operation_ok utf8 (Get_object i) = (i \<noteq> 0)"
| "operation_ok utf8 (Release_object i) = (i \<noteq> 0)"
| "operation_ok utf8 (Get_attribute i name) = (i \<noteq> 0 \<and> valid_name name False)"
| "operation_ok utf8 (Invoke_method i name args) =
     (i \<noteq> 0 \<and> valid_name name False \<and> valid_named_values utf8 args)"

fun outcome_ok :: "(string \<Rightarrow> bool) \<Rightarrow> outcome \<Rightarrow> bool" where
  "outcome_ok utf8 (Classes_page page) =
     (length (cp_names page) \<le> max_entries \<and> (\<forall>n \<in> set (cp_names page). valid_name n False) \<and>
      sorted_wrt (<) (cp_names page) \<and>
      (cp_next page = [] \<or> cp_names page \<noteq> [] \<and> cp_next page = last (cp_names page)))"
| "outcome_ok utf8 (Class_description d) = valid_description d"
| "outcome_ok utf8 (Value_record r) = (vr_id r \<noteq> 0 \<and> valid_value utf8 (vr_data r))"
| "outcome_ok utf8 (Values_page page) =
     (length (vp_values page) \<le> max_entries \<and>
      (\<forall>r \<in> set (vp_values page). vr_id r \<noteq> 0 \<and> valid_value utf8 (vr_data r)) \<and>
      sorted_wrt (<) (map vr_id (vp_values page)) \<and>
      (vp_next page = 0 \<or> vp_values page \<noteq> [] \<and> vp_next page = vr_id (last (vp_values page))))"
| "outcome_ok utf8 (Object_snapshot snap) =
     (os_id snap \<noteq> 0 \<and> valid_name (os_class_name snap) False \<and> valid_named_values utf8 (os_state snap))"
| "outcome_ok utf8 Released = True"
| "outcome_ok utf8 (Value v) = valid_value utf8 v"
| "outcome_ok utf8 (Remote_error e) =
     (1 \<le> error_int (re_code e) \<and> error_int (re_code e) \<le> 10 \<and>
      (re_message e = [] \<or> length (re_message e) \<le> max_string_bytes \<and> utf8 (re_message e)))"

context utf8_validator
begin

lemma name_field_ok: "valid_name n b \<Longrightarrow> n = [] \<or> length n \<le> max_string_bytes \<and> utf8 n"
  using valid_name_length[of n b] utf8_name[of n b] by (simp add: max_name_bytes_def max_string_bytes_def)

lemma written_named_exact:
  "length vs \<le> max_entries \<and> (\<forall>m \<in> set (write_named vs). message_ok (reflect_named m) utf8) \<and>
     read_named (write_named vs) \<noteq> None \<longleftrightarrow> valid_named_values utf8 vs"
proof -
  have names: "n = [] \<or> length n \<le> max_string_bytes \<and> utf8 n" if "valid_names (map nv_name vs)" "n \<in> nv_name ` set vs" for n
    using that name_field_ok[of n False] by (auto simp: valid_names_iff)
  have "(\<forall>m \<in> set (write_named vs). message_ok (reflect_named m) utf8) \<and> read_named (write_named vs) \<noteq> None \<longleftrightarrow>
    valid_names (map nv_name vs) \<and> (\<forall>v \<in> set vs. message_ok (reflect_value (write_value (nv_data v))) utf8 \<and>
      read_value (write_value (nv_data v)) \<noteq> None)"
    using names
    by (auto simp: write_named_def reflect_written_named read_named_def read_entries_write[unfolded write_named_def]
        split: if_splits simp del: not_None_eq)
  also have "\<dots> \<longleftrightarrow> valid_names (map nv_name vs) \<and> (\<forall>v \<in> set vs. valid_value utf8 (nv_data v))"
    by (simp only: valid_value_iff_read)
  finally show ?thesis by (auto simp: valid_named_values_def list_all_iff)
qed

lemma written_operation_exact:
  "(\<forall>m \<in> set (reflect_operation (write_operation oper)). message_ok m utf8) \<and>
     read_operation (write_operation oper) \<noteq> None \<longleftrightarrow> operation_ok utf8 oper"
proof (cases oper)
  case (Create_object name args)
  then show ?thesis using written_named_exact[of args] name_field_ok[of name False] by (auto simp: comp_def)
next
  case (Invoke_method i name args)
  then show ?thesis using written_named_exact[of args] name_field_ok[of name False] by (auto simp: comp_def)
next
  case (Put_value v)
  then show ?thesis using valid_value_iff[of utf8 v] read_write_value[of v] by (auto simp del: write_value.simps)
next
  case (Describe_class name)
  then show ?thesis using name_field_ok[of name False] by auto
next
  case (Get_attribute i name)
  then show ?thesis using name_field_ok[of name False] by auto
next
  case (List_classes after limit)
  then show ?thesis using name_field_ok[of after True] by auto
qed auto

lemma written_outcome_ok:
  assumes "outcome_ok utf8 r"
  shows "\<forall>m \<in> set (reflect_outcome (write_outcome r)). message_ok m utf8"
proof (cases r)
  case (Classes_page page)
  have "n = [] \<or> length n \<le> max_string_bytes \<and> utf8 n" if "n \<in> set (cp_names page)" for n
    using assms Classes_page that name_field_ok[of n False] by auto
  moreover have "cp_next page = [] \<or> cp_next page \<in> set (cp_names page)"
    using assms Classes_page by auto
  moreover have "[] \<notin> set (cp_names page)"
    using assms Classes_page by auto
  ultimately show ?thesis using assms Classes_page by (auto simp: max_entries_def)
next
  case (Class_description d)
  note v = valid_descriptionD[of d]
  have names: "n = [] \<or> length n \<le> max_string_bytes \<and> utf8 n" if "valid_names ns" "n \<in> set ns" for n ns
    using that name_field_ok[of n False] by (auto simp: valid_names_iff)
  have params: "\<forall>p \<in> set (write_parameters ps). message_ok (reflect_parameter p) utf8" if "valid_parameters ps" for ps
    using that names[of "map pm_name ps"] by (auto simp: write_parameters_def reflect_written_parameter valid_parameters_def)
  have attrs: "\<forall>a \<in> set (cd_attributes d). message_ok (reflect_attribute (write_attribute a)) utf8"
    using assms Class_description v(4) names[of "map at_name (cd_attributes d)"]
    by (auto simp: reflect_written_attribute)
  have "message_ok (reflect_method (write_method m)) utf8" if "m \<in> set (cd_methods d)" for m
    using assms Class_description v(5,8) names[of "map mt_name (cd_methods d)" "mt_name m"] that
      params[of "mt_parameters m"] valid_parametersD(2)[of "mt_parameters m"]
    by (auto simp: reflect_method_def)
  then show ?thesis
    using assms Class_description v(1,2,3) v(6) params[of "cd_constructor_parameters d"] attrs
      valid_parametersD(2)[of "cd_constructor_parameters d"] name_field_ok[of "cd_name d" False]
    by (auto simp: reflect_description_def write_description_def)
next
  case (Object_snapshot snap)
  then show ?thesis
    using assms written_named_exact[of "os_state snap"] name_field_ok[of "os_class_name snap" False] by auto
next
  case (Values_page page)
  then show ?thesis using assms by (auto simp: reflect_written_record valid_value_iff)
next
  case (Value_record r)
  then show ?thesis using assms by (auto simp: reflect_written_record valid_value_iff)
next
  case (Value v)
  then show ?thesis using assms valid_value_iff[of utf8 v] by (auto simp del: write_value.simps)
qed (use assms in auto)

end

lemma strictly_sorted_adjacent: "sorted_wrt (<) (xs :: 'a :: linorder list) \<longleftrightarrow> sorted xs \<and> \<not> has_adjacent_equal xs"
proof (induction xs rule: has_adjacent_equal.induct)
  case (1 x y zs)
  then show ?case by (auto simp: less_le intro: order.trans)
qed auto

lemma read_records_written:
  "\<forall>r \<in> set rs. p < vr_id r \<and> valid_value utf8 (vr_data r) \<Longrightarrow> sorted_wrt (<) (map vr_id rs) \<Longrightarrow>
     read_records p (map write_record rs) = Some (rs, if rs = [] then p else vr_id (last rs))"
proof (induction rs arbitrary: p)
  case (Cons r rs)
  then have "read_record (write_record r) = Some r"
    by (auto simp: read_record_def write_record_def)
  with Cons show ?case by auto
qed simp

lemma read_written_outcome:
  assumes "outcome_ok utf8 r"
  shows "read_outcome (write_outcome r) = Some r"
proof (cases r)
  case (Values_page page)
  then have "read_records 0 (map write_record (vp_values page)) =
      Some (vp_values page, if vp_values page = [] then 0 else vr_id (last (vp_values page)))"
    using assms by (intro read_records_written[of _ _ utf8]) (auto simp: word_neq_0_conv)
  then show ?thesis using assms Values_page by auto
next
  case (Value_record r)
  then show ?thesis using assms by (auto simp: read_record_def write_record_def)
qed (use assms strictly_sorted_adjacent read_write_description_valid in
    \<open>auto simp: list_all_iff\<close>)

lemma outcome_nodes:
  assumes "outcome_ok utf8 r"
  shows "Suc (sum_list (map message_nodes (reflect_outcome (write_outcome r)))) \<le> max_message_nodes"
    and "sum_list (map message_unknowns (reflect_outcome (write_outcome r))) = 0"
proof -
  have "Suc (sum_list (map message_nodes (reflect_outcome (write_outcome r)))) \<le> max_message_nodes \<and>
     sum_list (map message_unknowns (reflect_outcome (write_outcome r))) = 0"
  proof (cases r)
    case (Class_description d)
    then show ?thesis
      using assms valid_descriptionD(9)[of d] by (simp add: reflect_description_def write_description_def comp_def)
  next
    case (Object_snapshot snap)
    then show ?thesis
      using assms valid_named_valuesD(2)[of utf8 "os_state snap"]
      by (simp add: max_message_nodes_def max_entries_def comp_def)
  next
    case (Value v)
    then show ?thesis by (simp add: reflect_written_value max_message_nodes_def del: write_value.simps)
  next
    case (Value_record r)
    then show ?thesis by (simp add: reflect_written_record max_message_nodes_def)
  qed (use assms in \<open>simp_all add: max_message_nodes_def max_entries_def comp_def\<close>)
  then show "Suc (sum_list (map message_nodes (reflect_outcome (write_outcome r)))) \<le> max_message_nodes"
    "sum_list (map message_unknowns (reflect_outcome (write_outcome r))) = 0" by blast+
qed

lemma operation_nodes:
  assumes "\<forall>m \<in> set (reflect_operation (write_operation oper)). message_ok m utf8"
  shows "Suc (sum_list (map message_nodes (reflect_operation (write_operation oper)))) \<le> max_message_nodes"
    and "sum_list (map message_unknowns (reflect_operation (write_operation oper))) = 0"
  using assms by (cases oper; simp add: max_message_nodes_def max_entries_def comp_def reflect_written_value
      del: write_value.simps)+

subsection \<open>Envelopes\<close>

lemma validate_envelope_None:
  "validate_envelope utf8 i ver message = None \<longleftrightarrow>
     i \<noteq> 0 \<and> ver = Some protocol_version \<and> message_ok message utf8 \<and>
     message_nodes message \<le> max_message_nodes \<and> message_unknowns message \<le> max_unknown_fields"
proof -
  have "fst (validate_message utf8 message max_message_nodes max_unknown_fields) = None \<longleftrightarrow>
      message_ok message utf8 \<and> message_nodes message \<le> max_message_nodes \<and> message_unknowns message \<le> max_unknown_fields"
    using validate_message_exact(1)[of max_unknown_fields utf8 message max_message_nodes]
    by (cases "validate_message utf8 message max_message_nodes max_unknown_fields") (auto simp: max_unknown_fields_def)
  then show ?thesis
    by (auto simp: validate_envelope_def split: option.splits prod.splits)
qed

end
