(* ===== verification/Ordered_Map.thy ===== *)
theory Ordered_Map
  imports Prelude
begin

section \<open>Ordered maps\<close>

text \<open>
  \<open>std::map\<close> as the session store and the client use it: a sorted association list with
  \<open>emplace\<close> (which keeps an existing entry), \<open>find\<close>, assignment through a found iterator,
  \<open>erase\<close>, \<open>size\<close>, iteration in key order and \<open>upper_bound\<close>. The locale \<open>ordered_map\<close> is the
  interface its clients prove against; it is interpreted on the association lists below.
\<close>

type_synonym ('k, 'v) omap = "('k \<times> 'v) list"

definition om_find :: "('k, 'v) omap \<Rightarrow> 'k \<Rightarrow> 'v option" where
  "om_find m k = map_of m k"

fun om_emplace :: "'k :: linorder \<Rightarrow> 'v \<Rightarrow> ('k, 'v) omap \<Rightarrow> ('k, 'v) omap" where
  "om_emplace k v [] = [(k, v)]"
| "om_emplace k v ((k', v') # m) =
     (if k < k' then (k, v) # (k', v') # m
      else if k = k' then (k', v') # m
      else (k', v') # om_emplace k v m)"

definition om_assign :: "'k \<Rightarrow> 'v \<Rightarrow> ('k, 'v) omap \<Rightarrow> ('k, 'v) omap" where
  "om_assign k v m = map (\<lambda>(k', v'). (k', if k' = k then v else v')) m"

definition om_erase :: "'k \<Rightarrow> ('k, 'v) omap \<Rightarrow> ('k, 'v) omap" where
  "om_erase k m = filter (\<lambda>(k', v'). k' \<noteq> k) m"

definition om_upper_bound :: "'k :: linorder \<Rightarrow> ('k, 'v) omap \<Rightarrow> ('k \<times> 'v) list" where
  "om_upper_bound k m = dropWhile (\<lambda>(k', v'). k' \<le> k) m"

definition om_ok :: "('k :: linorder, 'v) omap \<Rightarrow> bool" where
  "om_ok m \<longleftrightarrow> sorted_wrt (<) (map fst m)"

subsection \<open>The interface\<close>

locale ordered_map =
  fixes entries :: "'m \<Rightarrow> ('k :: linorder \<times> 'v) list"
    and find :: "'m \<Rightarrow> 'k \<Rightarrow> 'v option"
    and emplace :: "'k \<Rightarrow> 'v \<Rightarrow> 'm \<Rightarrow> 'm"
    and assign :: "'k \<Rightarrow> 'v \<Rightarrow> 'm \<Rightarrow> 'm"
    and erase :: "'k \<Rightarrow> 'm \<Rightarrow> 'm"
    and upper_bound :: "'k \<Rightarrow> 'm \<Rightarrow> ('k \<times> 'v) list"
    and invar :: "'m \<Rightarrow> bool"
  assumes sorted_entries: "invar m \<Longrightarrow> sorted_wrt (<) (map fst (entries m))"
    and find_entries: "invar m \<Longrightarrow> find m k = map_of (entries m) k"
    and find_emplace: "invar m \<Longrightarrow>
      find (emplace k v m) k' = (if k' = k \<and> find m k = None then Some v else find m k')"
    and find_assign: "invar m \<Longrightarrow>
      find (assign k v m) k' = (if k' = k \<and> find m k \<noteq> None then Some v else find m k')"
    and find_erase: "invar m \<Longrightarrow> find (erase k m) k' = (if k' = k then None else find m k')"
    and upper_bound_entries: "invar m \<Longrightarrow> upper_bound k m = filter (\<lambda>e. k < fst e) (entries m)"
    and invar_emplace: "invar m \<Longrightarrow> invar (emplace k v m)"
    and invar_assign: "invar m \<Longrightarrow> invar (assign k v m)"
    and invar_erase: "invar m \<Longrightarrow> invar (erase k m)"
begin

lemma distinct_keys: "invar m \<Longrightarrow> distinct (map fst (entries m))"
  using sorted_entries strict_sorted_iff by blast

lemma distinct_entries: "invar m \<Longrightarrow> distinct (entries m)"
  by (meson distinct_keys distinct_map)

lemma find_Some_iff: "invar m \<Longrightarrow> find m k = Some v \<longleftrightarrow> (k, v) \<in> set (entries m)"
  by (simp add: find_entries distinct_keys)

lemma find_None_iff: "invar m \<Longrightarrow> find m k = None \<longleftrightarrow> k \<notin> fst ` set (entries m)"
  by (simp add: find_entries map_of_eq_None_iff)

lemma set_entries_emplace:
  "invar m \<Longrightarrow> find m k = None \<Longrightarrow> set (entries (emplace k v m)) = insert (k, v) (set (entries m))"
  by (auto simp: set_eq_iff find_Some_iff[symmetric] invar_emplace find_emplace split: if_splits)

lemma set_entries_assign:
  "invar m \<Longrightarrow> find m k = Some v' \<Longrightarrow>
     set (entries (assign k v m)) = insert (k, v) (set (entries m) - {(k, v')})"
  by (auto simp: set_eq_iff find_Some_iff[symmetric] invar_assign find_assign split: if_splits)

lemma set_entries_erase:
  "invar m \<Longrightarrow> find m k = Some v \<Longrightarrow> set (entries (erase k m)) = set (entries m) - {(k, v)}"
  by (auto simp: set_eq_iff find_Some_iff[symmetric] invar_erase find_erase split: if_splits)

lemma sum_entries: "invar m \<Longrightarrow> sum_list (map f (entries m)) = sum f (set (entries m))"
  by (simp add: distinct_entries sum_list_distinct_conv_sum_set)

lemma sum_emplace:
  fixes f :: "'k \<times> 'v \<Rightarrow> nat"
  assumes "invar m" and "find m k = None"
  shows "sum_list (map f (entries (emplace k v m))) = f (k, v) + sum_list (map f (entries m))"
proof -
  have "(k, v) \<notin> set (entries m)"
    using assms by (metis find_Some_iff option.distinct(1))
  then show ?thesis
    using assms by (simp add: sum_entries invar_emplace set_entries_emplace)
qed

lemma sum_erase:
  fixes f :: "'k \<times> 'v \<Rightarrow> nat"
  assumes "invar m" and "find m k = Some v"
  shows "sum_list (map f (entries m)) = f (k, v) + sum_list (map f (entries (erase k m)))"
proof -
  have "(k, v) \<in> set (entries m)"
    using assms by (simp add: find_Some_iff)
  then show ?thesis
    using assms by (simp add: sum_entries invar_erase set_entries_erase sum.remove)
qed

lemma sum_assign:
  fixes f :: "'k \<times> 'v \<Rightarrow> nat"
  assumes "invar m" and "find m k = Some v'"
  shows "f (k, v') + sum_list (map f (entries (assign k v m))) = f (k, v) + sum_list (map f (entries m))"
proof -
  have in': "(k, v') \<in> set (entries m)" and out: "(k, v) \<notin> set (entries m) - {(k, v')}"
    using assms by (auto simp: find_Some_iff) (metis assms find_Some_iff option.inject)
  then show ?thesis
    using assms by (simp add: sum_entries invar_assign set_entries_assign sum.remove)
qed

lemma length_emplace:
  "invar m \<Longrightarrow> find m k = None \<Longrightarrow> length (entries (emplace k v m)) = Suc (length (entries m))"
  using sum_emplace[of m k "\<lambda>_. 1" v] by (simp add: sum_list_triv)

lemma length_erase:
  "invar m \<Longrightarrow> find m k = Some v \<Longrightarrow> length (entries m) = Suc (length (entries (erase k m)))"
  using sum_erase[of m k v "\<lambda>_. 1"] by (simp add: sum_list_triv)

lemma length_assign:
  "invar m \<Longrightarrow> find m k = Some v' \<Longrightarrow> length (entries (assign k v m)) = length (entries m)"
  using sum_assign[of m k v' "\<lambda>_. 1" v] by (simp add: sum_list_triv)

lemma all_entries_iff: "invar m \<Longrightarrow> (\<forall>(k, v) \<in> set (entries m). P k v) \<longleftrightarrow> (\<forall>k v. find m k = Some v \<longrightarrow> P k v)"
  by (auto simp: find_Some_iff)

end

subsection \<open>Association lists implement it\<close>

lemma om_ok_Nil [simp]: "om_ok []"
  by (simp add: om_ok_def)

lemma om_ok_Cons: "om_ok ((k, v) # m) \<longleftrightarrow> (\<forall>k' \<in> fst ` set m. k < k') \<and> om_ok m"
  by (simp add: om_ok_def)

lemma fst_set_emplace: "fst ` set (om_emplace k v m) = insert k (fst ` set m)"
  by (induction k v m rule: om_emplace.induct) auto

lemma om_ok_emplace: "om_ok m \<Longrightarrow> om_ok (om_emplace k v m)"
  by (induction k v m rule: om_emplace.induct) (auto simp: om_ok_Cons fst_set_emplace)

lemma om_find_emplace:
  "om_ok m \<Longrightarrow> om_find (om_emplace k v m) k' = (if k' = k \<and> om_find m k = None then Some v else om_find m k')"
proof (induction k v m rule: om_emplace.induct)
  case (2 k v j w m)
  have "om_find m k = None" if "k < j"
    using 2(2) that by (force simp: om_find_def om_ok_Cons map_of_eq_None_iff)
  with 2 show ?case by (auto simp: om_find_def om_ok_Cons)
qed (simp add: om_find_def)

lemma om_ok_assign: "om_ok m \<Longrightarrow> om_ok (om_assign k v m)"
  by (simp add: om_ok_def om_assign_def comp_def case_prod_unfold)

lemma om_find_assign:
  "om_find (om_assign k v m) k' = (if k' = k \<and> om_find m k \<noteq> None then Some v else om_find m k')"
  by (induction m) (auto simp: om_find_def om_assign_def)

lemma om_ok_erase: "om_ok m \<Longrightarrow> om_ok (om_erase k m)"
  by (induction m) (auto simp: om_erase_def om_ok_Cons)

lemma om_find_erase: "om_find (om_erase k m) k' = (if k' = k then None else om_find m k')"
  by (induction m) (auto simp: om_find_def om_erase_def)

lemma om_upper_bound_filter: "om_ok m \<Longrightarrow> om_upper_bound k m = filter (\<lambda>e. k < fst e) m"
proof (induction m)
  case (Cons e m)
  have "filter (\<lambda>e. k < fst e) m = m" if "k < fst e"
    using Cons.prems that by (cases e) (force simp: om_ok_Cons filter_id_conv)
  with Cons show ?case
    by (cases e) (auto simp: om_upper_bound_def om_ok_Cons)
qed (simp add: om_upper_bound_def)

interpretation om: ordered_map "\<lambda>m. m" om_find om_emplace om_assign om_erase om_upper_bound om_ok
  by unfold_locales
    (simp_all add: om_ok_emplace om_ok_assign om_ok_erase om_find_emplace om_find_assign
      om_find_erase om_upper_bound_filter, simp_all add: om_ok_def om_find_def)

end
