(* ===== verification/Registry.thy ===== *)
theory Registry
  imports Utf8 Ordered_Map
begin

section \<open>Objects, class definitions, the registry and the identifier source\<close>

text \<open>
  Models the first half of \<open>include/pipeforge/domain.hpp\<close> and of \<open>src/domain/domain.cpp\<close>: the
  abstract class \<open>object\<close>, \<open>class_definition\<close>, \<open>class_registry\<close> (\<open>add\<close>, \<open>find\<close>, \<open>list\<close>) and
  \<open>identifier_source\<close>.

  An \<open>object\<close> is trusted code behind three virtual functions. The type variable \<^typ>\<open>'o\<close> is the
  hidden state of whatever classes a server links; \<open>object_class\<close> is the table of the virtual
  functions, which dispatches on that state. \<open>clone\<close> returns a pointer, so it may be null;
  \<open>invoke\<close> mutates the object it is called on, so it returns the new state with its result.
  A factory is a \<open>std::function\<close>, which may be empty, and returns a pointer or an error.

  \<^const>\<open>None\<close> as the result of an operation stands for undefined behaviour or an exception of
  the language (\<open>back()\<close> of an empty vector, a call of an empty \<open>std::function\<close>); the
  properties of the session store show that no reachable state has it.
\<close>

type_synonym 'a domain_result = "remote_error + 'a"

definition max_stored_values :: nat where
  "max_stored_values = 100"

definition max_stored_objects :: nat where
  "max_stored_objects = 100"

definition max_session_bytes :: nat where
  "max_session_bytes = 8 * 1024 * 1024"

definition max_object_state_bytes :: nat where
  "max_object_state_bytes = max_payload_bytes div 2"

definition record_charge :: nat where
  "record_charge = 128"

record 'o object_class =
  oc_clone :: "'o \<Rightarrow> 'o option"
  oc_state :: "'o \<Rightarrow> named_value list"
  oc_invoke :: "'o \<Rightarrow> string \<Rightarrow> named_value list \<Rightarrow> 'o \<times> value_t domain_result"

record 'o class_definition =
  df_description :: class_description
  df_create :: "(named_value list \<Rightarrow> 'o option domain_result) option"
  df_max_state_bytes :: nat

type_synonym 'o class_registry = "'o class_definition list"

abbreviation df_name :: "'o class_definition \<Rightarrow> string" where
  "df_name d \<equiv> cd_name (df_description d)"

subsection \<open>The registry\<close>

definition registry_find :: "'o class_registry \<Rightarrow> string \<Rightarrow> 'o class_definition option" where
  "registry_find definitions name = List.find (\<lambda>entry. df_name entry = name) definitions"

definition registry_add ::
  "'o class_registry \<Rightarrow> 'o class_definition \<Rightarrow> 'o class_registry \<times> remote_error option" where
  "registry_add definitions d =
     (if \<not> valid_description (df_description d) \<or> df_create d = None \<or>
         df_max_state_bytes d = 0 \<or> df_max_state_bytes d > max_object_state_bytes \<or>
         registry_find definitions (df_name d) \<noteq> None
      then (definitions, Some (make_error EC_invalid_request))
      else if length definitions \<ge> max_entries
      then (definitions, Some (make_error EC_quota_exceeded))
      else (takeWhile (\<lambda>entry. df_name entry < df_name d) definitions @ [d] @
            dropWhile (\<lambda>entry. df_name entry < df_name d) definitions, None))"

fun page_names ::
  "nat \<Rightarrow> string list \<Rightarrow> 'o class_definition list \<Rightarrow> string list \<times> 'o class_definition list" where
  "page_names limit names [] = (names, [])"
| "page_names limit names (item # items) =
     (if length names < limit then page_names limit (names @ [df_name item]) items
      else (names, item # items))"

definition registry_list ::
  "'o class_registry \<Rightarrow> string \<Rightarrow> u32 \<Rightarrow> classes_page domain_result option" where
  "registry_list definitions after limit =
     (if \<not> valid_name after True \<or> \<not> valid_page_size limit
      then Some (Inl (make_error EC_invalid_request))
      else let (names, rest) = page_names (unat limit) []
                 (dropWhile (\<lambda>entry. df_name entry \<le> after) definitions)
           in if rest = [] then Some (Inr \<lparr>cp_names = names, cp_next = []\<rparr>)
              else map_option (\<lambda>l. Inr \<lparr>cp_names = names, cp_next = l\<rparr>) (vector_back names))"

subsection \<open>The identifier source\<close>

type_synonym identifier_source = u64

definition identifier_next :: "identifier_source \<Rightarrow> u64 option \<times> identifier_source" where
  "identifier_next nxt =
     (if nxt = 0 then (None, nxt)
      else (Some nxt, if nxt = max_u64 then 0 else nxt + 1))"

subsection \<open>Registry lemmas\<close>

definition definition_ok :: "'o class_definition \<Rightarrow> bool" where
  "definition_ok d \<longleftrightarrow> valid_description (df_description d) \<and> df_create d \<noteq> None \<and>
     0 < df_max_state_bytes d \<and> df_max_state_bytes d \<le> max_object_state_bytes"

definition registry_ok :: "'o class_registry \<Rightarrow> bool" where
  "registry_ok definitions \<longleftrightarrow>
     sorted_wrt (<) (map df_name definitions) \<and> length definitions \<le> max_entries \<and>
     list_all definition_ok definitions"

lemma valid_description_name: "valid_description d \<Longrightarrow> valid_name (cd_name d) False"
  by (auto simp: valid_description_def split: if_splits)

lemma registry_ok_Nil: "registry_ok []"
  by (simp add: registry_ok_def)

lemma registry_find_Some:
  "registry_ok r \<Longrightarrow> registry_find r n = Some d \<longleftrightarrow> d \<in> set r \<and> df_name d = n"
proof
  assume "registry_find r n = Some d"
  then show "d \<in> set r \<and> df_name d = n"
    unfolding registry_find_def by (rule find_Some_set)
next
  assume ok: "registry_ok r" and d: "d \<in> set r \<and> df_name d = n"
  have "distinct (map df_name r)"
    using ok sorted_wrt_less_distinct by (auto simp: registry_ok_def)
  then show "registry_find r n = Some d"
    using d find_distinct_map[of df_name r d] by (auto simp: registry_find_def)
qed

lemma registry_find_None: "registry_find r n = None \<longleftrightarrow> n \<notin> df_name ` set r"
  by (simp add: registry_find_def find_eq_None_image)

lemma registry_find_ok: "registry_ok r \<Longrightarrow> registry_find r n = Some d \<Longrightarrow> definition_ok d \<and> df_name d = n"
  by (auto simp: registry_find_Some registry_ok_def list_all_iff)

lemma registry_add_None_iff:
  "snd (registry_add r d) = None \<longleftrightarrow>
     definition_ok d \<and> registry_find r (df_name d) = None \<and> length r < max_entries"
  by (auto simp: registry_add_def definition_ok_def)

lemma registry_add_Some: "snd (registry_add r d) \<noteq> None \<Longrightarrow> fst (registry_add r d) = r"
  by (auto simp: registry_add_def split: if_splits)

lemma registry_add_inserted:
  assumes "snd (registry_add r d) = None"
  shows "fst (registry_add r d) = takeWhile (\<lambda>e. df_name e < df_name d) r @ [d] @
           dropWhile (\<lambda>e. df_name e < df_name d) r"
  using assms by (simp add: registry_add_def split: if_splits)

lemma set_takeWhile_dropWhile: "set (takeWhile P xs) \<union> set (dropWhile P xs) = set xs"
  by (metis set_append takeWhile_append_dropWhile)

lemma registry_add_set:
  "snd (registry_add r d) = None \<Longrightarrow> set (fst (registry_add r d)) = insert d (set r)"
  using set_takeWhile_dropWhile[of "\<lambda>e. df_name e < df_name d" r]
  by (simp add: registry_add_inserted)

lemma registry_add_length:
  "snd (registry_add r d) = None \<Longrightarrow> length (fst (registry_add r d)) = Suc (length r)"
  using arg_cong[OF takeWhile_append_dropWhile[of "\<lambda>e. df_name e < df_name d" r], of length]
  by (simp add: registry_add_inserted del: takeWhile_dropWhile_id)

lemma registry_add_ok:
  assumes "registry_ok r"
  shows "registry_ok (fst (registry_add r d))"
proof (cases "snd (registry_add r d) = None")
  case True
  then have d: "definition_ok d" "df_name d \<notin> df_name ` set r" "length r < max_entries"
    by (simp_all add: registry_add_None_iff registry_find_None)
  have "sorted_wrt (<) (map df_name (fst (registry_add r d)))"
    unfolding registry_add_inserted[OF True] using assms d(2)
    by (intro sorted_insert_new) (simp_all add: registry_ok_def)
  then show ?thesis
    using assms d by (simp add: registry_ok_def list_all_iff registry_add_set[OF True]
        registry_add_length[OF True])
next
  case False
  with assms show ?thesis by (simp add: registry_add_Some)
qed

lemma registry_add_find:
  assumes "registry_ok r" and added: "snd (registry_add r d) = None"
  shows "registry_find (fst (registry_add r d)) n = (if n = df_name d then Some d else registry_find r n)"
proof -
  define r' where "r' = fst (registry_add r d)"
  have ok: "registry_ok r'"
    unfolding r'_def by (rule registry_add_ok[OF assms(1)])
  have S: "set r' = insert d (set r)"
    unfolding r'_def by (rule registry_add_set[OF added])
  have "registry_find r' n = Some d" if "n = df_name d"
    using registry_find_Some[OF ok, of n d] S that by simp
  moreover have "registry_find r' n = registry_find r n" if "n \<noteq> df_name d"
  proof (cases "registry_find r n")
    case None
    then show ?thesis using S that registry_find_None[of r n] registry_find_None[of r' n] by auto
  next
    case (Some e)
    then show ?thesis
      using S registry_find_Some[OF ok, of n e] registry_find_Some[OF assms(1), of n e] by simp
  qed
  ultimately show ?thesis by (simp add: r'_def)
qed

subsection \<open>Pages of class names\<close>

lemma page_names_take:
  "length names \<le> limit \<Longrightarrow>
   page_names limit names items =
     (names @ map df_name (take (limit - length names) items), drop (limit - length names) items)"
proof (induction items arbitrary: names)
  case (Cons item items)
  show ?case
  proof (cases "length names < limit")
    case True
    then obtain m where "limit - length names = Suc m" "limit - Suc (length names) = m"
      by (metis Suc_diff_Suc)
    then show ?thesis using True Cons.IH[of "names @ [df_name item]"] by simp
  qed (use Cons.prems in simp)
qed simp

lemma valid_page_size_pos: "valid_page_size limit \<Longrightarrow> 0 < unat limit"
  by (auto simp: valid_page_size_def unat_gt_0)

lemma registry_list_page:
  assumes "valid_name after True" and "valid_page_size limit"
    and rest: "rest = dropWhile (\<lambda>e. df_name e \<le> after) r"
  shows "registry_list r after limit = Some (Inr
    \<lparr>cp_names = map df_name (take (unat limit) rest),
     cp_next = (if length rest \<le> unat limit then []
                else df_name (last (take (unat limit) rest)))\<rparr>)"
proof -
  have step: "registry_list r after limit =
      (if drop (unat limit) rest = []
       then Some (Inr \<lparr>cp_names = map df_name (take (unat limit) rest), cp_next = []\<rparr>)
       else map_option (\<lambda>l. Inr \<lparr>cp_names = map df_name (take (unat limit) rest), cp_next = l\<rparr>)
              (vector_back (map df_name (take (unat limit) rest))))"
    using assms(1,2) by (simp add: registry_list_def page_names_take flip: rest)
  show ?thesis
  proof (cases "length rest \<le> unat limit")
    case False
    then have "take (unat limit) rest \<noteq> []"
      using valid_page_size_pos[OF assms(2)] by auto
    then have "vector_back (map df_name (take (unat limit) rest)) = Some (df_name (last (take (unat limit) rest)))"
      by (simp add: vector_back_def last_map del: take_eq_Nil)
    then show ?thesis using False by (simp add: step)
  qed (simp add: step)
qed

text \<open>
  What a client does to enumerate the classes: ask for a page, append it, continue after its
  cursor until the cursor is empty. \<^const>\<open>None\<close> is an error answer or running out of fuel.
\<close>

fun walk_classes :: "nat \<Rightarrow> 'o class_registry \<Rightarrow> string \<Rightarrow> u32 \<Rightarrow> string list option" where
  "walk_classes 0 r after limit = None"
| "walk_classes (Suc n) r after limit =
     (case registry_list r after limit of
        Some (Inr page) \<Rightarrow>
          if cp_next page = [] then Some (cp_names page)
          else map_option ((@) (cp_names page)) (walk_classes n r (cp_next page) limit)
      | _ \<Rightarrow> None)"

lemma registry_ok_name: "registry_ok r \<Longrightarrow> d \<in> set r \<Longrightarrow> valid_name (df_name d) False"
  by (auto simp: registry_ok_def list_all_iff definition_ok_def valid_description_name)

lemma walk_classes_from:
  assumes "registry_ok r" and "valid_page_size limit" and "valid_name after True"
    and "length (dropWhile (\<lambda>e. df_name e \<le> after) r) < n"
  shows "walk_classes n r after limit = Some (map df_name (dropWhile (\<lambda>e. df_name e \<le> after) r))"
  using assms(3,4)
proof (induction n arbitrary: after)
  case (Suc n)
  define rest where "rest = dropWhile (\<lambda>e. df_name e \<le> after) r"
  define k where "k = unat limit"
  have page: "registry_list r after limit = Some (Inr \<lparr>cp_names = map df_name (take k rest),
      cp_next = (if length rest \<le> k then [] else df_name (last (take k rest)))\<rparr>)"
    unfolding k_def by (rule registry_list_page[OF Suc.prems(1) assms(2) rest_def])
  have k: "0 < k" using valid_page_size_pos[OF assms(2)] by (simp add: k_def)
  show ?case
  proof (cases "length rest \<le> k")
    case True
    then show ?thesis by (simp add: page flip: rest_def)
  next
    case False
    define z where "z = last (take k rest)"
    have "take k rest \<noteq> []" using False k by auto
    then have "z \<in> set rest" using in_set_takeD last_in_set unfolding z_def by fast
    then have "z \<in> set r" by (metis rest_def set_dropWhileD)
    then have z: "valid_name (df_name z) False"
      by (rule registry_ok_name[OF assms(1)])
    have cont: "dropWhile (\<lambda>e. df_name e \<le> df_name z) r = drop k rest"
      unfolding z_def using assms(1) False k
      by (intro upper_bound_continues[OF _ rest_def]) (simp_all add: registry_ok_def)
    have "length (drop k rest) < n"
      using Suc.prems(2) False k by (simp add: flip: rest_def)
    then have "walk_classes n r (df_name z) limit = Some (map df_name (drop k rest))"
      using Suc.IH[of "df_name z"] valid_name_weaken[OF z] by (simp add: cont)
    then show ?thesis
      using False valid_name_nonempty[OF z]
      by (simp add: page flip: rest_def z_def map_append)
  qed
qed simp

subsection \<open>Identifiers\<close>

fun issue :: "nat \<Rightarrow> identifier_source \<Rightarrow> u64 list" where
  "issue 0 src = []"
| "issue (Suc n) src = (case identifier_next src of (None, src') \<Rightarrow> issue n src' | (Some i, src') \<Rightarrow> i # issue n src')"

lemma issue_exhausted: "issue n 0 = []"
  by (induction n) (simp_all add: identifier_next_def)

lemma unat_max_u64: "unat max_u64 = 2 ^ 64 - 1"
  by (simp add: max_u64_def)

lemma identifier_next_step:
  assumes "src \<noteq> 0"
  shows "fst (identifier_next src) = Some src"
    and "snd (identifier_next src) = 0 \<longleftrightarrow> src = max_u64"
    and "snd (identifier_next src) \<noteq> 0 \<Longrightarrow> unat (snd (identifier_next src)) = Suc (unat src)"
proof -
  show "fst (identifier_next src) = Some src"
    using assms by (simp add: identifier_next_def)
  have nz: "src + 1 \<noteq> 0" if "src \<noteq> max_u64"
    using that by (metis add.inverse_unique add.commute max_u64_minus minus_minus)
  then show "snd (identifier_next src) = 0 \<longleftrightarrow> src = max_u64"
    using assms by (simp add: identifier_next_def)
  show "snd (identifier_next src) \<noteq> 0 \<Longrightarrow> unat (snd (identifier_next src)) = Suc (unat src)"
    using assms nz by (simp add: identifier_next_def unatSuc add.commute split: if_splits)
qed

lemma issue_consecutive:
  assumes "src \<noteq> 0"
  shows "map unat (issue n src) = [unat src ..< min (unat src + n) (2 ^ 64)]"
  using assms
proof (induction n arbitrary: src)
  case (Suc n)
  define nxt where "nxt = snd (identifier_next src)"
  have i: "identifier_next src = (Some src, nxt)"
    using identifier_next_step(1)[OF Suc.prems] by (simp add: nxt_def prod_eq_iff)
  have b: "unat src < 2 ^ 64"
    using unsigned_less[of src, where 'a = nat] by simp
  show ?case
  proof (cases "nxt = 0")
    case True
    then have "unat src = 2 ^ 64 - 1"
      using identifier_next_step(2)[OF Suc.prems] by (simp add: nxt_def max_u64_def)
    then show ?thesis using True by (simp add: i issue_exhausted)
  next
    case False
    then have u: "unat nxt = Suc (unat src)"
      using identifier_next_step(3)[OF Suc.prems] by (simp add: nxt_def)
    have lt: "unat src < min (unat src + Suc n) (2 ^ 64)"
      using b by simp
    have "map unat (issue (Suc n) src) = unat src # [Suc (unat src) ..< min (unat src + Suc n) (2 ^ 64)]"
      using Suc.IH[OF False] unfolding u add_Suc add_Suc_right by (simp only: i issue.simps prod.case option.case list.map)
    also have "\<dots> = [unat src ..< min (unat src + Suc n) (2 ^ 64)]"
      by (rule upt_conv_Cons[OF lt, symmetric])
    finally show ?thesis .
  qed
qed simp

text \<open>
  Property C23. However many times \<open>identifier_source::next\<close> is called on a source started at a
  nonzero \<open>first\<close>, the identifiers it hands out are exactly the consecutive numbers from \<open>first\<close>
  up to at most \<open>2 ^ 64 - 1\<close>: none is zero, none repeats, and the counter never wraps around.
\<close>

theorem identifiers_never_wrap:
  assumes "first \<noteq> 0"
  shows "map unat (issue n first) = [unat first ..< min (unat first + n) (2 ^ 64)] \<and>
         distinct (issue n first) \<and> 0 \<notin> set (issue n first)"
proof -
  have m: "map unat (issue n first) = [unat first ..< min (unat first + n) (2 ^ 64)]"
    by (rule issue_consecutive[OF assms])
  have "distinct (map unat (issue n first))"
    unfolding m by simp
  then have "distinct (issue n first)"
    by (simp add: distinct_map)
  moreover have "0 \<notin> set (issue n first)"
  proof
    assume "0 \<in> set (issue n first)"
    then have "unat (0 :: u64) \<in> set (map unat (issue n first))" by force
    then show False using assms unfolding m by (simp add: unat_eq_0)
  qed
  ultimately show ?thesis using m by blast
qed

theorem identifiers_never_wrap_witness:
  "map unat (issue 5 18446744073709551614) = [18446744073709551614, 18446744073709551615] \<and>
   0 \<notin> set (issue 5 18446744073709551614)"
  using identifiers_never_wrap[of 18446744073709551614 5] by (simp add: upt_rec)

end
