(* ===== verification/Codec_Properties.thy ===== *)
theory Codec_Properties
  imports Codec_Limits Registry
begin

section \<open>Properties of the codec\<close>

text \<open>
  Round trips, the exact domain of the encoder, and the failure policy of the decoder. What the
  codec relies on of the Protobuf runtime is \<open>faithful_on\<close>: when a message serialises, the result
  is not empty, has the announced size, and parses back to the same message. It is required of
  the one message a property is about, never of all.
\<close>

definition faithful_on :: "'m protobuf \<Rightarrow> 'm \<Rightarrow> bool" where
  "faithful_on rt m \<longleftrightarrow>
     (\<forall>bs. pb_serialize rt m = Some bs \<longrightarrow> bs \<noteq> [] \<and> length bs = pb_byte_size rt m \<and> pb_parse rt bs = Some m)"

subsection \<open>Shared lemmas\<close>

lemma serialize_Inr:
  "serialize rt rid m = Inr bs \<longleftrightarrow> pb_byte_size rt m \<le> max_payload_bytes \<and> pb_serialize rt m = Some bs"
  by (auto simp: serialize_def split: option.splits)

lemma parse_serialized:
  assumes "faithful_on rt m" and "serialize rt rid m = Inr bs"
  shows "parse rt envelope bs = (case envelope m of Some e \<Rightarrow> Inl e | None \<Rightarrow> Inr m)"
  using assms by (auto simp: faithful_on_def serialize_Inr parse_def)

lemma encode_request_Inr:
  "encode_request utf8 rt req = Inr bs \<longleftrightarrow>
     request_envelope utf8 (request_message req) = None \<and>
     read_operation (write_operation (rq_body req)) \<noteq> None \<and>
     serialize rt pr_request_id (request_message req) = Inr bs"
  by (auto simp: encode_request_def request_message_def Let_def split: option.splits)

lemma encode_response_Inr:
  "encode_response utf8 rt res = Inr bs \<longleftrightarrow>
     response_envelope utf8 (response_message res) = None \<and>
     read_outcome (write_outcome (rs_body res)) \<noteq> None \<and>
     serialize rt ps_request_id (response_message res) = Inr bs"
  by (auto simp: encode_response_def response_message_def Let_def split: option.splits)

lemma request_envelope_None:
  "request_envelope utf8 (request_message req) = None \<longleftrightarrow>
     rq_id req \<noteq> 0 \<and> rq_version req = protocol_version \<and>
     (\<forall>m \<in> set (reflect_operation (write_operation (rq_body req))). message_ok m utf8)"
proof -
  have "length (reflect_operation (write_operation (rq_body req))) \<le> 1"
    by (cases "rq_body req") simp_all
  then show ?thesis
    using operation_nodes[of "rq_body req" utf8]
    by (auto simp: request_envelope_def validate_envelope_None request_message_def reflect_request_def
        max_entries_def max_unknown_fields_def)
qed

lemma response_envelope_ok:
  assumes "utf8_validator utf8" and "rs_id res \<noteq> 0" and "rs_version res = protocol_version"
    and "outcome_ok utf8 (rs_body res)"
  shows "response_envelope utf8 (response_message res) = None"
proof -
  have "length (reflect_outcome (write_outcome (rs_body res))) \<le> 1"
    by (cases "rs_body res") simp_all
  then show ?thesis
    using assms outcome_nodes[OF assms(4)] utf8_validator.written_outcome_ok[OF assms(1,4)]
    by (auto simp: response_envelope_def validate_envelope_None response_message_def reflect_response_def
        max_entries_def max_unknown_fields_def)
qed

lemma encode_response_ok:
  assumes "utf8_validator utf8" and "i \<noteq> 0" and "outcome_ok utf8 r"
  shows "encode_response utf8 rt \<lparr>rs_id = i, rs_body = r, rs_version = protocol_version\<rparr> =
     serialize rt ps_request_id (response_message \<lparr>rs_id = i, rs_body = r, rs_version = protocol_version\<rparr>)"
  using response_envelope_ok[OF assms(1), of "\<lparr>rs_id = i, rs_body = r, rs_version = protocol_version\<rparr>"]
    read_written_outcome[OF assms(3)] assms(2,3)
  by (simp add: encode_response_def Let_def response_message_def)

lemma validate_message_codes:
  shows "fst (validate_message utf8 m n u) \<in> {None, Some FC_limit_exceeded, Some FC_invalid_fields}"
    and "fst (validate_fields utf8 fs n u) \<in> {None, Some FC_limit_exceeded, Some FC_invalid_fields}"
    and "fst (validate_field utf8 f n u) \<in> {None, Some FC_limit_exceeded, Some FC_invalid_fields}"
    and "fst (validate_messages utf8 ms n u) \<in> {None, Some FC_limit_exceeded, Some FC_invalid_fields}"
proof (induction utf8 m n u and utf8 fs n u and utf8 f n u and utf8 ms n u
    rule: validate_message_validate_fields_validate_field_validate_messages.induct)
  case (5 utf8 ss n u)
  show ?case by (induction ss) auto
qed (auto split: prod.splits bool.splits option.splits)

lemma validate_envelope_Some:
  assumes "validate_envelope utf8 i ver m = Some f"
  shows "(fl_close_session f \<longleftrightarrow> fl_request_id f = None) \<and> fl_request_id f \<noteq> Some 0 \<and>
    fl_code f \<in> {FC_invalid_fields, FC_unsupported_version, FC_limit_exceeded}"
proof -
  have "fst (validate_message utf8 m max_message_nodes max_unknown_fields) \<in>
      {None, Some FC_limit_exceeded, Some FC_invalid_fields}"
    by (rule validate_message_codes)
  then show ?thesis
    using assms by (auto simp: validate_envelope_def split: if_splits option.splits prod.splits)
qed

lemma decode_closes_unparsed:
  assumes "decode_request utf8 rt bs = Inl f" and "bs = [] \<or> length bs > max_payload_bytes \<or> pb_parse rt bs = None"
  shows "fl_close_session f \<and> fl_request_id f = None"
  using assms by (auto simp: decode_request_def parse_def split: if_splits)

lemma decode_failure_cases:
  assumes "decode_request utf8 rt bs = Inl f"
  shows "(fl_close_session f \<longleftrightarrow> fl_request_id f = None) \<and> fl_request_id f \<noteq> Some 0 \<and>
    (\<not> fl_close_session f \<longrightarrow> fl_code f \<in> {FC_invalid_fields, FC_unsupported_version, FC_limit_exceeded})"
proof (cases "bs = [] \<or> length bs > max_payload_bytes \<or> pb_parse rt bs = None")
  case True
  then show ?thesis
    using decode_closes_unparsed[OF assms] by auto
next
  case False
  then obtain m where m: "pb_parse rt bs = Some m" by auto
  show ?thesis
  proof (cases "request_envelope utf8 m")
    case None
    then have "pr_request_id m \<noteq> 0"
      by (simp add: request_envelope_def validate_envelope_None)
    then show ?thesis
      using assms False m None by (auto simp: decode_request_def parse_def split: option.splits)
  next
    case (Some e)
    then show ?thesis
      using assms False m validate_envelope_Some[of utf8 "pr_request_id m" "pr_version m" "reflect_request m" f]
      by (auto simp: decode_request_def parse_def request_envelope_def)
  qed
qed

lemma decode_encoded_request:
  assumes "encode_request utf8 rt req = Inr bs" and "faithful_on rt (request_message req)"
  shows "decode_request utf8 rt bs = Inr req"
proof -
  obtain b where b: "read_operation (write_operation (rq_body req)) = Some b"
    using assms(1) by (auto simp: encode_request_Inr)
  then have "b = rq_body req" by (rule read_write_operation)
  moreover have "request_envelope utf8 (request_message req) = None"
    "serialize rt pr_request_id (request_message req) = Inr bs"
    using assms(1) by (simp_all add: encode_request_Inr)
  ultimately show ?thesis
    using b by (simp add: decode_request_def parse_serialized[OF assms(2)] request_message_def)
qed

lemma decode_encoded_response:
  assumes "encode_response utf8 rt res = Inr bs" and "faithful_on rt (response_message res)"
  shows "decode_response utf8 rt bs = Inr res"
proof -
  obtain b where b: "read_outcome (write_outcome (rs_body res)) = Some b"
    using assms(1) by (auto simp: encode_response_Inr)
  then have "b = rs_body res" by (rule read_write_outcome)
  moreover have "response_envelope utf8 (response_message res) = None"
    "serialize rt ps_request_id (response_message res) = Inr bs"
    using assms(1) by (simp_all add: encode_response_Inr)
  ultimately show ?thesis
    using b by (simp add: decode_response_def parse_serialized[OF assms(2)] response_message_def)
qed

subsection \<open>Properties\<close>

text \<open>
  Property C10. Requests survive the wire: whatever \<open>encode_request\<close> produces, \<open>decode_request\<close>
  reads back as the same request, identifier, operation and version alike.
\<close>

theorem request_roundtrip:
  assumes "encode_request utf8 rt req = Inr bs" and "faithful_on rt (request_message req)"
  shows "decode_request utf8 rt bs = Inr req"
  using assms by (rule decode_encoded_request)

definition echo_runtime :: "'m \<Rightarrow> 'm protobuf" where
  "echo_runtime m = \<lparr>pb_parse = (\<lambda>bs. if bs = [1, 2] then Some m else None), pb_byte_size = (\<lambda>_. 2),
     pb_serialize = (\<lambda>_. Some [1, 2])\<rparr>"

lemma faithful_echo: "faithful_on (echo_runtime m) m"
  by (simp add: faithful_on_def echo_runtime_def)

abbreviation demo_request :: request where
  "demo_request \<equiv> \<lparr>rq_id = 7, rq_body = Put_value (Text ''hi''), rq_version = 1\<rparr>"

theorem request_roundtrip_witness:
  "decode_request structurally_valid (echo_runtime (request_message demo_request)) [1, 2] = Inr demo_request"
proof -
  have "encode_request structurally_valid (echo_runtime (request_message demo_request)) demo_request = Inr [1, 2]"
    by code_simp
  then show ?thesis
    by (rule request_roundtrip) (rule faithful_echo)
qed

text \<open>
  Property C25. Responses survive the wire in the same way.
\<close>

theorem response_roundtrip:
  assumes "encode_response utf8 rt res = Inr bs" and "faithful_on rt (response_message res)"
  shows "decode_response utf8 rt bs = Inr res"
  using assms by (rule decode_encoded_response)

abbreviation demo_response :: response where
  "demo_response \<equiv> \<lparr>rs_id = 7, rs_body = Value_record \<lparr>vr_id = 1, vr_data = Integer 5\<rparr>, rs_version = 1\<rparr>"

theorem response_roundtrip_witness:
  "decode_response structurally_valid (echo_runtime (response_message demo_response)) [1, 2] = Inr demo_response"
proof -
  have "encode_response structurally_valid (echo_runtime (response_message demo_response)) demo_response = Inr [1, 2]"
    by code_simp
  then show ?thesis
    by (rule response_roundtrip) (rule faithful_echo)
qed

text \<open>
  Property C26. The encoder accepts exactly the well-formed requests: a nonzero identifier, the
  supported version, an operation whose names, values, page size and argument list satisfy the
  contract's predicates, and a serialised size within the payload limit. (The UTF-8 check is
  only required to accept ASCII and concatenations.)
\<close>

theorem encode_request_exact:
  assumes "utf8_validator utf8"
  shows "encode_request utf8 rt req = Inr bs \<longleftrightarrow>
    rq_id req \<noteq> 0 \<and> rq_version req = protocol_version \<and> operation_ok utf8 (rq_body req) \<and>
    pb_byte_size rt (request_message req) \<le> max_payload_bytes \<and>
    pb_serialize rt (request_message req) = Some bs"
  using utf8_validator.written_operation_exact[OF assms, of "rq_body req"]
  by (auto simp: encode_request_Inr request_envelope_None serialize_Inr)

theorem encode_request_exact_witness:
  "encode_request structurally_valid (echo_runtime (request_message demo_request)) demo_request = Inr [1, 2] \<and>
   operation_ok structurally_valid (Put_value (Text ''hi''))"
proof -
  have "encode_request structurally_valid (echo_runtime (request_message demo_request)) demo_request = Inr [1, 2]"
    by code_simp
  then show ?thesis
    using encode_request_exact[OF utf8_table.utf8_validator_axioms, of "echo_runtime (request_message demo_request)"
        demo_request "[1, 2]"] by (simp del: valid_value.simps)
qed

text \<open>
  Property C27. The decoder's failures tell what the session may do: a failure closes the session
  exactly when it carries no request identifier, an identifier it carries is never zero, and a
  payload that is empty, too large or unparsable always closes. Recoverable failures are only
  invalid fields, an unsupported version or an exceeded limit.
\<close>

theorem decode_failure_policy:
  assumes "decode_request utf8 rt bs = Inl f"
  shows "(fl_close_session f \<longleftrightarrow> fl_request_id f = None) \<and> fl_request_id f \<noteq> Some 0 \<and>
    (bs = [] \<or> length bs > max_payload_bytes \<or> pb_parse rt bs = None \<longrightarrow> fl_close_session f) \<and>
    (\<not> fl_close_session f \<longrightarrow> fl_code f \<in> {FC_invalid_fields, FC_unsupported_version, FC_limit_exceeded})"
  using decode_failure_cases[OF assms] decode_closes_unparsed[OF assms] by blast

theorem decode_failure_policy_witness:
  "decode_request structurally_valid (echo_runtime (request_message demo_request)) [3] =
     Inl \<lparr>fl_code = FC_malformed, fl_close_session = True, fl_request_id = None\<rparr>"
proof -
  obtain f where f: "decode_request structurally_valid (echo_runtime (request_message demo_request)) [3] = Inl f"
    "fl_code f = FC_malformed"
    by (simp add: decode_request_def parse_def echo_runtime_def max_payload_bytes_def)
  then have "fl_close_session f" "fl_request_id f = None"
    using decode_failure_policy[OF f(1)] by (auto simp: echo_runtime_def)
  then show ?thesis using f by (cases f) simp
qed

text \<open>
  Property C28. The recursive resource check is exact: \<open>validate_message\<close> accepts a message with a
  node budget and an unknown-field budget if and only if the number of messages in the whole
  tree fits the first, the number of unknown fields in the whole tree fits the second, and every
  single field, string and group respects its own limit. The budgets left over are what remains.
\<close>

theorem resource_check_exact:
  assumes "0 \<le> unknowns"
  shows "validate_message utf8 m nodes unknowns = (None, nodes', unknowns') \<longleftrightarrow>
    message_ok m utf8 \<and> message_nodes m \<le> nodes \<and> message_unknowns m \<le> unknowns \<and>
    nodes' = nodes - message_nodes m \<and> unknowns' = unknowns - message_unknowns m"
  by (rule validate_message_exact(1)[OF assms])

theorem resource_check_exact_witness:
  "validate_message structurally_valid (reflect_request (request_message demo_request)) 4096 128 = (None, 4093, 128)"
proof -
  have "message_ok (reflect_request (request_message demo_request)) structurally_valid \<and>
      message_nodes (reflect_request (request_message demo_request)) = 3 \<and>
      message_unknowns (reflect_request (request_message demo_request)) = 0"
    by code_simp
  then show ?thesis
    using resource_check_exact[of 128 structurally_valid "reflect_request (request_message demo_request)" 4096] by simp
qed

text \<open>
  Property C29. A kind on the wire is read without truncation: an enumeration value is accepted if and
  only if it is 1, 2 or 3, so that a number such as 257, whose low byte is a valid kind, is
  rejected, and the kind read back has the number that was on the wire.
\<close>

theorem wire_kind_exact:
  "read_kind k = (if k \<in> {1, 2, 3} then Some (Value_kind (word_of_int k)) else None) \<and>
   (case read_kind k of Some kind \<Rightarrow> kind_int kind = k \<and> valid_kind kind | None \<Rightarrow> k \<notin> {1, 2, 3})"
proof -
  have "read_kind k = (if k \<in> {1, 2, 3} then Some (Value_kind (word_of_int k)) else None)"
    by (auto simp: read_kind_def cast_kind_def)
  then show ?thesis by auto
qed

end
