(* ===== verification/Builtins.thy ===== *)
theory Builtins
  imports Registry
begin

section \<open>The built-in classes\<close>

text \<open>
  Models \<open>src/domain/builtins.cpp\<close>: the classes \<open>counter_object\<close> and \<open>text_buffer_object\<close>, their
  factories and their registered definitions. The hidden state of the two classes is the
  datatype \<open>builtin_object\<close>, and \<open>builtin_class\<close> is the table of virtual functions that
  dispatches on it.

  A counter keeps a 64-bit word that is read as a signed number; the guard of \<open>increment\<close> is
  written with the wrapping operations of words and the signed order, and the lemmas show that
  its bound expressions never wrap. The Unicode check of \<open>utf8_range\<close> is the parameter \<open>utf8\<close>.
\<close>

definition single_argument ::
  "(string \<Rightarrow> bool) \<Rightarrow> named_value list \<Rightarrow> string \<Rightarrow> value_t option" where
  "single_argument utf8 arguments name =
     (case arguments of
        [argument] \<Rightarrow>
          if nv_name argument \<noteq> name \<or> \<not> valid_value utf8 (nv_data argument) then None
          else Some (nv_data argument)
      | _ \<Rightarrow> None)"

datatype builtin_object = Counter_object i64 | Text_buffer_object string

definition int64_max :: i64 where
  "int64_max = 0x7FFFFFFFFFFFFFFF"

definition int64_min :: i64 where
  "int64_min = 0x8000000000000000"

definition counter_invoke ::
  "(string \<Rightarrow> bool) \<Rightarrow> i64 \<Rightarrow> string \<Rightarrow> named_value list \<Rightarrow> i64 \<times> value_t domain_result" where
  "counter_invoke utf8 val name arguments =
     (if name \<noteq> ''increment'' then (val, Inl (make_error EC_not_found))
      else case single_argument utf8 arguments ''delta'' of
        Some (Integer delta) \<Rightarrow>
          if 0 <s delta \<and> int64_max - delta <s val \<or> delta <s 0 \<and> val <s int64_min - delta
          then (val, Inl (make_error EC_numeric_overflow))
          else (val + delta, Inr (Integer (val + delta)))
      | _ \<Rightarrow> (val, Inl (make_error EC_invalid_request)))"

definition text_buffer_invoke ::
  "(string \<Rightarrow> bool) \<Rightarrow> string \<Rightarrow> string \<Rightarrow> named_value list \<Rightarrow> string \<times> value_t domain_result" where
  "text_buffer_invoke utf8 text name arguments =
     (if name \<noteq> ''append'' then (text, Inl (make_error EC_not_found))
      else case single_argument utf8 arguments ''suffix'' of
        Some (Text suffix) \<Rightarrow>
          if length suffix > size_sub max_string_bytes (length text)
          then (text, Inl (make_error EC_quota_exceeded))
          else (text @ suffix, Inr (Text (text @ suffix)))
      | _ \<Rightarrow> (text, Inl (make_error EC_invalid_request)))"

fun builtin_state :: "builtin_object \<Rightarrow> named_value list" where
  "builtin_state (Counter_object val) = [\<lparr>nv_name = ''value'', nv_data = Integer val\<rparr>]"
| "builtin_state (Text_buffer_object text) = [\<lparr>nv_name = ''text'', nv_data = Text text\<rparr>]"

fun builtin_clone :: "builtin_object \<Rightarrow> builtin_object option" where
  "builtin_clone (Counter_object val) = Some (Counter_object val)"
| "builtin_clone (Text_buffer_object text) = Some (Text_buffer_object text)"

fun builtin_invoke ::
  "(string \<Rightarrow> bool) \<Rightarrow> builtin_object \<Rightarrow> string \<Rightarrow> named_value list \<Rightarrow>
   builtin_object \<times> value_t domain_result" where
  "builtin_invoke utf8 (Counter_object val) name arguments =
     map_prod Counter_object id (counter_invoke utf8 val name arguments)"
| "builtin_invoke utf8 (Text_buffer_object text) name arguments =
     map_prod Text_buffer_object id (text_buffer_invoke utf8 text name arguments)"

definition builtin_class :: "(string \<Rightarrow> bool) \<Rightarrow> builtin_object object_class" where
  "builtin_class utf8 =
     \<lparr>oc_clone = builtin_clone, oc_state = builtin_state, oc_invoke = builtin_invoke utf8\<rparr>"

definition counter_description :: class_description where
  "counter_description =
     \<lparr>cd_name = ''Counter'',
      cd_attributes = [\<lparr>at_name = ''value'', at_kind = VK_integer, at_read_only = True\<rparr>],
      cd_methods = [\<lparr>mt_name = ''increment'',
                     mt_parameters = [\<lparr>pm_name = ''delta'', pm_kind = VK_integer\<rparr>],
                     mt_result_kind = VK_integer\<rparr>],
      cd_constructor_parameters = [\<lparr>pm_name = ''initial'', pm_kind = VK_integer\<rparr>]\<rparr>"

definition counter_create ::
  "(string \<Rightarrow> bool) \<Rightarrow> named_value list \<Rightarrow> builtin_object option domain_result" where
  "counter_create utf8 arguments =
     (case single_argument utf8 arguments ''initial'' of
        Some (Integer initial) \<Rightarrow> Inr (Some (Counter_object initial))
      | _ \<Rightarrow> Inl (make_error EC_invalid_request))"

definition counter_definition :: "(string \<Rightarrow> bool) \<Rightarrow> builtin_object class_definition" where
  "counter_definition utf8 =
     \<lparr>df_description = counter_description, df_create = Some (counter_create utf8),
      df_max_state_bytes = max_object_state_bytes\<rparr>"

definition text_buffer_description :: class_description where
  "text_buffer_description =
     \<lparr>cd_name = ''TextBuffer'',
      cd_attributes = [\<lparr>at_name = ''text'', at_kind = VK_text, at_read_only = True\<rparr>],
      cd_methods = [\<lparr>mt_name = ''append'',
                     mt_parameters = [\<lparr>pm_name = ''suffix'', pm_kind = VK_text\<rparr>],
                     mt_result_kind = VK_text\<rparr>],
      cd_constructor_parameters = [\<lparr>pm_name = ''initial'', pm_kind = VK_text\<rparr>]\<rparr>"

definition text_buffer_create ::
  "(string \<Rightarrow> bool) \<Rightarrow> named_value list \<Rightarrow> builtin_object option domain_result" where
  "text_buffer_create utf8 arguments =
     (case single_argument utf8 arguments ''initial'' of
        Some (Text initial) \<Rightarrow> Inr (Some (Text_buffer_object initial))
      | _ \<Rightarrow> Inl (make_error EC_invalid_request))"

definition text_buffer_definition :: "(string \<Rightarrow> bool) \<Rightarrow> builtin_object class_definition" where
  "text_buffer_definition utf8 =
     \<lparr>df_description = text_buffer_description, df_create = Some (text_buffer_create utf8),
      df_max_state_bytes = max_object_state_bytes\<rparr>"

subsection \<open>The signed guard of the counter\<close>

lemma sint_int64_bounds [simp]: "sint int64_max = 2 ^ 63 - 1" "sint int64_min = - (2 ^ 63)"
  by (simp_all add: int64_max_def int64_min_def)

lemma sint_range: "- (2 ^ 63) \<le> sint (w :: i64)" "sint (w :: i64) < 2 ^ 63"
  using sint_greater_eq[of w] sint_less[of w] by simp_all

lemma sint_add_exact:
  "sint (a + b :: i64) = sint a + sint b" if "- (2 ^ 63) \<le> sint a + sint b" "sint a + sint b < 2 ^ 63"
  using that by (simp add: sint_word_ariths signed_take_bit_int_eq_self)

lemma sint_diff_exact:
  "sint (a - b :: i64) = sint a - sint b" if "- (2 ^ 63) \<le> sint a - sint b" "sint a - sint b < 2 ^ 63"
  using that by (simp add: sint_word_ariths signed_take_bit_int_eq_self)

lemma increment_guard:
  "(0 <s delta \<and> int64_max - delta <s val \<or> delta <s 0 \<and> val <s int64_min - delta) \<longleftrightarrow>
   \<not> (- (2 ^ 63) \<le> sint val + sint delta \<and> sint val + sint delta < 2 ^ 63)"
  for val delta :: i64
proof -
  have v: "- (2 ^ 63) \<le> sint val" "sint val < 2 ^ 63" and d: "- (2 ^ 63) \<le> sint delta" "sint delta < 2 ^ 63"
    by (rule sint_range)+
  have "sint (int64_max - delta) = 2 ^ 63 - 1 - sint delta" if "0 < sint delta"
    using that d by (subst sint_diff_exact) simp_all
  moreover have "sint (int64_min - delta) = - (2 ^ 63) - sint delta" if "sint delta < 0"
    using that d by (subst sint_diff_exact) simp_all
  ultimately show ?thesis
    using v d unfolding word_sless_alt by (cases "sint delta" "0 :: int" rule: linorder_cases) auto
qed

lemma single_argument_Some:
  "single_argument utf8 args n = Some v \<longleftrightarrow>
     args = [\<lparr>nv_name = n, nv_data = v\<rparr>] \<and> valid_value utf8 v"
  by (auto simp: single_argument_def split: list.splits) (metis named_value.select_convs(2))+

subsection \<open>Registration of the built-ins\<close>

lemma builtin_definitions_ok:
  "definition_ok (counter_definition utf8)" "definition_ok (text_buffer_definition utf8)"
  by (simp_all add: definition_ok_def counter_definition_def text_buffer_definition_def
      max_object_state_bytes_def max_payload_bytes_def) (code_simp+)

lemma registry_ok_single: "definition_ok d \<Longrightarrow> registry_ok [d]"
  by (simp add: registry_ok_def max_entries_def)

definition builtin_registry :: "(string \<Rightarrow> bool) \<Rightarrow> builtin_object class_registry" where
  "builtin_registry utf8 = [counter_definition utf8, text_buffer_definition utf8]"

lemma builtin_names [simp]:
  "cd_name counter_description = ''Counter''" "cd_name text_buffer_description = ''TextBuffer''"
  by (simp_all add: counter_description_def text_buffer_description_def)

lemma builtin_definition_simps [simp]:
  "df_description (counter_definition utf8) = counter_description"
  "df_description (text_buffer_definition utf8) = text_buffer_description"
  "df_create (counter_definition utf8) = Some (counter_create utf8)"
  "df_create (text_buffer_definition utf8) = Some (text_buffer_create utf8)"
  "df_max_state_bytes (counter_definition utf8) = max_object_state_bytes"
  "df_max_state_bytes (text_buffer_definition utf8) = max_object_state_bytes"
  by (simp_all add: counter_definition_def text_buffer_definition_def)

lemma builtin_registry_ok: "registry_ok (builtin_registry utf8)"
  by (simp add: builtin_registry_def registry_ok_def builtin_definitions_ok max_entries_def)

lemma Nil_less_nonempty: "xs \<noteq> [] \<Longrightarrow> [] < (xs :: string)"
  by (cases xs) simp_all

subsection \<open>Properties\<close>

text \<open>
  Property C20. \<open>increment\<close> is exact 64-bit signed addition or a refusal: with a well-formed delta
  it adds the mathematical integers when the sum fits in 64 bits, and otherwise reports
  \<open>numeric_overflow\<close> and leaves the counter as it was; the value returned is the value stored.
\<close>

theorem counter_increment_exact:
  "counter_invoke utf8 val ''increment'' [\<lparr>nv_name = ''delta'', nv_data = Integer delta\<rparr>] =
     (if - (2 ^ 63) \<le> sint val + sint delta \<and> sint val + sint delta < 2 ^ 63
      then (word_of_int (sint val + sint delta), Inr (Integer (word_of_int (sint val + sint delta))))
      else (val, Inl (make_error EC_numeric_overflow))) \<and>
   (if - (2 ^ 63) \<le> sint val + sint delta \<and> sint val + sint delta < 2 ^ 63
    then sint (fst (counter_invoke utf8 val ''increment''
                      [\<lparr>nv_name = ''delta'', nv_data = Integer delta\<rparr>])) = sint val + sint delta
    else True)"
proof -
  have "word_of_int (sint val + sint delta) = val + delta"
    by (simp flip: wi_hom_add)
  then show ?thesis
    unfolding counter_invoke_def increment_guard
    by (simp add: single_argument_def sint_add_exact)
qed

text \<open>
  Property C21. Registration keeps the registry's invariant (strictly sorted names, at most
  \<open>max_entries\<close> classes, every definition with valid metadata, a factory and a state ceiling
  within the hard bound), refuses exactly the invalid, duplicate or surplus definitions without
  changing anything, and makes an accepted class, and no other, findable by its name.
\<close>

theorem registry_add_correct:
  assumes "registry_ok r"
  shows "registry_ok (fst (registry_add r d)) \<and>
    (snd (registry_add r d) = None \<longleftrightarrow>
       definition_ok d \<and> registry_find r (df_name d) = None \<and> length r < max_entries) \<and>
    (snd (registry_add r d) \<noteq> None \<longrightarrow> fst (registry_add r d) = r) \<and>
    (snd (registry_add r d) = None \<longrightarrow>
       (\<forall>n. registry_find (fst (registry_add r d)) n =
             (if n = df_name d then Some d else registry_find r n)))"
  using registry_add_ok[OF assms] registry_add_None_iff registry_add_Some registry_add_find[OF assms]
  by blast

theorem registry_add_correct_witness:
  "registry_ok [text_buffer_definition structurally_valid] \<and>
   registry_ok (fst (registry_add [text_buffer_definition structurally_valid] (counter_definition structurally_valid)))"
  using registry_add_correct[OF registry_ok_single[OF builtin_definitions_ok(2)]]
    registry_ok_single[OF builtin_definitions_ok(2)] by blast

text \<open>
  Property C22. Page by page, with any accepted page size, a client that starts from the empty
  cursor and follows \<open>next\<close> until it is empty receives every registered class name exactly once
  and in order, after at most one request more than there are classes; no request on the way
  reads \<open>back()\<close> of an empty page.
\<close>

theorem class_pages_complete:
  assumes "registry_ok r" and "valid_page_size limit"
  shows "walk_classes (Suc (length r)) r [] limit = Some (map df_name r)"
proof -
  have "dropWhile (\<lambda>e. df_name e \<le> []) r = r"
    using registry_ok_name[OF assms(1), THEN valid_name_nonempty]
    by (intro dropWhile_le_all Nil_less_nonempty)
  then show ?thesis
    using walk_classes_from[OF assms, of "[]" "Suc (length r)"] by simp
qed

theorem class_pages_complete_witness:
  "registry_ok (builtin_registry structurally_valid) \<and> valid_page_size 1 \<and>
   walk_classes 3 (builtin_registry structurally_valid) [] 1 = Some [''Counter'', ''TextBuffer'']"
proof -
  have "valid_page_size 1" by code_simp
  then show ?thesis
    using class_pages_complete[OF builtin_registry_ok, of 1 structurally_valid]
    by (simp add: builtin_registry_ok[unfolded builtin_registry_def] builtin_registry_def
        del: walk_classes.simps flip: numeral_3_eq_3)
qed


end
