(* ===== verification/Store.thy ===== *)
theory Store
  imports Builtins
begin

section \<open>The session store\<close>

text \<open>
  Models \<open>session_store\<close> of \<open>include/pipeforge/domain.hpp\<close> and \<open>src/domain/domain.cpp\<close>: one
  definition per overload of \<open>apply\<close>, \<open>execute\<close>, \<open>close\<close> and the constructor.

  The store borrows the registry and the identifier source. The registry is frozen while stores
  exist, so it is a component of the environment \<open>domain_env\<close>, together with the virtual functions
  of the linked classes and the Unicode check; the identifier source is shared by all sessions
  and mutated, so it is passed in and returned. An operation returns the outcome, the identifier
  source and the store, or \<^const>\<open>None\<close> where the code would have undefined behaviour or throw.

  Objects are values of the type \<^typ>\<open>'o\<close>: the documented contract of \<open>clone\<close> (an independent
  deep copy, no shared mutable state) is what makes values an adequate model of them.
\<close>

record session_limits =
  lim_values :: nat
  lim_objects :: nat
  lim_bytes :: nat

record 'o stored_object =
  so_definition :: "'o class_definition"
  so_instance :: 'o
  so_charge :: nat

record 'o session_store =
  ss_limits :: session_limits
  ss_values :: "(u64, value_t) omap"
  ss_objects :: "(u64, 'o stored_object) omap"
  ss_used :: nat
  ss_closed :: bool

record 'o domain_env =
  de_utf8 :: "string \<Rightarrow> bool"
  de_class :: "'o object_class"
  de_registry :: "'o class_registry"

type_synonym 'o reply = "(outcome \<times> identifier_source \<times> 'o session_store) option"

definition page_byte_budget :: nat where
  "page_byte_budget = max_payload_bytes div 2"

fun widen_classes_page :: "classes_page domain_result \<Rightarrow> outcome" where
  "widen_classes_page (Inl e) = Remote_error e"
| "widen_classes_page (Inr page) = Classes_page page"

fun state_charge_from :: "nat \<Rightarrow> named_value list \<Rightarrow> nat" where
  "state_charge_from charge [] = charge"
| "state_charge_from charge (field # state) =
     state_charge_from (charge + (record_charge + length (nv_name field) + value_bytes (nv_data field))) state"

definition state_charge :: "named_value list \<Rightarrow> nat" where
  "state_charge state = state_charge_from 0 state"

definition state_matches :: "(string \<Rightarrow> bool) \<Rightarrow> 'o class_definition \<Rightarrow> named_value list \<Rightarrow> bool" where
  "state_matches utf8 d state =
     (if length state \<noteq> length (cd_attributes (df_description d)) \<or> \<not> valid_named_values utf8 state
      then False
      else if \<not> list_all (\<lambda>attribute. case List.find (\<lambda>field. nv_name field = at_name attribute) state of
                  None \<Rightarrow> False
                | Some found \<Rightarrow> kind_of (nv_data found) = at_kind attribute)
                (cd_attributes (df_description d))
      then False
      else state_charge state \<le> df_max_state_bytes d)"

definition session_store_init :: "session_limits \<Rightarrow> 'o session_store" where
  "session_store_init limits =
     \<lparr>ss_limits = \<lparr>lim_values = min (lim_values limits) max_stored_values,
                   lim_objects = min (lim_objects limits) max_stored_objects,
                   lim_bytes = min (lim_bytes limits) max_session_bytes\<rparr>,
      ss_values = [], ss_objects = [], ss_used = 0, ss_closed = False\<rparr>"

definition store_close :: "'o session_store \<Rightarrow> 'o session_store" where
  "store_close st = st\<lparr>ss_objects := [], ss_values := [], ss_used := 0, ss_closed := True\<rparr>"

definition accounted_bytes :: "'o session_store \<Rightarrow> nat" where
  "accounted_bytes st = ss_used st"

subsection \<open>Operations\<close>

definition apply_list_classes :: "'o domain_env \<Rightarrow> string \<Rightarrow> u32 \<Rightarrow> outcome option" where
  "apply_list_classes env after limit =
     map_option widen_classes_page (registry_list (de_registry env) after limit)"

definition apply_describe_class :: "'o domain_env \<Rightarrow> string \<Rightarrow> outcome" where
  "apply_describe_class env name =
     (if \<not> valid_name name False then Remote_error (make_error EC_invalid_request)
      else case registry_find (de_registry env) name of
        None \<Rightarrow> Remote_error (make_error EC_not_found)
      | Some d \<Rightarrow> Class_description (df_description d))"

definition apply_put_value ::
  "'o domain_env \<Rightarrow> identifier_source \<Rightarrow> 'o session_store \<Rightarrow> value_t \<Rightarrow>
   outcome \<times> identifier_source \<times> 'o session_store" where
  "apply_put_value env ids st v =
     (if \<not> valid_value (de_utf8 env) v then (Remote_error (make_error EC_invalid_request), ids, st)
      else let charge = record_charge + value_bytes v in
        if length (ss_values st) \<ge> lim_values (ss_limits st) \<or>
           charge > size_sub (lim_bytes (ss_limits st)) (ss_used st)
        then (Remote_error (make_error EC_quota_exceeded), ids, st)
        else case identifier_next ids of
          (None, ids') \<Rightarrow> (Remote_error (make_error EC_quota_exceeded), ids', st)
        | (Some i, ids') \<Rightarrow>
            (Value_record \<lparr>vr_id = i, vr_data = v\<rparr>, ids',
             st\<lparr>ss_values := om_emplace i v (ss_values st), ss_used := ss_used st + charge\<rparr>))"

definition apply_get_value :: "'o session_store \<Rightarrow> u64 \<Rightarrow> outcome" where
  "apply_get_value st i =
     (if i = 0 then Remote_error (make_error EC_invalid_request)
      else case om_find (ss_values st) i of
        None \<Rightarrow> Remote_error (make_error EC_not_found)
      | Some v \<Rightarrow> Value_record \<lparr>vr_id = i, vr_data = v\<rparr>)"

fun page_values ::
  "nat \<Rightarrow> value_record list \<Rightarrow> nat \<Rightarrow> (u64 \<times> value_t) list \<Rightarrow>
   value_record list \<times> (u64 \<times> value_t) list" where
  "page_values limit page bytes [] = (page, [])"
| "page_values limit page bytes ((i, v) # items) =
     (if length page < limit then
        let charge = record_charge + value_bytes v in
        if charge > size_sub page_byte_budget bytes then (page, (i, v) # items)
        else page_values limit (page @ [\<lparr>vr_id = i, vr_data = v\<rparr>]) (bytes + charge) items
      else (page, (i, v) # items))"

definition apply_list_values :: "'o session_store \<Rightarrow> u64 \<Rightarrow> u32 \<Rightarrow> outcome option" where
  "apply_list_values st after limit =
     (if \<not> valid_page_size limit then Some (Remote_error (make_error EC_invalid_request))
      else let (page, rest) = page_values (unat limit) [] 0 (om_upper_bound after (ss_values st))
           in if rest = [] then Some (Values_page \<lparr>vp_values = page, vp_next = 0\<rparr>)
              else map_option (\<lambda>l. Values_page \<lparr>vp_values = page, vp_next = vr_id l\<rparr>) (vector_back page))"

definition apply_create_object ::
  "'o domain_env \<Rightarrow> identifier_source \<Rightarrow> 'o session_store \<Rightarrow> string \<Rightarrow> named_value list \<Rightarrow> 'o reply" where
  "apply_create_object env ids st name args =
     (if \<not> valid_name name False then Some (Remote_error (make_error EC_invalid_request), ids, st)
      else case registry_find (de_registry env) name of
        None \<Rightarrow> Some (Remote_error (make_error EC_not_found), ids, st)
      | Some d \<Rightarrow>
        if \<not> valid_arguments (de_utf8 env) args (cd_constructor_parameters (df_description d))
        then Some (Remote_error (make_error EC_invalid_request), ids, st)
        else if length (ss_objects st) \<ge> lim_objects (ss_limits st)
        then Some (Remote_error (make_error EC_quota_exceeded), ids, st)
        else case df_create d of
          None \<Rightarrow> None
        | Some create \<Rightarrow>
          case create args of
            Inl e \<Rightarrow> Some (Remote_error (make_error (re_code e)), ids, st)
          | Inr None \<Rightarrow> Some (Remote_error (make_error EC_internal_failure), ids, st)
          | Inr (Some inst) \<Rightarrow>
            let state = oc_state (de_class env) inst in
            if \<not> state_matches (de_utf8 env) d state
            then Some (Remote_error (make_error EC_internal_failure), ids, st)
            else let charge = record_charge + length name + state_charge state in
              if charge > size_sub (lim_bytes (ss_limits st)) (ss_used st)
              then Some (Remote_error (make_error EC_quota_exceeded), ids, st)
              else case identifier_next ids of
                (None, ids') \<Rightarrow> Some (Remote_error (make_error EC_quota_exceeded), ids', st)
              | (Some i, ids') \<Rightarrow>
                Some (Object_snapshot \<lparr>os_id = i, os_class_name = name, os_state = state\<rparr>, ids',
                      st\<lparr>ss_objects := om_emplace i
                           \<lparr>so_definition = d, so_instance = inst, so_charge = charge\<rparr> (ss_objects st),
                         ss_used := ss_used st + charge\<rparr>))"

definition apply_get_object :: "'o domain_env \<Rightarrow> 'o session_store \<Rightarrow> u64 \<Rightarrow> outcome" where
  "apply_get_object env st i =
     (if i = 0 then Remote_error (make_error EC_invalid_request)
      else case om_find (ss_objects st) i of
        None \<Rightarrow> Remote_error (make_error EC_not_found)
      | Some entry \<Rightarrow>
        let state = oc_state (de_class env) (so_instance entry) in
        if \<not> state_matches (de_utf8 env) (so_definition entry) state
        then Remote_error (make_error EC_internal_failure)
        else Object_snapshot \<lparr>os_id = i, os_class_name = df_name (so_definition entry), os_state = state\<rparr>)"

definition apply_release_object :: "'o session_store \<Rightarrow> u64 \<Rightarrow> outcome \<times> 'o session_store" where
  "apply_release_object st i =
     (if i = 0 then (Remote_error (make_error EC_invalid_request), st)
      else case om_find (ss_objects st) i of
        None \<Rightarrow> (Remote_error (make_error EC_not_found), st)
      | Some entry \<Rightarrow>
        (Released, st\<lparr>ss_used := size_sub (ss_used st) (so_charge entry),
                      ss_objects := om_erase i (ss_objects st)\<rparr>))"

text \<open>
  \<open>std::get<object_snapshot>\<close> throws on any other alternative.
\<close>

definition apply_get_attribute :: "'o domain_env \<Rightarrow> 'o session_store \<Rightarrow> u64 \<Rightarrow> string \<Rightarrow> outcome option" where
  "apply_get_attribute env st i name =
     (if \<not> valid_name name False then Some (Remote_error (make_error EC_invalid_request))
      else case apply_get_object env st i of
        Remote_error e \<Rightarrow> Some (Remote_error e)
      | Object_snapshot snapshot \<Rightarrow>
        (case List.find (\<lambda>field. nv_name field = name) (os_state snapshot) of
           None \<Rightarrow> Some (Remote_error (make_error EC_not_found))
         | Some found \<Rightarrow> Some (Value (nv_data found)))
      | _ \<Rightarrow> None)"

definition apply_invoke_method ::
  "'o domain_env \<Rightarrow> 'o session_store \<Rightarrow> u64 \<Rightarrow> string \<Rightarrow> named_value list \<Rightarrow> outcome \<times> 'o session_store" where
  "apply_invoke_method env st i name args =
     (if i = 0 \<or> \<not> valid_name name False then (Remote_error (make_error EC_invalid_request), st)
      else case om_find (ss_objects st) i of
        None \<Rightarrow> (Remote_error (make_error EC_not_found), st)
      | Some entry \<Rightarrow>
        let description = df_description (so_definition entry) in
        case List.find (\<lambda>m. mt_name m = name) (cd_methods description) of
          None \<Rightarrow> (Remote_error (make_error EC_not_found), st)
        | Some meth \<Rightarrow>
          if \<not> valid_arguments (de_utf8 env) args (mt_parameters meth)
          then (Remote_error (make_error EC_invalid_request), st)
          else case oc_clone (de_class env) (so_instance entry) of
            None \<Rightarrow> (Remote_error (make_error EC_internal_failure), st)
          | Some copy \<Rightarrow>
            case oc_invoke (de_class env) copy name args of
              (candidate, Inl e) \<Rightarrow> (Remote_error (make_error (re_code e)), st)
            | (candidate, Inr v) \<Rightarrow>
              let state = oc_state (de_class env) candidate in
              if \<not> valid_value (de_utf8 env) v \<or> kind_of v \<noteq> mt_result_kind meth \<or>
                 \<not> state_matches (de_utf8 env) (so_definition entry) state
              then (Remote_error (make_error EC_internal_failure), st)
              else let charge = record_charge + length (cd_name description) + state_charge state;
                       retained = size_sub (ss_used st) (so_charge entry) in
                if charge > size_sub (lim_bytes (ss_limits st)) retained
                then (Remote_error (make_error EC_quota_exceeded), st)
                else (Value v,
                      st\<lparr>ss_objects := om_assign i (entry\<lparr>so_instance := candidate, so_charge := charge\<rparr>)
                           (ss_objects st),
                         ss_used := retained + charge\<rparr>))"

definition execute ::
  "'o domain_env \<Rightarrow> identifier_source \<Rightarrow> 'o session_store \<Rightarrow> operation \<Rightarrow> 'o reply" where
  "execute env ids st oper =
     (if ss_closed st then Some (Remote_error (make_error EC_access_denied), ids, st)
      else case oper of
        List_classes after limit \<Rightarrow> map_option (\<lambda>r. (r, ids, st)) (apply_list_classes env after limit)
      | Describe_class name \<Rightarrow> Some (apply_describe_class env name, ids, st)
      | Put_value v \<Rightarrow> Some (apply_put_value env ids st v)
      | Get_value i \<Rightarrow> Some (apply_get_value st i, ids, st)
      | List_values after limit \<Rightarrow> map_option (\<lambda>r. (r, ids, st)) (apply_list_values st after limit)
      | Create_object name args \<Rightarrow> apply_create_object env ids st name args
      | Get_object i \<Rightarrow> Some (apply_get_object env st i, ids, st)
      | Release_object i \<Rightarrow> (case apply_release_object st i of (r, st') \<Rightarrow> Some (r, ids, st'))
      | Get_attribute i name \<Rightarrow> map_option (\<lambda>r. (r, ids, st)) (apply_get_attribute env st i name)
      | Invoke_method i name args \<Rightarrow>
          (case apply_invoke_method env st i name args of (r, st') \<Rightarrow> Some (r, ids, st')))"

end
