(* ===== verification/Store_Invariant.thy ===== *)
theory Store_Invariant
  imports Store
begin

section \<open>The session store: specification, refinement and invariant\<close>

text \<open>
  The relation \<open>transition\<close> is what a session store promises: four ways an operation may change
  the repositories (store a value, create an object, release one, publish the result of a method
  call), each with the guard under which it may, and otherwise no change at all. The lemma
  \<open>execute_transition\<close> shows that the code of \<open>execute\<close> refines it in every state that satisfies
  the invariant \<open>store_ok\<close>; the invariant, atomicity and quota properties are then proved by
  cases on \<open>transition\<close> and never look at the code again.
\<close>

definition value_charge :: "u64 \<times> value_t \<Rightarrow> nat" where
  "value_charge e = record_charge + value_bytes (snd e)"

definition object_charge :: "'o domain_env \<Rightarrow> 'o class_definition \<Rightarrow> 'o \<Rightarrow> nat" where
  "object_charge env d inst = record_charge + length (df_name d) + state_charge (oc_state (de_class env) inst)"

definition charges :: "'o session_store \<Rightarrow> nat" where
  "charges st = sum_list (map value_charge (ss_values st)) +
     sum_list (map (\<lambda>e. so_charge (snd e)) (ss_objects st))"

definition issued :: "identifier_source \<Rightarrow> u64 \<Rightarrow> bool" where
  "issued ids i \<longleftrightarrow> i \<noteq> 0 \<and> (ids = 0 \<or> i < ids)"

definition object_ok :: "'o domain_env \<Rightarrow> 'o stored_object \<Rightarrow> bool" where
  "object_ok env entry \<longleftrightarrow>
     registry_find (de_registry env) (df_name (so_definition entry)) = Some (so_definition entry) \<and>
     state_matches (de_utf8 env) (so_definition entry) (oc_state (de_class env) (so_instance entry)) \<and>
     so_charge entry = object_charge env (so_definition entry) (so_instance entry)"

definition limits_ok :: "session_limits \<Rightarrow> bool" where
  "limits_ok l \<longleftrightarrow> lim_values l \<le> max_stored_values \<and> lim_objects l \<le> max_stored_objects \<and>
     lim_bytes l \<le> max_session_bytes"

definition quota_ok :: "'o session_store \<Rightarrow> bool" where
  "quota_ok st \<longleftrightarrow> limits_ok (ss_limits st) \<and> length (ss_values st) \<le> lim_values (ss_limits st) \<and>
     length (ss_objects st) \<le> lim_objects (ss_limits st) \<and>
     ss_used st = charges st \<and> ss_used st \<le> lim_bytes (ss_limits st)"

definition keys_ok :: "identifier_source \<Rightarrow> 'o session_store \<Rightarrow> bool" where
  "keys_ok ids st \<longleftrightarrow> om_ok (ss_values st) \<and> om_ok (ss_objects st) \<and>
     (\<forall>i \<in> fst ` set (ss_values st) \<union> fst ` set (ss_objects st). issued ids i) \<and>
     fst ` set (ss_values st) \<inter> fst ` set (ss_objects st) = {}"

definition contents_ok :: "'o domain_env \<Rightarrow> 'o session_store \<Rightarrow> bool" where
  "contents_ok env st \<longleftrightarrow> (\<forall>e \<in> set (ss_values st). valid_value (de_utf8 env) (snd e)) \<and>
     (\<forall>e \<in> set (ss_objects st). object_ok env (snd e))"

definition store_ok :: "'o domain_env \<Rightarrow> identifier_source \<Rightarrow> 'o session_store \<Rightarrow> bool" where
  "store_ok env ids st \<longleftrightarrow> quota_ok st \<and> keys_ok ids st \<and> contents_ok env st \<and>
     (ss_closed st \<longrightarrow> ss_values st = [] \<and> ss_objects st = [])"

subsection \<open>The specification\<close>

fun is_error :: "outcome \<Rightarrow> bool" where
  "is_error (Remote_error e) = True"
| "is_error _ = False"

fun read_only :: "operation \<Rightarrow> bool" where
  "read_only (Put_value v) = False"
| "read_only (Create_object name args) = False"
| "read_only (Release_object i) = False"
| "read_only (Invoke_method i name args) = False"
| "read_only _ = True"

inductive transition ::
  "'o domain_env \<Rightarrow> identifier_source \<Rightarrow> 'o session_store \<Rightarrow> operation \<Rightarrow>
   outcome \<Rightarrow> identifier_source \<Rightarrow> 'o session_store \<Rightarrow> bool"
  for env :: "'o domain_env" and ids :: identifier_source and st :: "'o session_store" where
  Unchanged: "is_error r \<or> read_only oper \<and> \<not> ss_closed st \<Longrightarrow> transition env ids st oper r ids st"
| Stored: "\<lbrakk>\<not> ss_closed st; valid_value (de_utf8 env) v; ids \<noteq> 0;
    length (ss_values st) < lim_values (ss_limits st);
    ss_used st + value_charge (ids, v) \<le> lim_bytes (ss_limits st)\<rbrakk> \<Longrightarrow>
    transition env ids st (Put_value v) (Value_record \<lparr>vr_id = ids, vr_data = v\<rparr>)
      (snd (identifier_next ids))
      (st\<lparr>ss_values := om_emplace ids v (ss_values st), ss_used := ss_used st + value_charge (ids, v)\<rparr>)"
| Created: "\<lbrakk>\<not> ss_closed st; registry_find (de_registry env) name = Some d; df_create d = Some create;
    valid_arguments (de_utf8 env) args (cd_constructor_parameters (df_description d));
    create args = Inr (Some inst); state_matches (de_utf8 env) d (oc_state (de_class env) inst); ids \<noteq> 0;
    length (ss_objects st) < lim_objects (ss_limits st);
    ss_used st + object_charge env d inst \<le> lim_bytes (ss_limits st)\<rbrakk> \<Longrightarrow>
    transition env ids st (Create_object name args)
      (Object_snapshot \<lparr>os_id = ids, os_class_name = name, os_state = oc_state (de_class env) inst\<rparr>)
      (snd (identifier_next ids))
      (st\<lparr>ss_objects := om_emplace ids
            \<lparr>so_definition = d, so_instance = inst, so_charge = object_charge env d inst\<rparr> (ss_objects st),
          ss_used := ss_used st + object_charge env d inst\<rparr>)"
| Freed: "\<lbrakk>\<not> ss_closed st; om_find (ss_objects st) i = Some entry\<rbrakk> \<Longrightarrow>
    transition env ids st (Release_object i) Released ids
      (st\<lparr>ss_used := ss_used st - so_charge entry, ss_objects := om_erase i (ss_objects st)\<rparr>)"
| Invoked: "\<lbrakk>\<not> ss_closed st; om_find (ss_objects st) i = Some entry;
    List.find (\<lambda>m. mt_name m = name) (cd_methods (df_description (so_definition entry))) = Some meth;
    valid_arguments (de_utf8 env) args (mt_parameters meth);
    oc_clone (de_class env) (so_instance entry) = Some copy;
    oc_invoke (de_class env) copy name args = (inst, Inr v);
    valid_value (de_utf8 env) v; kind_of v = mt_result_kind meth;
    state_matches (de_utf8 env) (so_definition entry) (oc_state (de_class env) inst);
    ss_used st - so_charge entry + object_charge env (so_definition entry) inst \<le> lim_bytes (ss_limits st)\<rbrakk> \<Longrightarrow>
    transition env ids st (Invoke_method i name args) (Value v) ids
      (st\<lparr>ss_objects := om_assign i
            (entry\<lparr>so_instance := inst, so_charge := object_charge env (so_definition entry) inst\<rparr>)
            (ss_objects st),
          ss_used := ss_used st - so_charge entry + object_charge env (so_definition entry) inst\<rparr>)"

subsection \<open>The code refines it\<close>

lemma identifier_next_cases:
  "identifier_next ids = (if ids = 0 then (None, 0) else (Some ids, snd (identifier_next ids)))"
  by (simp add: identifier_next_def)

lemma put_value_transition:
  assumes "quota_ok st" and "\<not> ss_closed st" and "apply_put_value env ids st v = (r, ids', st')"
  shows "transition env ids st (Put_value v) r ids' st'"
proof (cases "is_error r")
  case True
  then have "ids' = ids \<and> st' = st"
    using assms(3) by (auto simp: apply_put_value_def identifier_next_def Let_def split: if_splits)
  then show ?thesis using True by (simp add: transition.Unchanged)
next
  case False
  have u: "size_sub (lim_bytes (ss_limits st)) (ss_used st) = lim_bytes (ss_limits st) - ss_used st"
    using assms(1) by (simp add: quota_ok_def)
  have "valid_value (de_utf8 env) v" "ids \<noteq> 0" "length (ss_values st) < lim_values (ss_limits st)"
    "ss_used st + value_charge (ids, v) \<le> lim_bytes (ss_limits st)"
    "r = Value_record \<lparr>vr_id = ids, vr_data = v\<rparr>" "ids' = snd (identifier_next ids)"
    "st' = st\<lparr>ss_values := om_emplace ids v (ss_values st), ss_used := ss_used st + value_charge (ids, v)\<rparr>"
    using assms False
    by (auto simp: apply_put_value_def identifier_next_def value_charge_def u quota_ok_def Let_def split: if_splits)
  then show ?thesis using assms(2) by (simp only:) (rule transition.Stored)
qed

lemma so_charge_le_used:
  assumes "quota_ok st" and "om_ok (ss_objects st)" and "om_find (ss_objects st) i = Some entry"
  shows "so_charge entry \<le> ss_used st"
  using assms om.sum_erase[of "ss_objects st" i entry "\<lambda>e. so_charge (snd e)"]
  by (simp add: quota_ok_def charges_def)

lemma create_object_transition:
  assumes "quota_ok st" and "\<not> ss_closed st" and ok: "registry_ok (de_registry env)"
    and "apply_create_object env ids st name args = Some (r, ids', st')"
  shows "transition env ids st (Create_object name args) r ids' st'"
proof (cases "is_error r")
  case True
  then have "ids' = ids \<and> st' = st"
    using assms(4) by (auto simp: apply_create_object_def identifier_next_def Let_def
        split: if_splits option.splits sum.splits)
  then show ?thesis using True by (simp add: transition.Unchanged)
next
  case False
  have u: "size_sub (lim_bytes (ss_limits st)) (ss_used st) = lim_bytes (ss_limits st) - ss_used st"
    using assms(1) by (simp add: quota_ok_def)
  obtain d where d: "registry_find (de_registry env) name = Some d"
    using assms(4) False by (cases "registry_find (de_registry env) name")
      (auto simp: apply_create_object_def split: if_splits)
  obtain create where create: "df_create d = Some create"
    using registry_find_ok[OF ok d] by (auto simp: definition_ok_def)
  obtain inst where inst: "create args = Inr (Some inst)"
    using assms(4) False d create
    by (auto simp: apply_create_object_def split: if_splits sum.splits option.splits)
  have *: "valid_arguments (de_utf8 env) args (cd_constructor_parameters (df_description d))"
    "state_matches (de_utf8 env) d (oc_state (de_class env) inst)" "ids \<noteq> 0"
    "length (ss_objects st) < lim_objects (ss_limits st)"
    "record_charge + length name + state_charge (oc_state (de_class env) inst)
       \<le> size_sub (lim_bytes (ss_limits st)) (ss_used st)"
    "r = Object_snapshot \<lparr>os_id = ids, os_class_name = name, os_state = oc_state (de_class env) inst\<rparr>"
    "ids' = snd (identifier_next ids)"
    "st' = st\<lparr>ss_objects := om_emplace ids \<lparr>so_definition = d, so_instance = inst,
        so_charge = record_charge + length name + state_charge (oc_state (de_class env) inst)\<rparr> (ss_objects st),
        ss_used := ss_used st + (record_charge + length name + state_charge (oc_state (de_class env) inst))\<rparr>"
    using assms(4) False
    by (simp_all add: apply_create_object_def d create inst identifier_next_def Let_def not_le not_less
        split: if_splits) force+
  have c: "record_charge + length name + state_charge (oc_state (de_class env) inst) = object_charge env d inst"
    using registry_find_ok[OF ok d] by (simp add: object_charge_def)
  have "ss_used st \<le> lim_bytes (ss_limits st)"
    using assms(1) by (simp add: quota_ok_def)
  then have b: "ss_used st + object_charge env d inst \<le> lim_bytes (ss_limits st)"
    using *(5) unfolding c u by linarith
  show ?thesis
    unfolding *(6-8) c by (rule transition.Created[OF assms(2) d create *(1) inst *(2-4) b])
qed

lemma release_object_transition:
  assumes "quota_ok st" and "keys_ok ids st" and "\<not> ss_closed st"
    and released: "apply_release_object st i = (r, st')"
  shows "transition env ids st (Release_object i) r ids st'"
proof (cases "i = 0 \<or> om_find (ss_objects st) i = None")
  case True
  then have "is_error r" "st' = st"
    using released by (auto simp: apply_release_object_def split: if_splits)
  then show ?thesis by (simp add: transition.Unchanged)
next
  case False
  then obtain entry where e: "om_find (ss_objects st) i = Some entry" and "i \<noteq> 0"
    by blast
  have "so_charge entry \<le> ss_used st"
    using so_charge_le_used[OF assms(1) _ e] assms(2) by (simp add: keys_ok_def)
  then have "r = Released"
    "st' = st\<lparr>ss_used := ss_used st - so_charge entry, ss_objects := om_erase i (ss_objects st)\<rparr>"
    using released \<open>i \<noteq> 0\<close> by (simp_all add: apply_release_object_def e)
  then show ?thesis
    by (simp only:) (rule transition.Freed[OF assms(3) e])
qed

lemma invoke_method_transition:
  assumes "quota_ok st" and "keys_ok ids st" and "\<not> ss_closed st"
    and "apply_invoke_method env st i name args = (r, st')"
  shows "transition env ids st (Invoke_method i name args) r ids st'"
proof (cases "is_error r")
  case True
  then have "st' = st"
    using assms(4) by (auto simp: apply_invoke_method_def Let_def
        split: if_splits option.splits prod.splits sum.splits)
  then show ?thesis using True by (simp add: transition.Unchanged)
next
  case False
  obtain entry where e: "om_find (ss_objects st) i = Some entry"
    using assms(4) False by (cases "om_find (ss_objects st) i")
      (auto simp: apply_invoke_method_def split: if_splits)
  define d where "d = so_definition entry"
  obtain meth where m: "List.find (\<lambda>m. mt_name m = name) (cd_methods (df_description d)) = Some meth"
    using assms(4) False e by (cases "List.find (\<lambda>m. mt_name m = name) (cd_methods (df_description d))")
      (auto simp: apply_invoke_method_def d_def split: if_splits)
  obtain copy where c: "oc_clone (de_class env) (so_instance entry) = Some copy"
    using assms(4) False e m by (cases "oc_clone (de_class env) (so_instance entry)")
      (auto simp: apply_invoke_method_def d_def split: if_splits)
  obtain inst v where iv: "oc_invoke (de_class env) copy name args = (inst, Inr v)"
    using assms(4) False e m c by (cases "oc_invoke (de_class env) copy name args")
      (auto simp: apply_invoke_method_def d_def split: if_splits sum.splits)
  have *: "valid_arguments (de_utf8 env) args (mt_parameters meth)"
    "valid_value (de_utf8 env) v" "kind_of v = mt_result_kind meth"
    "state_matches (de_utf8 env) d (oc_state (de_class env) inst)"
    "object_charge env d inst \<le>
       size_sub (lim_bytes (ss_limits st)) (size_sub (ss_used st) (so_charge entry))"
    "r = Value v"
    "st' = st\<lparr>ss_objects := om_assign i (entry\<lparr>so_instance := inst, so_charge := object_charge env d inst\<rparr>)
        (ss_objects st), ss_used := size_sub (ss_used st) (so_charge entry) + object_charge env d inst\<rparr>"
    using assms(4) False
    by (simp_all add: apply_invoke_method_def e m[unfolded d_def] c iv object_charge_def d_def Let_def not_less
        split: if_splits) force+
  have le: "so_charge entry \<le> ss_used st" "ss_used st \<le> lim_bytes (ss_limits st)"
    using so_charge_le_used[OF assms(1) _ e] assms(1,2) by (simp_all add: keys_ok_def quota_ok_def)
  have b: "ss_used st - so_charge entry + object_charge env d inst \<le> lim_bytes (ss_limits st)"
    using *(5) le by simp
  show ?thesis
    unfolding *(6,7) using transition.Invoked[OF assms(3) e m[unfolded d_def] *(1) c iv *(2-3)
        *(4)[unfolded d_def] b[unfolded d_def]] le by (simp add: d_def)
qed

lemma execute_transition:
  assumes "registry_ok (de_registry env)" and "store_ok env ids st"
    and "execute env ids st oper = Some (r, ids', st')"
  shows "transition env ids st oper r ids' st'"
proof (cases "ss_closed st")
  case True
  then show ?thesis using assms(3) by (auto simp: execute_def intro: transition.Unchanged)
next
  case False
  note ok = assms(2)[unfolded store_ok_def]
  show ?thesis
    using assms(3) False ok
    by (cases oper) (auto simp: execute_def intro!: transition.Unchanged
        intro: put_value_transition create_object_transition[OF _ _ assms(1)]
          release_object_transition invoke_method_transition split: prod.splits)
qed

subsection \<open>Identifiers already handed out\<close>

lemma not_issued_next: "ids \<noteq> 0 \<Longrightarrow> \<not> issued ids ids"
  by (simp add: issued_def)

lemma issued_next: "issued (snd (identifier_next ids)) i \<longleftrightarrow> issued ids i \<or> i = ids \<and> ids \<noteq> 0"
proof (cases "ids = 0")
  case True
  then show ?thesis by (simp add: identifier_next_def issued_def)
next
  case False
  have le: "i \<le> max_u64" for i :: u64
    by (simp add: max_u64_minus)
  show ?thesis
  proof (cases "snd (identifier_next ids) = 0")
    case True
    then have "ids = max_u64"
      using identifier_next_step(2)[OF False] by simp
    then show ?thesis
      using True False le[of i] by (auto simp: issued_def order.order_iff_strict)
  next
    case nz: False
    then have "unat (snd (identifier_next ids)) = Suc (unat ids)"
      by (rule identifier_next_step(3)[OF False])
    then show ?thesis
      using nz False
      by (auto simp: issued_def word_less_nat_alt less_Suc_eq word_unat_eq_iff)
  qed
qed

lemma keys_ok_issued:
  "keys_ok ids st \<Longrightarrow> (\<And>i. issued ids i \<Longrightarrow> issued ids' i) \<Longrightarrow> keys_ok ids' st"
  by (auto simp: keys_ok_def)

lemma keys_ok_fresh:
  assumes "keys_ok ids st" and "ids \<noteq> 0"
  shows "om_find (ss_values st) ids = None" "om_find (ss_objects st) ids = None"
    "ids \<notin> fst ` set (ss_values st)" "ids \<notin> fst ` set (ss_objects st)"
proof -
  have "\<not> issued ids ids" and ok: "om_ok (ss_values st)" "om_ok (ss_objects st)"
    using assms not_issued_next by (auto simp: keys_ok_def)
  then show "ids \<notin> fst ` set (ss_values st)" "ids \<notin> fst ` set (ss_objects st)"
    using assms(1) unfolding keys_ok_def by blast+
  then show "om_find (ss_values st) ids = None" "om_find (ss_objects st) ids = None"
    by (simp_all only: om.find_None_iff[OF ok(1)] om.find_None_iff[OF ok(2)] not_False_eq_True)
qed

subsection \<open>The invariant is preserved\<close>

lemma fst_set_erase: "fst ` set (om_erase k m) = fst ` set m - {k}"
  by (auto simp: om_erase_def image_iff)

lemma fst_set_assign: "fst ` set (om_assign k v m) = fst ` set m"
  by (force simp: om_assign_def)

lemma transition_keys_ok:
  assumes "transition env ids st oper r ids' st'" and "keys_ok ids st"
  shows "keys_ok ids' st'"
  using assms
proof cases
  case (Stored v)
  note fresh = keys_ok_fresh[OF assms(2) Stored(7)]
  show ?thesis
    using assms(2) fresh(4) Stored(7) unfolding Stored(3,4)
    by (auto simp: keys_ok_def om_ok_emplace fst_set_emplace issued_next)
next
  case (Created name d create args inst)
  note fresh = keys_ok_fresh[OF assms(2) Created(11)]
  show ?thesis
    using assms(2) fresh(3) Created(11) unfolding Created(3,4)
    by (auto simp: keys_ok_def om_ok_emplace fst_set_emplace issued_next)
next
  case (Freed i entry)
  then show ?thesis
    using assms(2) by (auto simp: keys_ok_def om_ok_erase fst_set_erase)
next
  case (Invoked i entry name meth args copy inst v)
  then show ?thesis
    using assms(2) by (auto simp: keys_ok_def om_ok_assign fst_set_assign)
qed (use assms(2) in simp)

lemma transition_contents_ok:
  assumes "transition env ids st oper r ids' st'" and "registry_ok (de_registry env)"
    and "keys_ok ids st" and "contents_ok env st"
  shows "contents_ok env st'"
  using assms(1)
proof cases
  case (Stored v)
  have "om_ok (ss_values st)"
    using assms(3) by (simp add: keys_ok_def)
  then show ?thesis
    using assms(4) keys_ok_fresh(1)[OF assms(3) Stored(7)] Stored(6) unfolding Stored(4)
    by (simp add: contents_ok_def om.set_entries_emplace)
next
  case (Created name d create args inst)
  have "om_ok (ss_objects st)"
    using assms(3) by (simp add: keys_ok_def)
  moreover have "object_ok env \<lparr>so_definition = d, so_instance = inst, so_charge = object_charge env d inst\<rparr>"
    using Created(6,10) registry_find_ok[OF assms(2) Created(6)] by (simp add: object_ok_def)
  ultimately show ?thesis
    using assms(4) keys_ok_fresh(2)[OF assms(3) Created(11)] unfolding Created(4)
    by (simp add: contents_ok_def om.set_entries_emplace)
next
  case (Freed i entry)
  then show ?thesis
    using assms(4) by (auto simp: contents_ok_def om_erase_def)
next
  case (Invoked i entry name meth args copy inst v)
  have ok: "om_ok (ss_objects st)"
    using assms(3) by (simp add: keys_ok_def)
  have "object_ok env entry"
    using assms(4) om.find_Some_iff[OF ok] Invoked(6) by (force simp: contents_ok_def)
  then have "object_ok env (entry\<lparr>so_instance := inst, so_charge := object_charge env (so_definition entry) inst\<rparr>)"
    using Invoked(13) by (simp add: object_ok_def)
  then show ?thesis
    using assms(4) om.set_entries_assign[OF ok Invoked(6)] unfolding Invoked(4)
    by (simp add: contents_ok_def)
qed (use assms(4) in simp)

lemma transition_quota_ok:
  assumes "transition env ids st oper r ids' st'" and "keys_ok ids st" and "quota_ok st"
  shows "quota_ok st'"
  using assms(1)
proof cases
  case (Stored v)
  have "om_ok (ss_values st)"
    using assms(2) by (simp add: keys_ok_def)
  then show ?thesis
    using assms(3) keys_ok_fresh(1)[OF assms(2) Stored(7)] Stored unfolding Stored(4)
    by (simp add: quota_ok_def charges_def om.sum_emplace om.length_emplace)
next
  case (Created name d create args inst)
  have "om_ok (ss_objects st)"
    using assms(2) by (simp add: keys_ok_def)
  then show ?thesis
    using assms(3) keys_ok_fresh(2)[OF assms(2) Created(11)] Created(12,13) unfolding Created(4)
    by (simp add: quota_ok_def charges_def om.sum_emplace om.length_emplace)
next
  case (Freed i entry)
  have "om_ok (ss_objects st)"
    using assms(2) by (simp add: keys_ok_def)
  then show ?thesis
    using assms(3) om.sum_erase[OF _ Freed(6), of "\<lambda>e. so_charge (snd e)"] om.length_erase[OF _ Freed(6)]
    unfolding Freed(4) by (simp add: quota_ok_def charges_def)
next
  case (Invoked i entry name meth args copy inst v)
  have ok: "om_ok (ss_objects st)"
    using assms(2) by (simp add: keys_ok_def)
  have "so_charge entry \<le> ss_used st"
    by (rule so_charge_le_used[OF assms(3) ok Invoked(6)])
  moreover define new where
    "new = entry\<lparr>so_instance := inst, so_charge := object_charge env (so_definition entry) inst\<rparr>"
  moreover have "so_charge entry + (\<Sum>e\<leftarrow>om_assign i new (ss_objects st). so_charge (snd e)) =
      object_charge env (so_definition entry) inst + (\<Sum>e\<leftarrow>ss_objects st. so_charge (snd e))"
    using om.sum_assign[OF ok Invoked(6), of "\<lambda>e. so_charge (snd e)" new] by (simp add: new_def)
  ultimately show ?thesis
    using assms(3) Invoked(14) om.length_assign[OF ok Invoked(6), of new]
    unfolding Invoked(4) new_def[symmetric] by (simp add: quota_ok_def charges_def)
qed (use assms(3) in simp)

lemma transition_closed: "transition env ids st oper r ids' st' \<Longrightarrow> ss_closed st' = ss_closed st"
  by (cases rule: transition.cases) auto

lemma transition_error: "transition env ids st oper r ids' st' \<Longrightarrow> is_error r \<Longrightarrow> ids' = ids \<and> st' = st"
  by (cases rule: transition.cases) auto

lemma transition_while_closed: "transition env ids st oper r ids' st' \<Longrightarrow> ss_closed st \<Longrightarrow> st' = st"
  by (cases rule: transition.cases) auto

lemma transition_issued: "transition env ids st oper r ids' st' \<Longrightarrow> issued ids i \<Longrightarrow> issued ids' i"
  by (cases rule: transition.cases) (auto simp: issued_next)

lemma transition_store_ok:
  assumes "transition env ids st oper r ids' st'" and "registry_ok (de_registry env)"
    and "store_ok env ids st"
  shows "store_ok env ids' st'"
  using assms transition_keys_ok[OF assms(1)] transition_quota_ok[OF assms(1)]
    transition_contents_ok[OF assms(1,2)] transition_closed[OF assms(1)]
    transition_while_closed[OF assms(1)]
  unfolding store_ok_def by blast

lemma store_ok_issued:
  "store_ok env ids st \<Longrightarrow> (\<And>i. issued ids i \<Longrightarrow> issued ids' i) \<Longrightarrow> store_ok env ids' st"
  unfolding store_ok_def using keys_ok_issued by blast

lemma store_ok_init: "store_ok env ids (session_store_init limits)"
  by (simp add: store_ok_def session_store_init_def quota_ok_def limits_ok_def keys_ok_def
      contents_ok_def charges_def)

lemma store_ok_close: "store_ok env ids st \<Longrightarrow> store_ok env ids (store_close st)"
  by (simp add: store_ok_def store_close_def quota_ok_def keys_ok_def contents_ok_def charges_def)

end
