(* ===== verification/Object_Contract.thy ===== *)
theory Object_Contract
  imports Store_Behaviour
begin

section \<open>The contract of registered classes\<close>

text \<open>
  The comments of \<open>class object\<close> in \<open>include/pipeforge/domain.hpp\<close> state what a server may link:
  \<open>clone\<close> is never null and copies the state, \<open>state\<close> reports exactly the registered attributes,
  factories and methods report expected failures as data. The locale \<open>object_contract\<close> is that
  contract, and its lemmas show that a store over such classes never answers
  \<open>internal_failure\<close>; the built-in classes satisfy it.
\<close>

definition internal_failure :: "outcome \<Rightarrow> bool" where
  "internal_failure r \<longleftrightarrow> (case r of Remote_error e \<Rightarrow> re_code e = EC_internal_failure | _ \<Rightarrow> False)"

text \<open>
  \<open>make_error\<close> turns \<open>internal_failure\<close> and every code outside the enumeration into \<open>internal_failure\<close>.
\<close>

definition expected_code :: "error_code \<Rightarrow> bool" where
  "expected_code c \<longleftrightarrow> re_code (make_error c) \<noteq> EC_internal_failure"

lemma expected_codes [simp]:
  "expected_code EC_invalid_request" "expected_code EC_not_found" "expected_code EC_quota_exceeded"
  "expected_code EC_access_denied" "expected_code EC_numeric_overflow"
  "\<not> expected_code EC_internal_failure"
  by (simp_all add: expected_code_def make_error_def)

lemma internal_failure_simps [simp]:
  "internal_failure (Remote_error (make_error c)) \<longleftrightarrow> \<not> expected_code c"
  "\<not> internal_failure (Classes_page p)" "\<not> internal_failure (Class_description d)"
  "\<not> internal_failure (Value_record vr)" "\<not> internal_failure (Values_page vp)"
  "\<not> internal_failure (Object_snapshot s)" "\<not> internal_failure Released" "\<not> internal_failure (Value v)"
  by (simp_all add: internal_failure_def expected_code_def)

definition instances_ok :: "('o class_definition \<Rightarrow> 'o \<Rightarrow> bool) \<Rightarrow> 'o session_store \<Rightarrow> bool" where
  "instances_ok inst_of st \<longleftrightarrow>
     (\<forall>e \<in> set (ss_objects st). inst_of (so_definition (snd e)) (so_instance (snd e)))"

locale object_contract =
  fixes env :: "'o domain_env"
    and inst_of :: "'o class_definition \<Rightarrow> 'o \<Rightarrow> bool"
  assumes create_contract:
    "\<lbrakk>registry_find (de_registry env) n = Some d; df_create d = Some create;
      valid_arguments (de_utf8 env) args (cd_constructor_parameters (df_description d))\<rbrakk> \<Longrightarrow>
     (\<exists>inst. create args = Inr (Some inst) \<and> inst_of d inst) \<or>
     (\<exists>e. create args = Inl e \<and> expected_code (re_code e))"
    and state_contract: "inst_of d inst \<Longrightarrow> state_matches (de_utf8 env) d (oc_state (de_class env) inst)"
    and clone_contract: "inst_of d inst \<Longrightarrow>
      \<exists>copy. oc_clone (de_class env) inst = Some copy \<and> inst_of d copy"
    and invoke_contract:
    "\<lbrakk>inst_of d inst; List.find (\<lambda>m. mt_name m = n) (cd_methods (df_description d)) = Some meth;
      valid_arguments (de_utf8 env) args (mt_parameters meth);
      oc_invoke (de_class env) inst n args = (inst', res)\<rbrakk> \<Longrightarrow>
     (\<exists>v. res = Inr v \<and> inst_of d inst' \<and> valid_value (de_utf8 env) v \<and> kind_of v = mt_result_kind meth) \<or>
     (\<exists>e. res = Inl e \<and> expected_code (re_code e))"
begin

lemma instances_okD:
  "instances_ok inst_of st \<Longrightarrow> om_ok (ss_objects st) \<Longrightarrow> om_find (ss_objects st) i = Some entry \<Longrightarrow>
     inst_of (so_definition entry) (so_instance entry)"
  using om.find_Some_iff[of "ss_objects st" i entry] by (force simp: instances_ok_def)

lemma instances_ok_transition:
  assumes "transition env ids st oper r ids' st'" and "keys_ok ids st" and "instances_ok inst_of st"
  shows "instances_ok inst_of st'"
  using assms(1)
proof cases
  case (Created name d create args inst)
  have "inst_of d inst"
    using create_contract[OF Created(6,7,8)] Created(9) by simp
  moreover have "om_ok (ss_objects st)"
    using assms(2) by (simp add: keys_ok_def)
  ultimately show ?thesis
    using assms(3) keys_ok_fresh(2)[OF assms(2) Created(11)] unfolding Created(4)
    by (simp add: instances_ok_def om.set_entries_emplace)
next
  case (Invoked i entry name meth args copy inst v)
  have ok: "om_ok (ss_objects st)"
    using assms(2) by (simp add: keys_ok_def)
  have "inst_of (so_definition entry) copy"
    using clone_contract[OF instances_okD[OF assms(3) ok Invoked(6)]] Invoked(9) by simp
  then have "inst_of (so_definition entry) inst"
    using invoke_contract[OF _ Invoked(7,8,10)] by simp
  then show ?thesis
    using assms(3) om.set_entries_assign[OF ok Invoked(6)] unfolding Invoked(4)
    by (simp add: instances_ok_def)
qed (use assms(3) in \<open>auto simp: instances_ok_def om_erase_def\<close>)

lemma create_no_internal:
  assumes "registry_ok (de_registry env)" and "apply_create_object env ids st n args = Some (r, ids', st')"
  shows "\<not> internal_failure r"
proof (cases "registry_find (de_registry env) n")
  case (Some d)
  obtain create where c: "df_create d = Some create"
    using registry_find_ok[OF assms(1) Some] by (auto simp: definition_ok_def)
  show ?thesis
    using assms(2) create_contract[OF Some c, of args] state_contract[of d]
    by (auto simp: apply_create_object_def Some c Let_def split: if_splits prod.splits option.splits)
qed (use assms(2) in \<open>auto simp: apply_create_object_def split: if_splits\<close>)

lemma invoke_no_internal:
  assumes "om_ok (ss_objects st)" and "instances_ok inst_of st"
    and "apply_invoke_method env st i n args = (r, st')"
  shows "\<not> internal_failure r"
proof (cases "om_find (ss_objects st) i")
  case (Some entry)
  note inst = instances_okD[OF assms(2,1) Some]
  obtain copy where c: "oc_clone (de_class env) (so_instance entry) = Some copy"
    "inst_of (so_definition entry) copy"
    using clone_contract[OF inst] by blast
  obtain inst' res where res: "oc_invoke (de_class env) copy n args = (inst', res)"
    by fastforce
  show ?thesis
    using assms(3) invoke_contract[OF c(2) _ _ res] state_contract[of "so_definition entry" inst']
    by (fastforce simp: apply_invoke_method_def Some c(1) res Let_def split: if_splits option.splits sum.splits)
qed (use assms(3) in \<open>auto simp: apply_invoke_method_def split: if_splits\<close>)

lemma get_object_no_internal:
  assumes "om_ok (ss_objects st)" and "instances_ok inst_of st"
  shows "\<not> internal_failure (apply_get_object env st i)"
  using instances_okD[OF assms(2,1), of i] state_contract
  by (auto simp: apply_get_object_def Let_def split: option.splits)

lemma execute_no_internal:
  assumes "registry_ok (de_registry env)" and "store_ok env ids st" and "instances_ok inst_of st"
    and "execute env ids st oper = Some (r, ids', st')"
  shows "\<not> internal_failure r"
proof (cases "ss_closed st")
  case False
  have ok: "om_ok (ss_objects st)"
    using assms(2) by (simp add: store_ok_def keys_ok_def)
  note get = get_object_no_internal[OF ok assms(3)]
  show ?thesis
  proof (cases oper)
    case (List_classes after limit)
    then show ?thesis using assms(4) False
      by (auto simp: execute_def apply_list_classes_def registry_list_def split: if_splits prod.splits)
  next
    case (Get_attribute i n)
    then show ?thesis using assms(4) False get[of i]
      by (auto simp: execute_def apply_get_attribute_def split: if_splits outcome.splits option.splits)
  next
    case (Create_object n args)
    then show ?thesis using assms(4) False create_no_internal[OF assms(1)] by (simp add: execute_def)
  next
    case (Invoke_method i n args)
    then show ?thesis using assms(4) False invoke_no_internal[OF ok assms(3)]
      by (auto simp: execute_def split: prod.splits)
  next
    case (List_values after limit)
    then show ?thesis using assms(4) False
      by (auto simp: execute_def apply_list_values_def split: if_splits prod.splits)
  qed (use assms(4) False get in \<open>auto simp: execute_def apply_describe_class_def apply_put_value_def
        apply_get_value_def apply_release_object_def Let_def split: if_splits prod.splits option.splits\<close>)
qed (use assms(4) in \<open>auto simp: execute_def\<close>)

end

subsection \<open>The built-in classes keep it\<close>

definition builtin_env :: "(string \<Rightarrow> bool) \<Rightarrow> builtin_object domain_env" where
  "builtin_env utf8 = \<lparr>de_utf8 = utf8, de_class = builtin_class utf8, de_registry = builtin_registry utf8\<rparr>"

definition builtin_inst :: "(string \<Rightarrow> bool) \<Rightarrow> builtin_object class_definition \<Rightarrow> builtin_object \<Rightarrow> bool" where
  "builtin_inst utf8 d inst \<longleftrightarrow>
     (\<exists>val. inst = Counter_object val \<and> d = counter_definition utf8) \<or>
     (\<exists>text. inst = Text_buffer_object text \<and> d = text_buffer_definition utf8 \<and>
             valid_value utf8 (Text text))"

lemma builtin_env_simps [simp]:
  "de_utf8 (builtin_env utf8) = utf8" "de_registry (builtin_env utf8) = builtin_registry utf8"
  "oc_state (de_class (builtin_env utf8)) = builtin_state"
  "oc_clone (de_class (builtin_env utf8)) = builtin_clone"
  "oc_invoke (de_class (builtin_env utf8)) = builtin_invoke utf8"
  by (simp_all add: builtin_env_def builtin_class_def)

lemma valid_arguments_single:
  "valid_arguments utf8 args [\<lparr>pm_name = n, pm_kind = k\<rparr>] \<longleftrightarrow>
     (\<exists>v. args = [\<lparr>nv_name = n, nv_data = v\<rparr>] \<and> valid_name n False \<and> valid_value utf8 v \<and> kind_of v = k)"
proof -
  have "(\<exists>v. a = \<lparr>nv_name = n, nv_data = v\<rparr> \<and> P v) \<longleftrightarrow> nv_name a = n \<and> P (nv_data a)"
    for a :: named_value and P by (metis named_value.select_convs named_value.surjective old.unit.exhaust)
  then show ?thesis
    by (cases args) (auto simp: valid_arguments_def valid_named_values_def valid_names_def max_entries_def)
qed

lemma kind_of_iff:
  "kind_of v = VK_integer \<longleftrightarrow> (\<exists>i. v = Integer i)" "kind_of v = VK_text \<longleftrightarrow> (\<exists>s. v = Text s)"
  by (cases v; simp)+

lemma builtin_find:
  "registry_find (builtin_registry utf8) n = Some d \<longleftrightarrow>
     n = ''Counter'' \<and> d = counter_definition utf8 \<or> n = ''TextBuffer'' \<and> d = text_buffer_definition utf8"
  by (auto simp: registry_find_def builtin_registry_def)

lemma builtin_state_matches:
  assumes "builtin_inst utf8 d inst"
  shows "state_matches utf8 d (builtin_state inst)"
proof -
  have names: "valid_name ''value'' False" "valid_name ''text'' False"
    by code_simp+
  show ?thesis
    using assms names
    by (auto simp: builtin_inst_def state_matches_def counter_description_def text_buffer_description_def
        valid_named_values_def valid_names_def state_charge_def record_charge_def max_entries_def
        max_object_state_bytes_def max_payload_bytes_def max_string_bytes_def)
qed

lemma builtin_create_contract:
  assumes "registry_find (builtin_registry utf8) n = Some d" and "df_create d = Some create"
    and "valid_arguments utf8 args (cd_constructor_parameters (df_description d))"
  shows "\<exists>inst. create args = Inr (Some inst) \<and> builtin_inst utf8 d inst"
  using assms
  by (auto simp: builtin_find counter_description_def text_buffer_description_def valid_arguments_single
      kind_of_iff counter_create_def text_buffer_create_def single_argument_def builtin_inst_def)

lemma builtin_invoke_contract:
  assumes append: "\<forall>s t. utf8 s \<longrightarrow> utf8 t \<longrightarrow> utf8 (s @ t)"
    and "builtin_inst utf8 d inst"
    and "List.find (\<lambda>m. mt_name m = n) (cd_methods (df_description d)) = Some meth"
    and "valid_arguments utf8 args (mt_parameters meth)"
    and "builtin_invoke utf8 inst n args = (inst', res)"
  shows "(\<exists>v. res = Inr v \<and> builtin_inst utf8 d inst' \<and> valid_value utf8 v \<and> kind_of v = mt_result_kind meth) \<or>
    (\<exists>e. res = Inl e \<and> expected_code (re_code e))"
  using assms(2)
proof (cases inst)
  case (Counter_object val)
  then have d: "d = counter_definition utf8"
    using assms(2) by (simp add: builtin_inst_def)
  then show ?thesis
    using assms(3-5) Counter_object
    by (auto simp: counter_description_def valid_arguments_single kind_of_iff counter_invoke_def
        single_argument_def builtin_inst_def make_error_def split: if_splits)
next
  case (Text_buffer_object buf)
  then have d: "d = text_buffer_definition utf8" "valid_value utf8 (Text buf)"
    using assms(2) by (simp_all add: builtin_inst_def)
  then show ?thesis
    using assms(3-5) Text_buffer_object append
    by (auto simp: text_buffer_description_def valid_arguments_single kind_of_iff text_buffer_invoke_def
        single_argument_def builtin_inst_def make_error_def split: if_splits) linarith
qed

lemma builtin_contract:
  assumes "\<forall>s t. utf8 s \<longrightarrow> utf8 t \<longrightarrow> utf8 (s @ t)"
  shows "object_contract (builtin_env utf8) (builtin_inst utf8)"
proof
  show "\<exists>copy. oc_clone (de_class (builtin_env utf8)) inst = Some copy \<and> builtin_inst utf8 d copy"
    if "builtin_inst utf8 d inst" for d inst
    using that by (cases inst) simp_all
qed (use builtin_create_contract builtin_state_matches builtin_invoke_contract[OF assms] in \<open>auto\<close>)

interpretation builtins: object_contract "builtin_env structurally_valid" "builtin_inst structurally_valid"
  by (rule builtin_contract) (simp add: utf8_table.utf8_append)

end
