(* ===== verification/Sessions.thy ===== *)
theory Sessions
  imports Object_Contract
begin

section \<open>Many sessions over one identifier source\<close>

text \<open>
  The server host (\<open>src/transport/windows/server.cpp\<close>) gives every connection its own
  \<open>session_store\<close> over the shared registry and identifier source, closes it when the connection
  ends, and serialises every domain operation with \<open>domain_gate_\<close>. A \<open>host\<close> is therefore the
  identifier source with the list of stores created so far, and its life is a sequence of
  events: connections, requests of some session, disconnections, in any order.
\<close>

datatype event = Connect | Request nat operation | Disconnect nat

record 'o host =
  ho_ids :: identifier_source
  ho_sessions :: "'o session_store list"

definition host_init :: "'o host" where
  "host_init = \<lparr>ho_ids = 1, ho_sessions = []\<rparr>"

fun host_step ::
  "'o domain_env \<Rightarrow> session_limits \<Rightarrow> 'o host \<Rightarrow> event \<Rightarrow> (outcome option \<times> 'o host) option" where
  "host_step env limits h Connect =
     Some (None, h\<lparr>ho_sessions := ho_sessions h @ [session_store_init limits]\<rparr>)"
| "host_step env limits h (Request k oper) =
     (if k < length (ho_sessions h)
      then map_option (\<lambda>(r, ids, st). (Some r, \<lparr>ho_ids = ids, ho_sessions = (ho_sessions h)[k := st]\<rparr>))
             (execute env (ho_ids h) (ho_sessions h ! k) oper)
      else Some (None, h))"
| "host_step env limits h (Disconnect k) =
     (if k < length (ho_sessions h)
      then Some (None, h\<lparr>ho_sessions := (ho_sessions h)[k := store_close (ho_sessions h ! k)]\<rparr>)
      else Some (None, h))"

fun host_run ::
  "'o domain_env \<Rightarrow> session_limits \<Rightarrow> 'o host \<Rightarrow> event list \<Rightarrow> (outcome option list \<times> 'o host) option" where
  "host_run env limits h [] = Some ([], h)"
| "host_run env limits h (ev # evs) =
     (case host_step env limits h ev of
        None \<Rightarrow> None
      | Some (r, h') \<Rightarrow> map_option (map_prod ((#) r) id) (host_run env limits h' evs))"

subsection \<open>The invariant\<close>

definition keys :: "'o session_store \<Rightarrow> u64 set" where
  "keys st = fst ` set (ss_values st) \<union> fst ` set (ss_objects st)"

definition host_ok :: "'o domain_env \<Rightarrow> 'o host \<Rightarrow> bool" where
  "host_ok env h \<longleftrightarrow> (\<forall>st \<in> set (ho_sessions h). store_ok env (ho_ids h) st) \<and>
     (\<forall>j < length (ho_sessions h). \<forall>k < length (ho_sessions h). j \<noteq> k \<longrightarrow>
        keys (ho_sessions h ! j) \<inter> keys (ho_sessions h ! k) = {})"

lemma host_ok_session: "host_ok env h \<Longrightarrow> k < length (ho_sessions h) \<Longrightarrow> store_ok env (ho_ids h) (ho_sessions h ! k)"
  by (simp add: host_ok_def)

lemma host_ok_disjoint:
  "host_ok env h \<Longrightarrow> j < length (ho_sessions h) \<Longrightarrow> k < length (ho_sessions h) \<Longrightarrow> j \<noteq> k \<Longrightarrow>
     i \<in> keys (ho_sessions h ! j) \<Longrightarrow> i \<notin> keys (ho_sessions h ! k)"
  by (auto simp: host_ok_def)

lemma keys_issued: "store_ok env ids st \<Longrightarrow> i \<in> keys st \<Longrightarrow> issued ids i"
  by (auto simp: store_ok_def keys_ok_def keys_def)

lemma transition_keys:
  assumes "transition env ids st oper r ids' st'" and "i \<in> keys st'"
  shows "i \<in> keys st \<or> \<not> issued ids i"
  using assms
  by (cases rule: transition.cases)
    (auto simp: keys_def fst_set_emplace fst_set_erase fst_set_assign not_issued_next)

lemma keys_init [simp]: "keys (session_store_init limits) = {}"
  by (simp add: keys_def session_store_init_def)

lemma keys_close [simp]: "keys (store_close st) = {}"
  by (simp add: keys_def store_close_def)

lemma host_ok_init: "host_ok env host_init"
  by (simp add: host_ok_def host_init_def)

lemma host_ok_update:
  assumes "host_ok env h" and "k < length (ho_sessions h)" and st: "store_ok env ids st"
    and mono: "\<And>i. issued (ho_ids h) i \<Longrightarrow> issued ids i"
    and new: "\<And>i. i \<in> keys st \<Longrightarrow> i \<in> keys (ho_sessions h ! k) \<or> \<not> issued (ho_ids h) i"
  shows "host_ok env \<lparr>ho_ids = ids, ho_sessions = (ho_sessions h)[k := st]\<rparr>"
proof -
  have others: "store_ok env ids st'" if "st' \<in> set (ho_sessions h)" for st'
    using assms(1) that store_ok_issued mono unfolding host_ok_def by blast
  have disj: "keys st \<inter> keys (ho_sessions h ! j) = {}" if "j < length (ho_sessions h)" "j \<noteq> k" for j
    using new keys_issued[OF host_ok_session[OF assms(1) that(1)]]
      host_ok_disjoint[OF assms(1) that(1) assms(2) that(2)] by blast
  show ?thesis
    using assms(1,2) st others disj set_update_subset_insert[of "ho_sessions h" k st]
    by (auto simp: host_ok_def nth_list_update)
qed

lemma host_step_ok:
  assumes "registry_ok (de_registry env)" and "host_ok env h"
  shows "\<exists>r h'. host_step env limits h ev = Some (r, h') \<and> host_ok env h'"
proof (cases ev)
  case Connect
  have "host_ok env (h\<lparr>ho_sessions := ho_sessions h @ [session_store_init limits]\<rparr>)"
    using assms(2) by (auto simp: host_ok_def store_ok_init nth_append less_Suc_eq)
  then show ?thesis by (simp add: Connect)
next
  case (Disconnect k)
  have "host_ok env (h\<lparr>ho_sessions := (ho_sessions h)[k := store_close (ho_sessions h ! k)]\<rparr>)"
    if "k < length (ho_sessions h)"
    using host_ok_update[OF assms(2) that store_ok_close[OF host_ok_session[OF assms(2) that]]] by (cases h) auto
  then show ?thesis using assms(2) by (simp add: Disconnect)
next
  case (Request k oper)
  show ?thesis
  proof (cases "k < length (ho_sessions h)")
    case True
    note st = host_ok_session[OF assms(2) True]
    obtain r ids' st' where ex: "execute env (ho_ids h) (ho_sessions h ! k) oper = Some (r, ids', st')"
      using execute_defined[OF assms(1) st] by blast
    note tr = execute_transition[OF assms(1) st ex]
    have "host_ok env \<lparr>ho_ids = ids', ho_sessions = (ho_sessions h)[k := st']\<rparr>"
      by (rule host_ok_update[OF assms(2) True transition_store_ok[OF tr assms(1) st]
            transition_issued[OF tr] transition_keys[OF tr]])
    then show ?thesis using True by (simp add: Request ex)
  qed (use assms(2) Request in simp)
qed

lemma host_step_okD:
  "registry_ok (de_registry env) \<Longrightarrow> host_ok env h \<Longrightarrow> host_step env limits h ev = Some (r, h') \<Longrightarrow> host_ok env h'"
  using host_step_ok[of env h limits ev] by auto

lemma host_run_ok:
  assumes "registry_ok (de_registry env)" and "host_ok env h"
  shows "\<exists>rs h'. host_run env limits h evs = Some (rs, h') \<and> host_ok env h'"
  using assms(2)
proof (induction evs arbitrary: h)
  case (Cons ev evs)
  obtain r h' where step: "host_step env limits h ev = Some (r, h')" and h': "host_ok env h'"
    using host_step_ok[OF assms(1) Cons.prems] by blast
  show ?case using Cons.IH[OF h'] by (auto simp: step)
qed simp

text \<open>
  The rule for facts that later events keep.
\<close>

lemma host_run_invariant:
  assumes "registry_ok (de_registry env)" and "host_ok env h" and "host_run env limits h evs = Some (rs, h')"
    and "P h" and step: "\<And>h ev r h'. ev \<in> set evs \<Longrightarrow> host_ok env h \<Longrightarrow>
      host_step env limits h ev = Some (r, h') \<Longrightarrow> P h \<Longrightarrow> P h'"
  shows "P h'"
  using assms(2-4) step
proof (induction evs arbitrary: h rs)
  case (Cons ev evs)
  obtain r h1 where h1: "host_step env limits h ev = Some (r, h1)" "host_ok env h1"
    using host_step_ok[OF assms(1) Cons.prems(1)] by blast
  obtain rs' where "host_run env limits h1 evs = Some (rs', h')"
    using Cons.prems(2) h1(1) by auto
  moreover have "P h1"
    using Cons.prems(4)[OF _ Cons.prems(1) h1(1) Cons.prems(3)] by simp
  ultimately show ?case
    using Cons.IH[OF h1(2)] Cons.prems(4) by (meson list.set_intros(2))
qed simp

subsection \<open>What later events keep\<close>

fun targets :: "u64 \<Rightarrow> operation \<Rightarrow> bool" where
  "targets i (Release_object j) = (i = j)"
| "targets i (Invoke_method j name args) = (i = j)"
| "targets i _ = False"

lemma transition_value_kept:
  assumes "transition env ids st oper r ids' st'" and "keys_ok ids st"
    and "om_find (ss_values st) i = Some v"
  shows "om_find (ss_values st') i = Some v"
  using assms keys_ok_fresh[OF assms(2)]
  by (cases rule: transition.cases) (auto simp: om_find_emplace keys_ok_def)

lemma transition_object_kept:
  assumes "transition env ids st oper r ids' st'" and "keys_ok ids st"
    and "om_find (ss_objects st) i = Some e" and "\<not> targets i oper"
  shows "om_find (ss_objects st') i = Some e"
  using assms keys_ok_fresh[OF assms(2)]
  by (cases rule: transition.cases) (auto simp: om_find_emplace om_find_erase om_find_assign keys_ok_def)

lemma transition_object_gone:
  assumes "transition env ids st oper r ids' st'" and "keys_ok ids st"
    and "om_find (ss_objects st) i = None" and "issued ids i"
  shows "om_find (ss_objects st') i = None"
  using assms not_issued_next
  by (cases rule: transition.cases) (auto simp: om_find_emplace om_find_erase om_find_assign keys_ok_def)

lemma host_step_session:
  assumes "registry_ok (de_registry env)" and "host_ok env h" and "k < length (ho_sessions h)"
    and "host_step env limits h ev = Some (r, h')" and "ev \<noteq> Disconnect k"
  shows "k < length (ho_sessions h')" and "issued (ho_ids h) i \<Longrightarrow> issued (ho_ids h') i"
    and "ho_sessions h' ! k = ho_sessions h ! k \<or>
      (\<exists>oper r'. ev = Request k oper \<and>
        transition env (ho_ids h) (ho_sessions h ! k) oper r' (ho_ids h') (ho_sessions h' ! k))"
proof -
  have "k < length (ho_sessions h') \<and> (issued (ho_ids h) i \<longrightarrow> issued (ho_ids h') i) \<and>
    (ho_sessions h' ! k = ho_sessions h ! k \<or>
      (\<exists>oper r'. ev = Request k oper \<and>
        transition env (ho_ids h) (ho_sessions h ! k) oper r' (ho_ids h') (ho_sessions h' ! k)))"
  proof (cases ev)
    case (Request j oper)
    show ?thesis
    proof (cases "j < length (ho_sessions h)")
      case True
      then obtain r' ids' st' where ex: "execute env (ho_ids h) (ho_sessions h ! j) oper = Some (r', ids', st')"
        and h': "h' = \<lparr>ho_ids = ids', ho_sessions = (ho_sessions h)[j := st']\<rparr>"
        using assms(4) Request by auto
      note tr = execute_transition[OF assms(1) host_ok_session[OF assms(2) True] ex]
      show ?thesis
        using assms(3) tr transition_issued[OF tr] Request by (cases "j = k") (auto simp: h')
    qed (use assms Request in auto)
  qed (use assms in \<open>auto simp: nth_append split: if_splits\<close>)
  then show "k < length (ho_sessions h')" "issued (ho_ids h) i \<Longrightarrow> issued (ho_ids h') i"
    "ho_sessions h' ! k = ho_sessions h ! k \<or>
      (\<exists>oper r'. ev = Request k oper \<and>
        transition env (ho_ids h) (ho_sessions h ! k) oper r' (ho_ids h') (ho_sessions h' ! k))"
    by blast+
qed

lemma host_ok_keys: "host_ok env h \<Longrightarrow> k < length (ho_sessions h) \<Longrightarrow> keys_ok (ho_ids h) (ho_sessions h ! k)"
  using host_ok_session[of env h k] by (simp add: store_ok_def)

lemma host_value_kept:
  assumes "registry_ok (de_registry env)" and "host_ok env h" and "host_run env limits h evs = Some (rs, h')"
    and "Disconnect k \<notin> set evs" and "k < length (ho_sessions h)" and "\<not> ss_closed (ho_sessions h ! k)"
    and "om_find (ss_values (ho_sessions h ! k)) i = Some v"
  shows "k < length (ho_sessions h') \<and> \<not> ss_closed (ho_sessions h' ! k) \<and>
    om_find (ss_values (ho_sessions h' ! k)) i = Some v"
proof (rule host_run_invariant[OF assms(1-3)])
  fix h ev r h'
  assume *: "ev \<in> set evs" "host_ok env h" "host_step env limits h ev = Some (r, h')"
    "k < length (ho_sessions h) \<and> \<not> ss_closed (ho_sessions h ! k) \<and> om_find (ss_values (ho_sessions h ! k)) i = Some v"
  then have "ev \<noteq> Disconnect k" using assms(4) by blast
  note s = host_step_session[OF assms(1) *(2) conjunct1[OF *(4)] *(3) this]
  show "k < length (ho_sessions h') \<and> \<not> ss_closed (ho_sessions h' ! k) \<and> om_find (ss_values (ho_sessions h' ! k)) i = Some v"
    using s(1) s(3) *(4) transition_closed transition_value_kept[OF _ host_ok_keys[OF *(2)]] by metis
qed (use assms in simp)

lemma host_object_kept:
  assumes "registry_ok (de_registry env)" and "host_ok env h" and "host_run env limits h evs = Some (rs, h')"
    and "Disconnect k \<notin> set evs" and "\<And>oper. Request k oper \<in> set evs \<Longrightarrow> \<not> targets i oper"
    and "k < length (ho_sessions h)" and "\<not> ss_closed (ho_sessions h ! k)"
    and "om_find (ss_objects (ho_sessions h ! k)) i = Some e"
  shows "k < length (ho_sessions h') \<and> \<not> ss_closed (ho_sessions h' ! k) \<and>
    om_find (ss_objects (ho_sessions h' ! k)) i = Some e"
proof (rule host_run_invariant[OF assms(1-3)])
  fix h ev r h'
  assume *: "ev \<in> set evs" "host_ok env h" "host_step env limits h ev = Some (r, h')"
    "k < length (ho_sessions h) \<and> \<not> ss_closed (ho_sessions h ! k) \<and> om_find (ss_objects (ho_sessions h ! k)) i = Some e"
  then have "ev \<noteq> Disconnect k" using assms(4) by blast
  note s = host_step_session[OF assms(1) *(2) conjunct1[OF *(4)] *(3) this]
  show "k < length (ho_sessions h') \<and> \<not> ss_closed (ho_sessions h' ! k) \<and> om_find (ss_objects (ho_sessions h' ! k)) i = Some e"
    using s(1) s(3) *(1,4) assms(5) transition_closed transition_object_kept[OF _ host_ok_keys[OF *(2)]] by metis
qed (use assms in simp)

lemma host_object_gone:
  assumes "registry_ok (de_registry env)" and "host_ok env h" and "host_run env limits h evs = Some (rs, h')"
    and "Disconnect k \<notin> set evs" and "k < length (ho_sessions h)" and "\<not> ss_closed (ho_sessions h ! k)"
    and "om_find (ss_objects (ho_sessions h ! k)) i = None" and "issued (ho_ids h) i"
  shows "k < length (ho_sessions h') \<and> \<not> ss_closed (ho_sessions h' ! k) \<and>
    om_find (ss_objects (ho_sessions h' ! k)) i = None \<and> issued (ho_ids h') i"
proof (rule host_run_invariant[OF assms(1-3)])
  fix h ev r h'
  assume *: "ev \<in> set evs" "host_ok env h" "host_step env limits h ev = Some (r, h')"
    "k < length (ho_sessions h) \<and> \<not> ss_closed (ho_sessions h ! k) \<and>
     om_find (ss_objects (ho_sessions h ! k)) i = None \<and> issued (ho_ids h) i"
  then have "ev \<noteq> Disconnect k" using assms(4) by blast
  note s = host_step_session[OF assms(1) *(2) conjunct1[OF *(4)] *(3) this]
  show "k < length (ho_sessions h') \<and> \<not> ss_closed (ho_sessions h' ! k) \<and>
     om_find (ss_objects (ho_sessions h' ! k)) i = None \<and> issued (ho_ids h') i"
    using s(1,3) s(2)[of i] *(4) transition_closed transition_object_gone[OF _ host_ok_keys[OF *(2)]] by metis
qed (use assms in simp)

end
