(* ===== verification/Domain_Properties.thy ===== *)
theory Domain_Properties
  imports Sessions
begin

section \<open>Properties of the domain\<close>

text \<open>
  The contracts a client of the server relies on, over the session stores and the shared
  identifier source: safety of every reachable state, refinement of the specification,
  atomicity, complete pagination, persistence of values and objects, disposal, isolation of
  sessions, and the built-in classes end to end. The witnesses run the built-in registry with
  the Unicode table of \<open>Utf8\<close> as the UTF-8 check.
\<close>

abbreviation demo_env :: "builtin_object domain_env" where
  "demo_env \<equiv> builtin_env structurally_valid"

abbreviation demo_limits :: session_limits where
  "demo_limits \<equiv> \<lparr>lim_values = 100, lim_objects = 100, lim_bytes = 8388608\<rparr>"

lemma all_less_two: "(\<forall>j < Suc (Suc 0). P j) \<longleftrightarrow> P 0 \<and> P (Suc 0)"
  by (auto simp: less_Suc_eq)

lemma demo_registry_ok: "registry_ok (de_registry demo_env)"
  by (simp add: builtin_registry_ok)

definition demo_store :: "builtin_object session_store" where
  "demo_store = \<lparr>ss_limits = demo_limits, ss_values = [(1, Integer 7), (2, Text ''hi'')],
     ss_objects = [], ss_used = 266, ss_closed = False\<rparr>"

lemma demo_store_ok: "store_ok demo_env 3 demo_store"
proof -
  have "structurally_valid ''hi''" by code_simp
  then show ?thesis
    by (simp add: store_ok_def quota_ok_def limits_ok_def keys_ok_def contents_ok_def charges_def
        value_charge_def issued_def demo_store_def om_ok_def max_stored_values_def record_charge_def
        max_stored_objects_def max_session_bytes_def max_string_bytes_def)
qed

definition demo_host :: "builtin_object host" where
  "demo_host = \<lparr>ho_ids = 3, ho_sessions = [demo_store, session_store_init demo_limits]\<rparr>"

lemma demo_host_ok: "host_ok demo_env demo_host"
  using demo_store_ok store_ok_init
  by (simp add: host_ok_def demo_host_def all_less_two)

abbreviation demo_create :: operation where
  "demo_create \<equiv> Create_object ''Counter'' [\<lparr>nv_name = ''initial'', nv_data = Integer 5\<rparr>]"

abbreviation demo_snapshot :: object_snapshot where
  "demo_snapshot \<equiv> \<lparr>os_id = 3, os_class_name = ''Counter'',
     os_state = [\<lparr>nv_name = ''value'', nv_data = Integer 5\<rparr>]\<rparr>"

lemma demo_create_step:
  "map_option fst (host_step demo_env demo_limits demo_host (Request 1 demo_create)) =
     Some (Some (Object_snapshot demo_snapshot))"
  by code_simp

text \<open>
  Property C3. Whatever connections, requests and disconnections happen, in whatever order, the
  server's domain has no undefined behaviour, and in every state it reaches each session keeps at
  most 100 values, 100 objects and 8 MiB, with its byte count equal to the sum of the charges
  of what it stores; identifiers of different sessions never overlap.
\<close>

theorem reachable_states_safe:
  assumes "registry_ok (de_registry env)"
  shows "\<exists>rs h. host_run env limits host_init evs = Some (rs, h) \<and> host_ok env h \<and>
    (\<forall>st \<in> set (ho_sessions h). length (ss_values st) \<le> max_stored_values \<and>
       length (ss_objects st) \<le> max_stored_objects \<and>
       accounted_bytes st = charges st \<and> charges st \<le> max_session_bytes)"
proof -
  obtain rs h where "host_run env limits host_init evs = Some (rs, h)" and h: "host_ok env h"
    using host_run_ok[OF assms host_ok_init] by blast
  moreover have "length (ss_values st) \<le> max_stored_values \<and> length (ss_objects st) \<le> max_stored_objects \<and>
      accounted_bytes st = charges st \<and> charges st \<le> max_session_bytes"
    if "st \<in> set (ho_sessions h)" for st
    using h that by (fastforce simp: host_ok_def store_ok_def quota_ok_def limits_ok_def accounted_bytes_def)
  ultimately show ?thesis by blast
qed

theorem reachable_states_safe_witness:
  "\<exists>rs h. host_run demo_env demo_limits host_init [Connect, Connect, Request 1 (Put_value (Integer 7))]
     = Some (rs, h) \<and> host_ok demo_env h"
  using reachable_states_safe[OF demo_registry_ok] by blast

text \<open>
  Property C5. \<open>execute\<close> refines the specification \<open>transition\<close>: in a state that satisfies the
  invariant it always returns, what it does is a transition the specification allows, and the
  invariant holds again.
\<close>

theorem execute_refines_transition:
  assumes "registry_ok (de_registry env)" and "store_ok env ids st"
  shows "\<exists>r ids' st'. execute env ids st oper = Some (r, ids', st') \<and>
    transition env ids st oper r ids' st' \<and> store_ok env ids' st'"
proof -
  obtain r ids' st' where ex: "execute env ids st oper = Some (r, ids', st')"
    using execute_defined[OF assms] by blast
  note tr = execute_transition[OF assms ex]
  show ?thesis
    using ex tr transition_store_ok[OF tr assms] by blast
qed

theorem execute_refines_transition_witness:
  "\<exists>r ids' st'. execute demo_env 1 (session_store_init demo_limits) (Put_value (Integer 7)) = Some (r, ids', st') \<and>
    transition demo_env 1 (session_store_init demo_limits) (Put_value (Integer 7)) r ids' st'"
  using execute_refines_transition[OF demo_registry_ok store_ok_init] by blast

text \<open>
  Property C12. A request that fails changes nothing: when the outcome is a remote error, the
  store and the identifier source are the ones before the call, whatever a factory or a method
  of the linked classes did to its own candidate.
\<close>

theorem failed_operation_changes_nothing:
  assumes "registry_ok (de_registry env)" and "store_ok env ids st"
    and "execute env ids st oper = Some (Remote_error e, ids', st')"
  shows "ids' = ids \<and> st' = st"
  using transition_error[OF execute_transition[OF assms]] by simp

theorem failed_operation_changes_nothing_witness:
  "execute demo_env 1 (session_store_init demo_limits) (Get_value 9) =
     Some (Remote_error (make_error EC_not_found), 1, session_store_init demo_limits)"
proof -
  have "\<exists>ids' st'. execute demo_env 1 (session_store_init demo_limits) (Get_value 9) =
     Some (Remote_error (make_error EC_not_found), ids', st')"
    by (simp add: execute_def apply_get_value_def session_store_init_def om_find_def)
  then show ?thesis
    using failed_operation_changes_nothing[OF demo_registry_ok store_ok_init] by fastforce
qed

text \<open>
  Property C18. Enumerating the values of a session page by page, with any accepted page size,
  yields every stored value exactly once and in identifier order, after at most one request
  more than there are values; the byte budget of a page never makes the enumeration stall.
\<close>

theorem value_pages_complete:
  assumes "store_ok env ids st" and "valid_page_size limit"
  shows "walk_values (Suc (length (ss_values st))) st 0 limit = Some (map mk_record (ss_values st))"
proof -
  have k: "keys_ok ids st" and c: "contents_ok env st"
    using assms(1) by (simp_all add: store_ok_def)
  have "om_upper_bound 0 (ss_values st) = filter (\<lambda>e. 0 < fst e) (ss_values st)"
    using k by (intro om_upper_bound_filter) (simp add: keys_ok_def)
  also have "\<dots> = ss_values st"
    using k by (force simp: keys_ok_def issued_def filter_id_conv word_neq_0_conv)
  finally show ?thesis
    using walk_values_from[OF c k assms(2), of 0 "Suc (length (ss_values st))"] by simp
qed

theorem value_pages_complete_witness:
  "store_ok demo_env 3 demo_store \<and> valid_page_size 1 \<and>
   walk_values 3 demo_store 0 1 = Some [\<lparr>vr_id = 1, vr_data = Integer 7\<rparr>, \<lparr>vr_id = 2, vr_data = Text ''hi''\<rparr>]"
proof -
  have "valid_page_size 1" by code_simp
  then show ?thesis
    using value_pages_complete[OF demo_store_ok, of 1] demo_store_ok
    by (simp add: demo_store_def mk_record_def del: walk_values.simps flip: numeral_3_eq_3)
qed



text \<open>
  Property C15. A created object keeps its state until it is invoked or released: after a
  successful \<open>create_object\<close> of a session, and after any later events that neither disconnect the
  session nor invoke or release that object in it, \<open>get_object\<close> answers the snapshot that
  \<open>create_object\<close> returned.
\<close>

theorem create_then_get:
  assumes "registry_ok (de_registry env)" and "host_ok env h"
    and create: "host_step env limits h (Request k (Create_object name args)) = Some (Some (Object_snapshot snap), h1)"
    and run: "host_run env limits h1 evs = Some (rs, h2)" and "Disconnect k \<notin> set evs"
    and "\<And>oper. Request k oper \<in> set evs \<Longrightarrow> \<not> targets (os_id snap) oper"
  shows "os_class_name snap = name \<and>
    host_step env limits h2 (Request k (Get_object (os_id snap))) = Some (Some (Object_snapshot snap), h2)"
proof -
  have k: "k < length (ho_sessions h)"
    using create by (simp split: if_splits)
  then obtain ids st where
    ex: "execute env (ho_ids h) (ho_sessions h ! k) (Create_object name args) = Some (Object_snapshot snap, ids, st)"
    and h1: "h1 = \<lparr>ho_ids = ids, ho_sessions = (ho_sessions h)[k := st]\<rparr>"
    using create by auto
  note s = host_ok_session[OF assms(2) k]
  have "transition env (ho_ids h) (ho_sessions h ! k) (Create_object name args) (Object_snapshot snap) ids st"
    by (rule execute_transition[OF assms(1) s ex])
  then obtain d inst where c: "registry_find (de_registry env) name = Some d"
    "state_matches (de_utf8 env) d (oc_state (de_class env) inst)"
    "snap = \<lparr>os_id = ho_ids h, os_class_name = name, os_state = oc_state (de_class env) inst\<rparr>"
    "\<not> ss_closed st" "ho_ids h \<noteq> 0" "om_find (ss_objects st) (ho_ids h) =
       Some \<lparr>so_definition = d, so_instance = inst, so_charge = object_charge env d inst\<rparr>"
    using s keys_ok_fresh[of "ho_ids h" "ho_sessions h ! k"]
    by (cases rule: transition.cases) (auto simp: om_find_emplace store_ok_def keys_ok_def)
  have n: "df_name d = name"
    using registry_find_ok[OF assms(1) c(1)] by simp
  have "host_ok env h1"
    by (rule host_step_okD[OF assms(1,2) create])
  then have "k < length (ho_sessions h2) \<and> \<not> ss_closed (ho_sessions h2 ! k) \<and>
      om_find (ss_objects (ho_sessions h2 ! k)) (ho_ids h) =
        Some \<lparr>so_definition = d, so_instance = inst, so_charge = object_charge env d inst\<rparr>"
    using assms(6) k c(3,4,6) by (intro host_object_kept[OF assms(1) _ run assms(5)]) (auto simp: h1)
  then show ?thesis
    using c n by (cases h2) (auto simp: execute_def apply_get_object_def Let_def)
qed

theorem create_then_get_witness:
  "\<exists>snap h1 rs h2. host_step demo_env demo_limits demo_host (Request 1 demo_create) = Some (Some (Object_snapshot snap), h1) \<and>
     host_run demo_env demo_limits h1 [Request 0 (Release_object 3), Request 1 (Put_value (Integer 1))] = Some (rs, h2) \<and>
     host_step demo_env demo_limits h2 (Request 1 (Get_object (os_id snap))) = Some (Some (Object_snapshot snap), h2)"
proof -
  obtain h1 where create: "host_step demo_env demo_limits demo_host (Request 1 demo_create) = Some (Some (Object_snapshot demo_snapshot), h1)"
    using demo_create_step by (auto simp del: host_step.simps)
  obtain rs h2 where run: "host_run demo_env demo_limits h1
      [Request 0 (Release_object 3), Request 1 (Put_value (Integer 1))] = Some (rs, h2)"
    using host_run_ok[OF demo_registry_ok host_step_okD[OF demo_registry_ok demo_host_ok create]] by blast
  show ?thesis
    using create_then_get[OF demo_registry_ok demo_host_ok create run] create run
    by (auto simp del: host_step.simps host_run.simps)
qed

text \<open>
  Property C16. A released object is gone for good: once \<open>release_object\<close> has succeeded, and after
  any later events that do not disconnect the session, every request of the session for that
  identifier answers \<open>not_found\<close>; the identifier is never given to another object.
\<close>

theorem released_is_gone:
  assumes "registry_ok (de_registry env)" and "host_ok env h"
    and release: "host_step env limits h (Request k (Release_object i)) = Some (Some Released, h1)"
    and run: "host_run env limits h1 evs = Some (rs, h2)" and "Disconnect k \<notin> set evs"
    and "valid_name name False"
    and "oper \<in> {Get_object i, Release_object i, Get_attribute i name, Invoke_method i name args}"
  shows "host_step env limits h2 (Request k oper) = Some (Some (Remote_error (make_error EC_not_found)), h2)"
proof -
  have k: "k < length (ho_sessions h)"
    using release by (simp split: if_splits)
  then obtain ids st where
    ex: "execute env (ho_ids h) (ho_sessions h ! k) (Release_object i) = Some (Released, ids, st)"
    and h1: "h1 = \<lparr>ho_ids = ids, ho_sessions = (ho_sessions h)[k := st]\<rparr>"
    using release by auto
  note s = host_ok_session[OF assms(2) k]
  have "transition env (ho_ids h) (ho_sessions h ! k) (Release_object i) Released ids st"
    by (rule execute_transition[OF assms(1) s ex])
  then obtain entry where c: "ids = ho_ids h" "\<not> ss_closed st" "om_find (ss_objects st) i = None"
    "om_find (ss_objects (ho_sessions h ! k)) i = Some entry"
    by (cases rule: transition.cases) (simp_all add: om_find_erase)
  have i: "issued (ho_ids h) i"
    using keys_issued[OF s, of i] map_of_SomeD[of _ i entry] c(4) by (force simp: keys_def om_find_def)
  have "host_ok env h1"
    by (rule host_step_okD[OF assms(1,2) release])
  then have "k < length (ho_sessions h2) \<and> \<not> ss_closed (ho_sessions h2 ! k) \<and>
      om_find (ss_objects (ho_sessions h2 ! k)) i = None \<and> issued (ho_ids h2) i"
    using k c i by (intro host_object_gone[OF assms(1) _ run assms(5)]) (auto simp: h1)
  moreover have "i \<noteq> 0" using i by (simp add: issued_def)
  ultimately show ?thesis
    using assms(6,7)
    by (cases h2) (auto simp: execute_def apply_get_object_def apply_release_object_def
        apply_get_attribute_def apply_invoke_method_def)
qed

theorem released_is_gone_witness:
  "\<exists>h h1 rs h2. host_step demo_env demo_limits h (Request 1 (Release_object 3)) = Some (Some Released, h1) \<and>
     host_run demo_env demo_limits h1 [Request 1 demo_create] = Some (rs, h2) \<and>
     host_step demo_env demo_limits h2 (Request 1 (Get_object 3)) =
       Some (Some (Remote_error (make_error EC_not_found)), h2)"
proof -
  obtain h where create: "host_step demo_env demo_limits demo_host (Request 1 demo_create) = Some (Some (Object_snapshot demo_snapshot), h)"
    using demo_create_step by (auto simp del: host_step.simps)
  have "map_option (\<lambda>(r, h). map_option fst (host_step demo_env demo_limits h (Request 1 (Release_object 3))))
      (host_step demo_env demo_limits demo_host (Request 1 demo_create)) = Some (Some (Some Released))"
    by code_simp
  then obtain h1 where release: "host_step demo_env demo_limits h (Request 1 (Release_object 3)) = Some (Some Released, h1)"
    using create by (auto simp del: host_step.simps)
  note h = host_step_okD[OF demo_registry_ok demo_host_ok create]
  obtain rs h2 where run: "host_run demo_env demo_limits h1 [Request 1 demo_create] = Some (rs, h2)"
    using host_run_ok[OF demo_registry_ok host_step_okD[OF demo_registry_ok h release]] by blast
  have "valid_name ''value'' False" by code_simp
  then show ?thesis
    using released_is_gone[OF demo_registry_ok h release run, of "''value''" "Get_object 3" "[]"] release run
    by (auto simp del: host_step.simps host_run.simps)
qed



text \<open>
  A closed session keeps nothing and answers nothing: \<open>close\<close> is idempotent, leaves
  zero accounted bytes, and every later operation answers \<open>access_denied\<close> and changes nothing.
\<close>

theorem closed_session_denies:
  "store_close (store_close st) = store_close st \<and> accounted_bytes (store_close st) = 0 \<and>
   keys (store_close st) = {} \<and>
   execute env ids (store_close st) oper =
     Some (Remote_error (make_error EC_access_denied), ids, store_close st)"
  by (simp add: store_close_def accounted_bytes_def keys_def execute_def)

lemma builtin_step_no_internal:
  assumes append: "\<forall>s t. utf8 s \<longrightarrow> utf8 t \<longrightarrow> utf8 (s @ t)" and "host_ok (builtin_env utf8) h"
    and inst: "\<forall>st \<in> set (ho_sessions h). instances_ok (builtin_inst utf8) st"
    and step: "host_step (builtin_env utf8) limits h ev = Some (r, h')"
  shows "(\<forall>st \<in> set (ho_sessions h'). instances_ok (builtin_inst utf8) st) \<and>
    (\<forall>r'. r = Some r' \<longrightarrow> \<not> internal_failure r')"
proof (cases ev)
  case (Request k oper)
  show ?thesis
  proof (cases "k < length (ho_sessions h)")
    case True
    then obtain r' ids st where ex: "execute (builtin_env utf8) (ho_ids h) (ho_sessions h ! k) oper = Some (r', ids, st)"
      and eq: "r = Some r'" "h' = \<lparr>ho_ids = ids, ho_sessions = (ho_sessions h)[k := st]\<rparr>"
      using step Request by auto
    have reg: "registry_ok (de_registry (builtin_env utf8))"
      by (simp add: builtin_registry_ok)
    note c = builtin_contract[OF append] and s = host_ok_session[OF assms(2) True]
    have i: "instances_ok (builtin_inst utf8) (ho_sessions h ! k)"
      using inst True by simp
    note tr = execute_transition[OF reg s ex]
    have "instances_ok (builtin_inst utf8) st"
      by (rule object_contract.instances_ok_transition[OF c tr host_ok_keys[OF assms(2) True] i])
    moreover have "\<not> internal_failure r'"
      by (rule object_contract.execute_no_internal[OF c reg s i ex])
    ultimately show ?thesis
      using inst set_update_subset_insert[of "ho_sessions h" k st] by (auto simp: eq)
  qed (use inst step Request in auto)
next
  case (Disconnect k)
  have "instances_ok (builtin_inst utf8) (store_close st)" for st
    by (simp add: instances_ok_def store_close_def)
  then show ?thesis
    using inst step Disconnect set_update_subset_insert[of "ho_sessions h" k]
    by (fastforce split: if_splits)
qed (use inst step in \<open>auto simp: instances_ok_def session_store_init_def\<close>)

lemma builtin_run_no_internal:
  assumes "\<forall>s t. utf8 s \<longrightarrow> utf8 t \<longrightarrow> utf8 (s @ t)" and "host_ok (builtin_env utf8) h"
    and "\<forall>st \<in> set (ho_sessions h). instances_ok (builtin_inst utf8) st"
    and "host_run (builtin_env utf8) limits h evs = Some (rs, h')" and "Some r \<in> set rs"
  shows "\<not> internal_failure r"
  using assms(2-5)
proof (induction evs arbitrary: h rs)
  case (Cons ev evs)
  have reg: "registry_ok (de_registry (builtin_env utf8))"
    by (simp add: builtin_registry_ok)
  obtain r1 h1 where step: "host_step (builtin_env utf8) limits h ev = Some (r1, h1)"
    and h1: "host_ok (builtin_env utf8) h1"
    using host_step_ok[OF reg Cons.prems(1)] by blast
  obtain rs1 where run: "host_run (builtin_env utf8) limits h1 evs = Some (rs1, h')" and rs: "rs = r1 # rs1"
    using Cons.prems(3) step by auto
  have one: "(\<forall>st \<in> set (ho_sessions h1). instances_ok (builtin_inst utf8) st) \<and>
      (\<forall>r. r1 = Some r \<longrightarrow> \<not> internal_failure r)"
    by (rule builtin_step_no_internal[OF assms(1) Cons.prems(1,2) step])
  show ?case
    using one Cons.prems(4) Cons.IH[OF h1 conjunct1[OF one] run] unfolding rs by auto
qed simp

text \<open>
  Property C19. A server that links the built-in classes never answers \<open>internal_failure\<close>, whatever
  its clients send, if the UTF-8 check accepts the concatenation of two strings it accepts.
\<close>

theorem builtins_never_fail_internally:
  assumes "\<forall>s t. utf8 s \<longrightarrow> utf8 t \<longrightarrow> utf8 (s @ t)"
    and "host_run (builtin_env utf8) limits host_init evs = Some (rs, h)" and "Some r \<in> set rs"
  shows "\<not> internal_failure r"
  by (rule builtin_run_no_internal[OF assms(1) host_ok_init _ assms(2,3)]) (simp add: host_init_def)

theorem builtins_never_fail_internally_witness:
  "\<exists>r h. host_run demo_env demo_limits host_init [Connect, Request 0 demo_create] = Some ([None, Some r], h) \<and>
     \<not> internal_failure r"
proof -
  obtain rs h where run: "host_run demo_env demo_limits host_init [Connect, Request 0 demo_create] = Some (rs, h)"
    using host_run_ok[OF demo_registry_ok host_ok_init] by blast
  moreover have "map_option (map (map_option is_error) \<circ> fst)
      (host_run demo_env demo_limits host_init [Connect, Request 0 demo_create]) = Some [None, Some False]"
    by code_simp
  ultimately obtain r where "rs = [None, Some r]"
    by (auto simp: map_eq_Cons_conv simp del: host_run.simps host_step.simps)
  then show ?thesis
    using builtins_never_fail_internally[of structurally_valid demo_limits "[Connect, Request 0 demo_create]" rs h r]
      run utf8_table.utf8_append by (auto simp del: host_run.simps host_step.simps)
qed

end
