(* ===== verification/Dispatcher.thy ===== *)
theory Dispatcher
  imports Codec_Properties Domain_Properties
begin

section \<open>The dispatcher\<close>

text \<open>
  Models \<open>src/server/dispatcher.cpp\<close>: \<open>operation_name\<close>, \<open>dispatch\<close>, \<open>process\<close> and \<open>reject\<close>. The
  lines \<open>process\<close> writes to the optional diagnostic log are part of its result; the profiling
  scope of \<open>dispatch\<close> only times the call. The lemma \<open>execute_outcome_ok\<close> connects the session
  store with the codec: every outcome a store produces is well formed, so the encoder can only
  refuse it for its serialised size.
\<close>

datatype log_level = Log_debug | Log_info | Log_warning | Log_error

type_synonym log_line = "log_level \<times> string"

text \<open>
  \<open>std::to_string\<close> of an unsigned number.
\<close>

fun decimal :: "nat \<Rightarrow> string" where
  "decimal n = (if n < 10 then [char_of (48 + n)] else decimal (n div 10) @ [char_of (48 + n mod 10)])"

declare decimal.simps [simp del]

fun operation_name :: "operation \<Rightarrow> string" where
  "operation_name (List_classes after limit) = ''list_classes''"
| "operation_name (Describe_class name) = ''describe_class''"
| "operation_name (Put_value v) = ''put_value''"
| "operation_name (Get_value i) = ''get_value''"
| "operation_name (List_values after limit) = ''list_values''"
| "operation_name (Create_object name args) = ''create_object''"
| "operation_name (Get_object i) = ''get_object''"
| "operation_name (Release_object i) = ''release_object''"
| "operation_name (Get_attribute i name) = ''get_attribute''"
| "operation_name (Invoke_method i name args) = ''invoke_method''"

definition dispatch_log :: "request \<Rightarrow> outcome \<Rightarrow> log_line" where
  "dispatch_log req r =
     (let code = (case r of Remote_error e \<Rightarrow> nat (error_int (re_code e)) | _ \<Rightarrow> 0)
      in (case r of Remote_error e \<Rightarrow> Log_warning | _ \<Rightarrow> Log_info,
          ''request='' @ decimal (unat (rq_id req)) @ '' operation='' @ operation_name (rq_body req) @
          '' code='' @ decimal code))"

type_synonym 'o dispatched = "(response result \<times> log_line list \<times> identifier_source \<times> 'o session_store) option"

definition dispatcher_process ::
  "'o domain_env \<Rightarrow> bool \<Rightarrow> identifier_source \<Rightarrow> 'o session_store \<Rightarrow> request \<Rightarrow> 'o dispatched" where
  "dispatcher_process env diagnostics ids st req =
     (if rq_id req = 0
      then Some (Inl \<lparr>fl_code = FC_invalid_fields, fl_close_session = True, fl_request_id = None\<rparr>, [], ids, st)
      else case (if rq_version req = protocol_version then execute env ids st (rq_body req)
                 else Some (Remote_error (make_error EC_unsupported_version), ids, st)) of
        None \<Rightarrow> None
      | Some (r, ids', st') \<Rightarrow>
          Some (Inr \<lparr>rs_id = rq_id req, rs_body = r, rs_version = protocol_version\<rparr>,
                if diagnostics then [dispatch_log req r] else [], ids', st'))"

definition dispatcher_dispatch ::
  "'o domain_env \<Rightarrow> bool \<Rightarrow> identifier_source \<Rightarrow> 'o session_store \<Rightarrow> request \<Rightarrow> 'o dispatched" where
  "dispatcher_dispatch env diagnostics ids st req = dispatcher_process env diagnostics ids st req"

definition dispatcher_reject :: "failure \<Rightarrow> response result" where
  "dispatcher_reject f =
     (if fl_close_session f \<or> fl_request_id f = None \<or> fl_request_id f = Some 0 \<or>
         fl_code f = FC_malformed \<or> fl_code f = FC_truncated
      then Inl \<lparr>fl_code = fl_code f, fl_close_session = True, fl_request_id = None\<rparr>
      else let code = (if fl_code f = FC_unsupported_version then EC_unsupported_version
                       else if fl_code f = FC_limit_exceeded then EC_quota_exceeded
                       else EC_invalid_request)
           in Inr \<lparr>rs_id = the (fl_request_id f), rs_body = Remote_error (make_error code),
                   rs_version = protocol_version\<rparr>)"

subsection \<open>Outcomes of the store are well formed\<close>

lemma make_error_int: "1 \<le> error_int (re_code (make_error c)) \<and> error_int (re_code (make_error c)) \<le> 10"
  by (simp add: make_error_def)

lemma make_error_message_length: "length (re_message (make_error c)) \<le> max_string_bytes"
  by (simp add: make_error_def max_string_bytes_def)

lemma error_outcome_ok: "utf8_validator utf8 \<Longrightarrow> outcome_ok utf8 (Remote_error (make_error c))"
  using make_error_int[of c] make_error_message_length[of c] utf8_validator.utf8_make_error[of utf8 c] by simp

lemma sorted_wrt_dropWhile_take:
  "sorted_wrt P (map f xs) \<Longrightarrow> sorted_wrt P (map f (take k (dropWhile Q xs)))"
  by (metis map_append sorted_wrt_append sorted_wrt_take take_map takeWhile_dropWhile_id)

lemma in_take_dropWhile: "x \<in> set (take k (dropWhile Q xs)) \<Longrightarrow> x \<in> set xs"
  by (meson in_set_takeD set_dropWhileD)

lemma classes_outcome_ok:
  assumes "utf8_validator utf8" and "registry_ok r" and "registry_list r after limit = Some p"
  shows "outcome_ok utf8 (widen_classes_page p)"
proof (cases "valid_name after True \<and> valid_page_size limit")
  case True
  define rest where "rest = dropWhile (\<lambda>e. df_name e \<le> after) r"
  have p: "p = Inr \<lparr>cp_names = map df_name (take (unat limit) rest),
      cp_next = (if length rest \<le> unat limit then [] else df_name (last (take (unat limit) rest)))\<rparr>"
    using registry_list_page[OF _ _ rest_def, of limit] True assms(3) by simp
  have "unat limit \<le> max_entries" "0 < unat limit"
    using True valid_page_size_pos by (auto simp: valid_page_size_def)
  moreover have "valid_name (df_name d) False" if "d \<in> set (take (unat limit) rest)" for d
    using that in_take_dropWhile registry_ok_name[OF assms(2)] unfolding rest_def by metis
  moreover have "sorted_wrt (<) (map df_name (take (unat limit) rest))"
    using assms(2) unfolding rest_def by (intro sorted_wrt_dropWhile_take) (simp add: registry_ok_def)
  moreover have "take (unat limit) rest \<noteq> []" if "\<not> length rest \<le> unat limit"
    using that \<open>0 < unat limit\<close> by auto
  ultimately show ?thesis by (auto simp: p last_map)
next
  case False
  then have "p = Inl (make_error EC_invalid_request)"
    using assms(3) by (auto simp: registry_list_def split: if_splits)
  then show ?thesis using error_outcome_ok[OF assms(1)] by simp
qed

lemma values_outcome_ok:
  assumes "utf8_validator (de_utf8 env)" and "contents_ok env st" and "keys_ok ids st"
    and "apply_list_values st after limit = Some r"
  shows "outcome_ok (de_utf8 env) r"
proof (cases "valid_page_size limit")
  case True
  define rest where "rest = om_upper_bound after (ss_values st)"
  obtain k where k: "k \<le> length rest" "k \<le> unat limit" "rest \<noteq> [] \<Longrightarrow> 0 < k"
    and page: "apply_list_values st after limit = Some (Values_page
      \<lparr>vp_values = map mk_record (take k rest),
       vp_next = (if k = length rest then 0 else fst (last (take k rest)))\<rparr>)"
    by (rule list_values_page[OF assms(2) True rest_def]) blast
  have rest: "rest = dropWhile (\<lambda>e. fst e \<le> after) (ss_values st)"
    by (simp add: rest_def om_upper_bound_def case_prod_unfold)
  have "unat limit \<le> max_entries"
    using True by (simp add: valid_page_size_def)
  moreover have "fst e \<noteq> 0 \<and> valid_value (de_utf8 env) (snd e)" if "e \<in> set (take k rest)" for e
  proof -
    have "e \<in> set (ss_values st)"
      using that unfolding rest by (rule in_take_dropWhile)
    then show ?thesis
      using assms(2,3) by (auto simp: contents_ok_def keys_ok_def issued_def)
  qed
  moreover have "sorted_wrt (<) (map fst (take k rest))"
    using assms(3) unfolding rest by (intro sorted_wrt_dropWhile_take) (simp add: keys_ok_def om_ok_def)
  moreover have "take k rest \<noteq> []" if "k \<noteq> length rest"
    using that k by (cases rest) auto
  moreover have "vr_id (mk_record e) = fst e" "vr_data (mk_record e) = snd e" for e
    by (simp_all add: mk_record_def)
  moreover have "r = Values_page \<lparr>vp_values = map mk_record (take k rest),
      vp_next = (if k = length rest then 0 else fst (last (take k rest)))\<rparr>"
    using page assms(4) by simp
  ultimately show ?thesis
    using k(2) by (auto simp: comp_def last_map)
next
  case False
  then have "r = Remote_error (make_error EC_invalid_request)"
    using assms(4) by (simp add: apply_list_values_def)
  then show ?thesis using error_outcome_ok[OF assms(1)] by simp
qed

lemma state_matches_named: "state_matches utf8 d s \<Longrightarrow> valid_named_values utf8 s"
  by (auto simp: state_matches_def split: if_splits)

lemma get_object_outcome_ok:
  assumes "utf8_validator (de_utf8 env)" and "registry_ok (de_registry env)" and "store_ok env ids st"
  shows "outcome_ok (de_utf8 env) (apply_get_object env st i)"
proof (cases "om_find (ss_objects st) i")
  case (Some entry)
  have "om_ok (ss_objects st)"
    using assms(3) by (simp add: store_ok_def keys_ok_def)
  then have "(i, entry) \<in> set (ss_objects st)"
    using om.find_Some_iff[of "ss_objects st" i entry] Some by simp
  then have "object_ok env entry"
    using assms(3) unfolding store_ok_def contents_ok_def by fastforce
  then have "definition_ok (so_definition entry)"
    "valid_named_values (de_utf8 env) (oc_state (de_class env) (so_instance entry))"
    using registry_find_ok[OF assms(2), of "df_name (so_definition entry)" "so_definition entry"]
      state_matches_named[of "de_utf8 env" "so_definition entry"]
    by (simp_all add: object_ok_def)
  then show ?thesis
    using Some error_outcome_ok[OF assms(1)] valid_description_name
    by (simp add: apply_get_object_def definition_ok_def Let_def)
qed (use error_outcome_ok[OF assms(1)] in \<open>auto simp: apply_get_object_def\<close>)

lemma execute_outcome_ok:
  assumes "utf8_validator (de_utf8 env)" and "registry_ok (de_registry env)" and "store_ok env ids st"
    and "execute env ids st oper = Some (r, ids', st')"
  shows "outcome_ok (de_utf8 env) r"
proof -
  note err = error_outcome_ok[OF assms(1)]
  have ok: "contents_ok env st" "keys_ok ids st"
    using assms(3) by (simp_all add: store_ok_def)
  have tr: "transition env ids st oper r ids' st'"
    by (rule execute_transition[OF assms(2-4)])
  show ?thesis
  proof (cases "ss_closed st")
    case False
    show ?thesis
    proof (cases oper)
      case (List_classes after limit)
      then show ?thesis using assms(4) False classes_outcome_ok[OF assms(1,2)]
        by (auto simp: execute_def apply_list_classes_def)
    next
      case (Describe_class name)
      then show ?thesis using assms(4) False err registry_find_ok[OF assms(2)]
        by (auto simp: execute_def apply_describe_class_def definition_ok_def split: option.splits)
    next
      case (List_values after limit)
      then show ?thesis using assms(4) False values_outcome_ok[OF assms(1) ok]
        by (auto simp: execute_def)
    next
      case (Get_value i)
      have "valid_value (de_utf8 env) v" if "om_find (ss_values st) i = Some v" for v
        using that ok om.find_Some_iff[of "ss_values st"] by (force simp: contents_ok_def keys_ok_def)
      then show ?thesis using assms(4) False err Get_value
        by (auto simp: execute_def apply_get_value_def split: option.splits)
    next
      case (Get_object i)
      then show ?thesis using assms(4) False get_object_outcome_ok[OF assms(1-3)] by (auto simp: execute_def)
    next
      case (Get_attribute i name)
      then show ?thesis
        using assms(4) False err get_object_outcome_ok[OF assms(1-3), of i]
          valid_named_valuesD(3)[of "de_utf8 env"] find_Some_set
        by (fastforce simp: execute_def apply_get_attribute_def split: if_splits outcome.splits option.splits)
    next
      case (Put_value v)
      from tr show ?thesis
      proof cases
        case Unchanged
        then show ?thesis using assms(4) False err Put_value
          by (auto simp: execute_def apply_put_value_def Let_def split: if_splits prod.splits option.splits)
      qed (use Put_value in auto)
    next
      case (Create_object name args)
      have errs: "outcome_ok (de_utf8 env) r" if "is_error r"
        using that assms(4) False err Create_object
        by (auto simp: execute_def apply_create_object_def Let_def split: if_splits prod.splits option.splits sum.splits)
      from tr show ?thesis
      proof cases
        case (Created name' d create args' inst)
        then show ?thesis
          using registry_find_ok[OF assms(2) Created(6)] state_matches_named
          by (auto simp: definition_ok_def valid_description_name)
      qed (use Create_object errs in auto)
    next
      case (Release_object i)
      then show ?thesis using assms(4) False err
        by (auto simp: execute_def apply_release_object_def split: if_splits option.splits)
    next
      case (Invoke_method i name args)
      have errs: "outcome_ok (de_utf8 env) r" if "is_error r"
        using that assms(4) False err Invoke_method
        by (auto simp: execute_def apply_invoke_method_def Let_def split: if_splits prod.splits option.splits sum.splits)
      from tr show ?thesis
      proof cases
        case (Invoked i' entry name' meth args' copy inst v)
        then show ?thesis by auto
      qed (use Invoke_method errs in auto)
    qed
  qed (use assms(4) err in \<open>auto simp: execute_def\<close>)
qed

lemma dispatch_defined:
  assumes "registry_ok (de_registry env)" and "store_ok env ids st" and "rq_id req \<noteq> 0"
  obtains r lg ids' st' where "dispatcher_dispatch env diagnostics ids st req =
      Some (Inr \<lparr>rs_id = rq_id req, rs_body = r, rs_version = protocol_version\<rparr>, lg, ids', st')"
    and "if rq_version req = protocol_version then execute env ids st (rq_body req) = Some (r, ids', st')
         else r = Remote_error (make_error EC_unsupported_version) \<and> ids' = ids \<and> st' = st"
  using execute_defined[OF assms(1,2), of "rq_body req"] assms(3)
  by (fastforce simp: dispatcher_dispatch_def dispatcher_process_def split: if_splits)

subsection \<open>Properties\<close>





end
