(* ===== verification/Transport.thy ===== *)
theory Transport
  imports Framing
begin

section \<open>Transport results, endpoints and completion\<close>

text \<open>
  Models \<open>include/pipeforge/transport.hpp\<close> and \<open>src/transport/completion.hpp\<close>/\<open>.cpp\<close>: the failure
  type of the transport, \<open>valid_endpoint\<close>, and \<open>resolve_pending\<close> over an injected completion
  backend. Wide characters are 16-bit words, as \<open>wchar_t\<close> is on Windows. Times are nanoseconds of
  the steady clock as integers. A backend is a record of its three virtual functions on its
  state \<^typ>\<open>'b\<close>.
\<close>

type_synonym wchar = "16 word"
type_synonym wstring = "wchar list"

definition wide :: "string \<Rightarrow> wstring" where
  "wide s = map (\<lambda>c. of_nat (of_char c)) s"

datatype failure_kind =
    TK_invalid_configuration
  | TK_timeout
  | TK_cancelled
  | TK_disconnected
  | TK_access_denied
  | TK_io_failure
  | TK_protocol_violation

record transport_failure =
  tf_kind :: failure_kind
  tf_native_error :: u32
  tf_framing :: "failure option"

type_synonym 'a transport_result = "transport_failure + 'a"

type_synonym deadline = int

definition deadline_max :: deadline where
  "deadline_max = 9223372036854775807"

definition backslash :: wchar where "backslash = 0x5C"

definition endpoint_prefix :: wstring where
  "endpoint_prefix = [backslash, backslash, 0x2E, backslash] @ wide ''pipe'' @ [backslash]"

definition default_endpoint :: wstring where
  "default_endpoint = endpoint_prefix @ wide ''pipeforge-v1''"

definition default_timeout :: int where "default_timeout = 5000"
definition minimum_timeout :: int where "minimum_timeout = 10"
definition maximum_timeout :: int where "maximum_timeout = 60000"
definition max_sessions :: nat where "max_sessions = 4"

abbreviation plain_failure :: "failure_kind \<Rightarrow> transport_failure" where
  "plain_failure kind \<equiv> \<lparr>tf_kind = kind, tf_native_error = 0, tf_framing = None\<rparr>"

definition endpoint_char :: "wchar \<Rightarrow> bool" where
  "endpoint_char c \<longleftrightarrow> (0x61 \<le> c \<and> c \<le> 0x7A) \<or> (0x41 \<le> c \<and> c \<le> 0x5A) \<or> (0x30 \<le> c \<and> c \<le> 0x39) \<or>
     c = 0x5F \<or> c = 0x2D \<or> c = 0x2E"

definition valid_endpoint :: "wstring \<Rightarrow> bool" where
  "valid_endpoint name =
     (if take (length endpoint_prefix) name \<noteq> endpoint_prefix \<or> length name \<le> length endpoint_prefix \<or>
         length name > 240
      then False
      else list_all endpoint_char (drop (length endpoint_prefix) name))"

subsection \<open>Completion\<close>

datatype wake_reason = Wake_completed | Wake_expired | Wake_stopped | Wake_failed

record wake_result =
  wk_reason :: wake_reason
  wk_native_error :: u32

record 'b completion_backend =
  cb_wait :: "deadline \<Rightarrow> 'b \<Rightarrow> wake_result \<times> 'b"
  cb_cancel :: "'b \<Rightarrow> u32 \<times> 'b"
  cb_complete :: "bool \<Rightarrow> 'b \<Rightarrow> nat transport_result \<times> 'b"

definition resolve_pending ::
  "'b completion_backend \<Rightarrow> deadline \<Rightarrow> 'b \<Rightarrow> nat transport_result \<times> 'b" where
  "resolve_pending cb until s =
     (let (wake, s) = cb_wait cb until s in
      if wk_reason wake = Wake_completed then cb_complete cb False s
      else
        let (cancellation_error, s) = cb_cancel cb s;
            (drained, s) = cb_complete cb True s;
            native_error = (if wk_reason wake = Wake_failed then wk_native_error wake
                            else case drained of Inl e \<Rightarrow> tf_native_error e | Inr _ \<Rightarrow> cancellation_error);
            kind = (if wk_reason wake = Wake_expired then TK_timeout
                    else if wk_reason wake = Wake_stopped then TK_cancelled
                    else TK_io_failure)
        in (Inl \<lparr>tf_kind = kind, tf_native_error = native_error, tf_framing = None\<rparr>, s))"

text \<open>
  Whatever the backend does, \<open>resolve_pending\<close> ends with one of its completion calls, and with the
  draining one unless the wait reported completion.
\<close>

lemma resolve_pending_last_call:
  "\<exists>s' wait. snd (resolve_pending cb until s) = snd (cb_complete cb wait s') \<and>
     (\<not> wait \<longrightarrow> s' = snd (cb_wait cb until s) \<and> wk_reason (fst (cb_wait cb until s)) = Wake_completed)"
proof (cases "wk_reason (fst (cb_wait cb until s)) = Wake_completed")
  case True
  then show ?thesis
    by (intro exI[of _ "snd (cb_wait cb until s)"] exI[of _ False])
      (simp add: resolve_pending_def case_prod_unfold)
next
  case False
  then show ?thesis
    by (intro exI[of _ "snd (cb_cancel cb (snd (cb_wait cb until s)))"] exI[of _ True])
      (simp add: resolve_pending_def case_prod_unfold Let_def)
qed

end
