(* ===== verification/Native.thy ===== *)
theory Native
  imports Transport
begin

section \<open>Overlapped I/O on Windows\<close>

text \<open>
  Models \<open>src/transport/windows/native.hpp\<close>/\<open>.cpp\<close>. The operating system is a parameter: a record
  \<open>win32\<close> with one function per system call the code makes (and for the clock, the stop token,
  thread creation and the timed lock), each on the system's state \<^typ>\<open>'k\<close>, which covers the pipe handle, the events and the
  buffer of the operation in flight. \<open>GetLastError\<close> reads that state.

  What the code relies on is \<open>kernel_contract\<close>, the documented behaviour of overlapped operations:
  an operation is in flight only between a call that reports \<open>ERROR_IO_PENDING\<close> and a
  \<open>GetOverlappedResult\<close> that waits, succeeds, or fails with another code than
  \<open>ERROR_IO_INCOMPLETE\<close>. The lemmas \<open>accept_transferred\<close>, \<open>read_transferred\<close> and
  \<open>write_transferred\<close> are what the stream relies on: when a call returns nothing is in flight any
  more, and a success moved exactly the reported bytes.
\<close>

unbundle bit_operations_syntax

type_synonym handle = u64

text \<open>
  A \<open>TOKEN_GROUPS\<close> answer (the size written, the group count and the first SID) and the arguments of
  \<open>CreateNamedPipeW\<close>. A security descriptor is an opaque block of memory.
\<close>

type_synonym descriptor = bytes

record token_groups =
  tg_size :: u32
  tg_count :: u32
  tg_sid :: bytes

record pipe_request =
  pq_name :: wstring
  pq_open_mode :: u32
  pq_pipe_mode :: u32
  pq_instances :: u32
  pq_out_bytes :: u32
  pq_in_bytes :: u32
  pq_default_timeout :: u32
  pq_descriptor :: descriptor
  pq_inherit :: bool

record 'k win32 =
  w_now :: "'k \<Rightarrow> int \<times> 'k"
  w_stop_requested :: "'k \<Rightarrow> bool \<times> 'k"
  w_last_error :: "'k \<Rightarrow> u32"
  w_create_event :: "'k \<Rightarrow> bool \<times> 'k"
  w_connect_named_pipe :: "'k \<Rightarrow> bool \<times> 'k"
  w_read_file :: "u32 \<Rightarrow> 'k \<Rightarrow> (bool \<times> u32) \<times> 'k"
  w_write_file :: "bytes \<Rightarrow> 'k \<Rightarrow> (bool \<times> u32) \<times> 'k"
  w_wait_objects :: "u32 \<Rightarrow> 'k \<Rightarrow> u32 \<times> 'k"
  w_cancel_io :: "'k \<Rightarrow> bool \<times> 'k"
  w_overlapped_result :: "bool \<Rightarrow> 'k \<Rightarrow> (bool \<times> u32) \<times> 'k"
  w_buffer :: "'k \<Rightarrow> bytes"
  w_close_handle :: "handle \<Rightarrow> 'k \<Rightarrow> 'k"
  w_open_process_token :: "'k \<Rightarrow> (bool \<times> handle) \<times> 'k"
  w_logon_sid :: "handle \<Rightarrow> u32 \<Rightarrow> 'k \<Rightarrow> (bool \<times> token_groups) \<times> 'k"
  w_is_valid_sid :: "bytes \<Rightarrow> bool"
  w_sid_to_string :: "bytes \<Rightarrow> 'k \<Rightarrow> wstring option \<times> 'k"
  w_sddl_to_descriptor :: "wstring \<Rightarrow> 'k \<Rightarrow> descriptor option \<times> 'k"
  w_create_named_pipe :: "pipe_request \<Rightarrow> 'k \<Rightarrow> handle \<times> 'k"
  w_disconnect_named_pipe :: "'k \<Rightarrow> bool \<times> 'k"
  w_create_file :: "wstring \<Rightarrow> u32 \<Rightarrow> u32 \<Rightarrow> 'k \<Rightarrow> handle \<times> 'k"
  w_wait_named_pipe :: "wstring \<Rightarrow> u32 \<Rightarrow> 'k \<Rightarrow> bool \<times> 'k"
  w_wait_single :: "u32 \<Rightarrow> 'k \<Rightarrow> u32 \<times> 'k"
  w_request_stop :: "'k \<Rightarrow> 'k"
  w_start_thread :: "'k \<Rightarrow> u32 option \<times> 'k"
  w_try_lock :: "'k \<Rightarrow> bool \<times> 'k"

definition ERROR_SUCCESS :: u32 where "ERROR_SUCCESS = 0"
definition ERROR_FILE_NOT_FOUND :: u32 where "ERROR_FILE_NOT_FOUND = 2"
definition ERROR_ACCESS_DENIED :: u32 where "ERROR_ACCESS_DENIED = 5"
definition ERROR_BROKEN_PIPE :: u32 where "ERROR_BROKEN_PIPE = 109"
definition ERROR_SEM_TIMEOUT :: u32 where "ERROR_SEM_TIMEOUT = 121"
definition ERROR_PIPE_BUSY :: u32 where "ERROR_PIPE_BUSY = 231"
definition ERROR_NO_DATA :: u32 where "ERROR_NO_DATA = 232"
definition ERROR_PIPE_NOT_CONNECTED :: u32 where "ERROR_PIPE_NOT_CONNECTED = 233"
definition ERROR_PIPE_CONNECTED :: u32 where "ERROR_PIPE_CONNECTED = 535"
definition ERROR_OPERATION_ABORTED :: u32 where "ERROR_OPERATION_ABORTED = 995"
definition ERROR_IO_INCOMPLETE :: u32 where "ERROR_IO_INCOMPLETE = 996"
definition ERROR_IO_PENDING :: u32 where "ERROR_IO_PENDING = 997"
definition ERROR_INVALID_SID :: u32 where "ERROR_INVALID_SID = 1337"
definition INFINITE :: u32 where "INFINITE = 0xFFFFFFFF"
definition WAIT_OBJECT_0 :: u32 where "WAIT_OBJECT_0 = 0"
definition WAIT_FAILED :: u32 where "WAIT_FAILED = 0xFFFFFFFF"
definition WAIT_TIMEOUT :: u32 where "WAIT_TIMEOUT = 258"

definition buffer_bytes :: nat where
  "buffer_bytes = 16 * 1024"

definition io_failure :: "u32 \<Rightarrow> transport_failure" where
  "io_failure code =
     (if code = ERROR_BROKEN_PIPE \<or> code = ERROR_PIPE_NOT_CONNECTED \<or> code = ERROR_NO_DATA
      then \<lparr>tf_kind = TK_disconnected, tf_native_error = code, tf_framing = None\<rparr>
      else if code = ERROR_ACCESS_DENIED
      then \<lparr>tf_kind = TK_access_denied, tf_native_error = code, tf_framing = None\<rparr>
      else if code = ERROR_OPERATION_ABORTED
      then \<lparr>tf_kind = TK_cancelled, tf_native_error = code, tf_framing = None\<rparr>
      else \<lparr>tf_kind = TK_io_failure, tf_native_error = code, tf_framing = None\<rparr>)"

text \<open>
  \<open>std::chrono::ceil\<close> to milliseconds; the difference of two time points is taken in nanoseconds.
\<close>

definition ceil_milliseconds :: "int \<Rightarrow> int" where
  "ceil_milliseconds ns = - ((- ns) div 1000000)"

definition remaining :: "'k win32 \<Rightarrow> deadline \<Rightarrow> 'k \<Rightarrow> u32 \<times> 'k" where
  "remaining w until s =
     (if until = deadline_max then (INFINITE, s)
      else let (now, s) = w_now w s; milliseconds = ceil_milliseconds (until - now) in
        if milliseconds \<le> 0 then (0, s)
        else (word_of_int (min milliseconds (uint (INFINITE - 1))), s))"

definition preflight :: "'k win32 \<Rightarrow> deadline \<Rightarrow> 'k \<Rightarrow> transport_failure option \<times> 'k" where
  "preflight w until s =
     (let (stopped, s) = w_stop_requested w s in
      if stopped then (Some (plain_failure TK_cancelled), s)
      else let (now, s) = w_now w s in
        if now \<ge> until then (Some (plain_failure TK_timeout), s) else (None, s))"

subsection \<open>Handles\<close>

definition INVALID_HANDLE_VALUE :: handle where "INVALID_HANDLE_VALUE = - 1"

record unique_handle =
  uh_handle :: handle

definition handle_valid :: "unique_handle \<Rightarrow> bool" where
  "handle_valid h \<longleftrightarrow> uh_handle h \<noteq> 0 \<and> uh_handle h \<noteq> INVALID_HANDLE_VALUE"

definition handle_reset :: "'k win32 \<Rightarrow> handle \<Rightarrow> unique_handle \<Rightarrow> 'k \<Rightarrow> unique_handle \<times> 'k" where
  "handle_reset w new h s = (h\<lparr>uh_handle := new\<rparr>, if handle_valid h then w_close_handle w (uh_handle h) s else s)"

definition handle_release :: "unique_handle \<Rightarrow> handle \<times> unique_handle" where
  "handle_release h = (uh_handle h, h\<lparr>uh_handle := 0\<rparr>)"

text \<open>
  The move assignment between two different handles; assigning a handle to itself does nothing.
\<close>

definition handle_move :: "'k win32 \<Rightarrow> unique_handle \<Rightarrow> unique_handle \<Rightarrow> 'k \<Rightarrow> (unique_handle \<times> unique_handle) \<times> 'k" where
  "handle_move w target source s =
     (let (moved, source) = handle_release source; (target, s) = handle_reset w moved target s
      in ((target, source), s))"

definition handle_destroy :: "'k win32 \<Rightarrow> unique_handle \<Rightarrow> 'k \<Rightarrow> 'k" where
  "handle_destroy w h s = snd (handle_reset w 0 h s)"

subsection \<open>Security and pipe instances\<close>

text \<open>
  \<open>sizeof(TOKEN_GROUPS)\<close> and \<open>SECURITY_MAX_SID_SIZE\<close> on 64-bit Windows.
\<close>

definition token_groups_size :: u32 where "token_groups_size = 24"
definition max_sid_size :: u32 where "max_sid_size = 68"

definition logon_sddl :: "wstring \<Rightarrow> wstring" where
  "logon_sddl sid = wide ''D:P(A;;GA;;;'' @ sid @ wide '')''"

definition logon_security :: "'k win32 \<Rightarrow> 'k \<Rightarrow> descriptor transport_result \<times> 'k" where
  "logon_security w s =
     (let ((opened, raw_token), s) = w_open_process_token w s in
      if \<not> opened then (Inl (io_failure (w_last_error w s)), s)
      else
        let token = \<lparr>uh_handle = raw_token\<rparr>;
            storage_size = token_groups_size + max_sid_size;
            ((queried, groups), s) = w_logon_sid w (uh_handle token) storage_size s in
        if \<not> queried then (Inl (io_failure (w_last_error w s)), handle_destroy w token s)
        else if tg_size groups < token_groups_size \<or> tg_size groups > storage_size \<or>
                tg_count groups \<noteq> 1 \<or> \<not> w_is_valid_sid w (tg_sid groups)
        then (Inl \<lparr>tf_kind = TK_access_denied, tf_native_error = ERROR_INVALID_SID, tf_framing = None\<rparr>,
              handle_destroy w token s)
        else case w_sid_to_string w (tg_sid groups) s of
          (None, s) \<Rightarrow> (Inl (io_failure (w_last_error w s)), handle_destroy w token s)
        | (Some raw_sid, s) \<Rightarrow>
            case w_sddl_to_descriptor w (logon_sddl raw_sid) s of
              (None, s) \<Rightarrow> (Inl (io_failure (w_last_error w s)), handle_destroy w token s)
            | (Some raw_descriptor, s) \<Rightarrow> (Inr raw_descriptor, handle_destroy w token s))"

definition PIPE_ACCESS_DUPLEX :: u32 where "PIPE_ACCESS_DUPLEX = 0x3"
definition FILE_FLAG_OVERLAPPED :: u32 where "FILE_FLAG_OVERLAPPED = 0x40000000"
definition FILE_FLAG_FIRST_PIPE_INSTANCE :: u32 where "FILE_FLAG_FIRST_PIPE_INSTANCE = 0x80000"
definition PIPE_REJECT_REMOTE_CLIENTS :: u32 where "PIPE_REJECT_REMOTE_CLIENTS = 0x8"

text \<open>
  \<open>PIPE_TYPE_BYTE\<close>, \<open>PIPE_READMODE_BYTE\<close> and \<open>PIPE_WAIT\<close> are all zero.
\<close>

definition instance_request :: "wstring \<Rightarrow> nat \<Rightarrow> bool \<Rightarrow> descriptor \<Rightarrow> pipe_request" where
  "instance_request name slots first security =
     \<lparr>pq_name = name,
      pq_open_mode = PIPE_ACCESS_DUPLEX OR FILE_FLAG_OVERLAPPED OR (if first then FILE_FLAG_FIRST_PIPE_INSTANCE else 0),
      pq_pipe_mode = PIPE_REJECT_REMOTE_CLIENTS,
      pq_instances = of_nat slots, pq_out_bytes = of_nat buffer_bytes, pq_in_bytes = of_nat buffer_bytes,
      pq_default_timeout = 0, pq_descriptor = security, pq_inherit = False\<rparr>"

definition create_instance ::
  "'k win32 \<Rightarrow> wstring \<Rightarrow> nat \<Rightarrow> bool \<Rightarrow> descriptor \<Rightarrow> 'k \<Rightarrow> unique_handle transport_result \<times> 'k" where
  "create_instance w name slots first security s =
     (let (raw, s) = w_create_named_pipe w (instance_request name slots first security) s;
          pipe = \<lparr>uh_handle = raw\<rparr> in
      if \<not> handle_valid pipe then (Inl (io_failure (w_last_error w s)), s) else (Inr pipe, s))"

subsection \<open>One overlapped operation\<close>

record overlapped_operation =
  oo_setup_error :: u32
  oo_pending :: bool

definition overlapped_init :: "'k win32 \<Rightarrow> 'k \<Rightarrow> overlapped_operation \<times> 'k" where
  "overlapped_init w s =
     (let (completed, s) = w_create_event w s in
      if \<not> completed then (\<lparr>oo_setup_error = w_last_error w s, oo_pending = False\<rparr>, s)
      else let (cancelled, s) = w_create_event w s in
        if \<not> cancelled then (\<lparr>oo_setup_error = w_last_error w s, oo_pending = False\<rparr>, s)
        else (\<lparr>oo_setup_error = ERROR_SUCCESS, oo_pending = False\<rparr>, s))"

definition overlapped_destroy :: "'k win32 \<Rightarrow> overlapped_operation \<Rightarrow> 'k \<Rightarrow> 'k" where
  "overlapped_destroy w oper s =
     (if oo_pending oper then snd (w_overlapped_result w True (snd (w_cancel_io w s))) else s)"

definition setup_error :: "overlapped_operation \<Rightarrow> transport_failure option" where
  "setup_error oper =
     (if oo_setup_error oper = ERROR_SUCCESS then None else Some (io_failure (oo_setup_error oper)))"

definition mark_pending :: "overlapped_operation \<Rightarrow> overlapped_operation" where
  "mark_pending oper = oper\<lparr>oo_pending := True\<rparr>"

definition overlapped_wait ::
  "'k win32 \<Rightarrow> deadline \<Rightarrow> overlapped_operation \<times> 'k \<Rightarrow> wake_result \<times> overlapped_operation \<times> 'k" where
  "overlapped_wait w until os =
     (let (oper, s) = os;
          (milliseconds, s) = remaining w until s;
          (signalled, s) = w_wait_objects w milliseconds s in
      if signalled = WAIT_OBJECT_0 then (\<lparr>wk_reason = Wake_completed, wk_native_error = 0\<rparr>, oper, s)
      else if signalled = WAIT_OBJECT_0 + 1 then (\<lparr>wk_reason = Wake_stopped, wk_native_error = 0\<rparr>, oper, s)
      else if signalled = WAIT_TIMEOUT then (\<lparr>wk_reason = Wake_expired, wk_native_error = 0\<rparr>, oper, s)
      else (\<lparr>wk_reason = Wake_failed, wk_native_error = w_last_error w s\<rparr>, oper, s))"

definition overlapped_cancel ::
  "'k win32 \<Rightarrow> overlapped_operation \<times> 'k \<Rightarrow> u32 \<times> overlapped_operation \<times> 'k" where
  "overlapped_cancel w os =
     (let (oper, s) = os; (accepted, s) = w_cancel_io w s in
      (if accepted then ERROR_SUCCESS else w_last_error w s, oper, s))"

definition overlapped_complete ::
  "'k win32 \<Rightarrow> bool \<Rightarrow> overlapped_operation \<times> 'k \<Rightarrow> nat transport_result \<times> overlapped_operation \<times> 'k" where
  "overlapped_complete w wait os =
     (let (oper, s) = os; ((finished, transferred), s) = w_overlapped_result w wait s in
      if finished then (Inr (unat transferred), oper\<lparr>oo_pending := False\<rparr>, s)
      else let code = w_last_error w s;
               s = (if code = ERROR_IO_INCOMPLETE
                    then snd (w_overlapped_result w True (snd (w_cancel_io w s))) else s)
           in (Inl (io_failure code), oper\<lparr>oo_pending := False\<rparr>, s))"

definition overlapped_backend :: "'k win32 \<Rightarrow> (overlapped_operation \<times> 'k) completion_backend" where
  "overlapped_backend w =
     \<lparr>cb_wait = overlapped_wait w, cb_cancel = overlapped_cancel w, cb_complete = overlapped_complete w\<rparr>"

text \<open>
  The common course of \<open>accept\<close>, \<open>read_some\<close> and \<open>write_some\<close>: check the deadline, build the operation,
  issue it, and resolve it when it is pending; the operation is destroyed on every way out.
  \<open>issue\<close> is the system call, and \<open>immediate\<close> a code that also means success without data.
\<close>

definition native_operation ::
  "'k win32 \<Rightarrow> deadline \<Rightarrow> ('k \<Rightarrow> (bool \<times> u32) \<times> 'k) \<Rightarrow> u32 option \<Rightarrow> 'k \<Rightarrow> nat transport_result \<times> 'k" where
  "native_operation w until issue immediate s =
     (case preflight w until s of
        (Some e, s) \<Rightarrow> (Inl e, s)
      | (None, s) \<Rightarrow>
        let (oper, s) = overlapped_init w s in
        case setup_error oper of
          Some e \<Rightarrow> (Inl e, overlapped_destroy w oper s)
        | None \<Rightarrow>
          let ((finished, transferred), s) = issue s in
          if finished then (Inr (unat transferred), overlapped_destroy w oper s)
          else let code = w_last_error w s in
            if Some code = immediate then (Inr 0, overlapped_destroy w oper s)
            else if code \<noteq> ERROR_IO_PENDING then (Inl (io_failure code), overlapped_destroy w oper s)
            else let (r, oper, s) = resolve_pending (overlapped_backend w) until (mark_pending oper, s)
                 in (r, overlapped_destroy w oper s))"

definition native_accept :: "'k win32 \<Rightarrow> deadline \<Rightarrow> 'k \<Rightarrow> nat transport_result \<times> 'k" where
  "native_accept w until =
     native_operation w until (\<lambda>s. let (connected, s) = w_connect_named_pipe w s in ((connected, 0), s))
       (Some ERROR_PIPE_CONNECTED)"

definition read_some :: "'k win32 \<Rightarrow> nat \<Rightarrow> deadline \<Rightarrow> 'k \<Rightarrow> nat transport_result \<times> 'k" where
  "read_some w buffer_size until =
     native_operation w until (w_read_file w (of_nat (min buffer_size buffer_bytes))) None"

definition write_some :: "'k win32 \<Rightarrow> bytes \<Rightarrow> deadline \<Rightarrow> 'k \<Rightarrow> nat transport_result \<times> 'k" where
  "write_some w buffer until =
     native_operation w until (w_write_file w (take (min (length buffer) buffer_bytes) buffer)) None"

subsection \<open>The contract of overlapped operations\<close>

text \<open>
  What the code relies on, as documented for overlapped pipe operations. A \<open>pipe_view\<close> observes
  the system's state: the operation that is in flight (whose storage, events and data buffer the
  kernel still refers to), and the bytes this end has put into and taken out of the pipe so far.
  An operation that fails may have moved a part of its data; one that succeeds has moved exactly
  the count it reports, from or to the front of its buffer.
\<close>

datatype flight = Idle | Connecting | Reading nat | Writing bytes

record 'k pipe_view =
  pw_flight :: "'k \<Rightarrow> flight"
  pw_sent :: "'k \<Rightarrow> bytes"
  pw_received :: "'k \<Rightarrow> bytes"

definition quiet :: "'k pipe_view \<Rightarrow> ('k \<Rightarrow> 'r \<times> 'k) \<Rightarrow> bool" where
  "quiet v call \<longleftrightarrow> (\<forall>s. pw_flight v (snd (call s)) = pw_flight v s \<and> pw_sent v (snd (call s)) = pw_sent v s \<and>
     pw_received v (snd (call s)) = pw_received v s)"

fun moved :: "'k win32 \<Rightarrow> 'k pipe_view \<Rightarrow> flight \<Rightarrow> nat \<Rightarrow> 'k \<Rightarrow> 'k \<Rightarrow> bool" where
  "moved w v (Reading room) n s s' =
     (n \<le> room \<and> n \<le> length (w_buffer w s') \<and> pw_received v s' = pw_received v s @ take n (w_buffer w s') \<and>
      pw_sent v s' = pw_sent v s)"
| "moved w v (Writing bs) n s s' =
     (n \<le> length bs \<and> pw_sent v s' = pw_sent v s @ take n bs \<and> pw_received v s' = pw_received v s)"
| "moved w v f n s s' = (pw_sent v s' = pw_sent v s \<and> pw_received v s' = pw_received v s)"

fun moved_part :: "'k pipe_view \<Rightarrow> flight \<Rightarrow> 'k \<Rightarrow> 'k \<Rightarrow> bool" where
  "moved_part v (Reading room) s s' =
     ((\<exists>bs. pw_received v s' = pw_received v s @ bs) \<and> pw_sent v s' = pw_sent v s)"
| "moved_part v (Writing bs) s s' =
     ((\<exists>n. pw_sent v s' = pw_sent v s @ take n bs) \<and> pw_received v s' = pw_received v s)"
| "moved_part v f s s' = (pw_sent v s' = pw_sent v s \<and> pw_received v s' = pw_received v s)"

definition issues :: "'k win32 \<Rightarrow> 'k pipe_view \<Rightarrow> flight \<Rightarrow> ('k \<Rightarrow> (bool \<times> u32) \<times> 'k) \<Rightarrow> bool" where
  "issues w v f call \<longleftrightarrow> (\<forall>s finished n s'. pw_flight v s = Idle \<and> call s = ((finished, n), s') \<longrightarrow>
     (if finished then pw_flight v s' = Idle \<and> moved w v f (unat n) s s'
      else pw_sent v s' = pw_sent v s \<and> pw_received v s' = pw_received v s \<and>
        pw_flight v s' = (if w_last_error w s' = ERROR_IO_PENDING then f else Idle)))"

definition finishes :: "'k win32 \<Rightarrow> 'k pipe_view \<Rightarrow> bool" where
  "finishes w v \<longleftrightarrow> (\<forall>wait s finished n s'. w_overlapped_result w wait s = ((finished, n), s') \<longrightarrow>
     (if finished then pw_flight v s' = Idle \<and> moved w v (pw_flight v s) (unat n) s s'
      else if wait \<or> w_last_error w s' \<noteq> ERROR_IO_INCOMPLETE
      then pw_flight v s' = Idle \<and> moved_part v (pw_flight v s) s s'
      else pw_flight v s' = pw_flight v s \<and> pw_sent v s' = pw_sent v s \<and> pw_received v s' = pw_received v s))"

definition kernel_contract :: "'k win32 \<Rightarrow> 'k pipe_view \<Rightarrow> bool" where
  "kernel_contract w v \<longleftrightarrow>
     quiet v (w_now w) \<and> quiet v (w_stop_requested w) \<and> quiet v (w_create_event w) \<and> quiet v (w_cancel_io w) \<and>
     (\<forall>ms. quiet v (w_wait_objects w ms)) \<and>
     issues w v Connecting (\<lambda>s. let (connected, s) = w_connect_named_pipe w s in ((connected, 0), s)) \<and>
     (\<forall>n. issues w v (Reading (unat n)) (w_read_file w n)) \<and>
     (\<forall>bs. issues w v (Writing bs) (w_write_file w bs)) \<and> finishes w v"

subsection \<open>What the operations guarantee under it\<close>

definition same_view :: "'k pipe_view \<Rightarrow> 'k \<Rightarrow> 'k \<Rightarrow> bool" where
  "same_view v s s' \<longleftrightarrow> pw_flight v s' = pw_flight v s \<and> pw_sent v s' = pw_sent v s \<and> pw_received v s' = pw_received v s"

lemma same_view_refl [simp]: "same_view v s s"
  by (simp add: same_view_def)

lemma same_view_trans [trans]: "same_view v s s' \<Longrightarrow> same_view v s' s'' \<Longrightarrow> same_view v s s''"
  by (simp add: same_view_def)

lemma quietD: "quiet v call \<Longrightarrow> call s = (r, s') \<Longrightarrow> same_view v s s'"
  unfolding quiet_def same_view_def by (metis snd_conv)

lemma moved_same_view: "same_view v s s' \<Longrightarrow> moved w v f n s' s'' \<Longrightarrow> moved w v f n s s''"
  by (cases f) (auto simp: same_view_def)

lemma moved_part_same_view: "same_view v s s' \<Longrightarrow> moved_part v f s' s'' \<Longrightarrow> moved_part v f s s''"
  by (cases f) (auto simp: same_view_def)

lemma moved_is_part: "moved w v f n s s' \<Longrightarrow> moved_part v f s s'"
  by (cases f) auto

lemma unmoved_is_part: "pw_sent v s' = pw_sent v s \<Longrightarrow> pw_received v s' = pw_received v s \<Longrightarrow> moved_part v f s s'"
  by (cases f) (auto intro: exI[of _ 0])

definition transferred :: "'k win32 \<Rightarrow> 'k pipe_view \<Rightarrow> flight \<Rightarrow> 'k \<Rightarrow> nat transport_result \<Rightarrow> 'k \<Rightarrow> bool" where
  "transferred w v f s r s' \<longleftrightarrow> pw_flight v s' = Idle \<and>
     (case r of Inr n \<Rightarrow> moved w v f n s s' | Inl e \<Rightarrow> moved_part v f s s')"

lemma transferred_same_view: "same_view v s s' \<Longrightarrow> transferred w v f s' r s'' \<Longrightarrow> transferred w v f s r s''"
  by (auto simp: transferred_def split: sum.splits intro: moved_same_view moved_part_same_view)

lemma transferred_Inl: "transferred w v f s r s' \<Longrightarrow> transferred w v f s (Inl e) s'"
  by (auto simp: transferred_def split: sum.splits intro: moved_is_part)

lemma kernel_contractD:
  assumes "kernel_contract w v"
  shows "w_now w s = (t, s') \<Longrightarrow> same_view v s s'" and "w_stop_requested w s = (b, s') \<Longrightarrow> same_view v s s'"
    and "w_create_event w s = (b, s') \<Longrightarrow> same_view v s s'" and "w_cancel_io w s = (b, s') \<Longrightarrow> same_view v s s'"
    and "w_wait_objects w ms s = (c, s') \<Longrightarrow> same_view v s s'" and "finishes w v"
proof -
  from assms have "quiet v (w_now w)" "quiet v (w_stop_requested w)" "quiet v (w_create_event w)"
    "quiet v (w_cancel_io w)" "quiet v (w_wait_objects w ms)" and fin: "finishes w v"
    by (simp_all add: kernel_contract_def)
  note q = this(1-5)[THEN quietD]
  show "w_now w s = (t, s') \<Longrightarrow> same_view v s s'" by (rule q(1))
  show "w_stop_requested w s = (b, s') \<Longrightarrow> same_view v s s'" by (rule q(2))
  show "w_create_event w s = (b, s') \<Longrightarrow> same_view v s s'" by (rule q(3))
  show "w_cancel_io w s = (b, s') \<Longrightarrow> same_view v s s'" by (rule q(4))
  show "w_wait_objects w ms s = (c, s') \<Longrightarrow> same_view v s s'" by (rule q(5))
  show "finishes w v" by (rule fin)
qed

lemma preflight_view:
  assumes "kernel_contract w v" and "preflight w until s = (e, s')"
  shows "same_view v s s'"
proof -
  obtain stopped s1 where s1: "w_stop_requested w s = (stopped, s1)" by (metis surj_pair)
  obtain now s2 where s2: "w_now w s1 = (now, s2)" by (metis surj_pair)
  note k = kernel_contractD(2)[OF assms(1) s1] kernel_contractD(1)[OF assms(1) s2]
  show ?thesis
    using assms(2) k same_view_trans[OF k] by (auto simp: preflight_def s1 s2 split: if_splits)
qed

lemma remaining_view:
  assumes "kernel_contract w v" and "remaining w until s = (n, s')"
  shows "same_view v s s'"
proof -
  obtain now s1 where s1: "w_now w s = (now, s1)" by (metis surj_pair)
  show ?thesis
    using assms(2) kernel_contractD(1)[OF assms(1) s1] by (auto simp: remaining_def s1 Let_def split: if_splits)
qed

lemma overlapped_init_view:
  assumes "kernel_contract w v" and "overlapped_init w s = (oper, s')"
  shows "same_view v s s' \<and> \<not> oo_pending oper"
proof -
  obtain a s1 where s1: "w_create_event w s = (a, s1)" by (metis surj_pair)
  obtain b s2 where s2: "w_create_event w s1 = (b, s2)" by (metis surj_pair)
  note k = kernel_contractD(3)[OF assms(1) s1] kernel_contractD(3)[OF assms(1) s2]
  show ?thesis
    using assms(2) k same_view_trans[OF k] by (auto simp: overlapped_init_def s1 s2 split: if_splits)
qed

lemma overlapped_wait_view:
  assumes "kernel_contract w v" and "overlapped_wait w until (oper, s) = (wake, oper', s')"
  shows "same_view v s s' \<and> oper' = oper"
proof -
  obtain ms s1 where s1: "remaining w until s = (ms, s1)" by (metis surj_pair)
  obtain c s2 where s2: "w_wait_objects w ms s1 = (c, s2)" by (metis surj_pair)
  have "same_view v s s2"
    by (rule same_view_trans[OF remaining_view[OF assms(1) s1] kernel_contractD(5)[OF assms(1) s2]])
  then show ?thesis
    using assms(2) by (auto simp: overlapped_wait_def s1 s2 split: if_splits)
qed

lemma overlapped_cancel_view:
  assumes "kernel_contract w v" and "overlapped_cancel w (oper, s) = (e, oper', s')"
  shows "same_view v s s' \<and> oper' = oper"
proof -
  obtain b s1 where s1: "w_cancel_io w s = (b, s1)" by (metis surj_pair)
  show ?thesis
    using assms(2) kernel_contractD(4)[OF assms(1) s1] by (auto simp: overlapped_cancel_def s1)
qed

lemma drained_transferred:
  assumes "kernel_contract w v" and "w_overlapped_result w True s = (r, s')"
  shows "transferred w v (pw_flight v s) s (Inl e) s'"
proof -
  obtain finished n where r: "r = (finished, n)" by (cases r)
  show ?thesis
    using kernel_contractD(6)[OF assms(1)] assms(2) moved_is_part
    unfolding finishes_def transferred_def r by (metis old.sum.simps(5))
qed

lemma overlapped_complete_transferred:
  assumes "kernel_contract w v" and "overlapped_complete w wait (oper, s) = (r, oper', s')"
  shows "transferred w v (pw_flight v s) s r s' \<and> \<not> oo_pending oper'"
proof -
  obtain finished n s1 where s1: "w_overlapped_result w wait s = ((finished, n), s1)" by (metis surj_pair)
  obtain b s2 where s2: "w_cancel_io w s1 = (b, s2)" by (metis surj_pair)
  obtain x s3 where s3: "w_overlapped_result w True s2 = (x, s3)" by (metis surj_pair)
  note f = kernel_contractD(6)[OF assms(1), unfolded finishes_def, rule_format, OF s1]
  note c = kernel_contractD(4)[OF assms(1) s2]
  note d = drained_transferred[OF assms(1) s3]
  show ?thesis
  proof (cases "finished \<or> w_last_error w s1 \<noteq> ERROR_IO_INCOMPLETE")
    case True
    then show ?thesis
      using f assms(2) by (auto simp: overlapped_complete_def s1 transferred_def Let_def split: if_splits)
  next
    case False
    then have r: "r = Inl (io_failure ERROR_IO_INCOMPLETE)" "s' = s3" "\<not> oo_pending oper'"
      using assms(2) by (auto simp: overlapped_complete_def s1 s2 s3)
    show ?thesis
    proof (cases "pw_flight v s1 = Idle")
      case True
      then have "moved_part v (pw_flight v s) s s1"
        using f False unmoved_is_part[of v s1 s] by (auto split: if_splits)
      moreover have "pw_flight v s2 = Idle" "pw_sent v s2 = pw_sent v s1" "pw_received v s2 = pw_received v s1"
        using c True by (simp_all add: same_view_def)
      ultimately have "moved_part v (pw_flight v s) s s3" "pw_flight v s3 = Idle"
        using d[of undefined] by (cases "pw_flight v s"; auto simp: transferred_def)+
      then show ?thesis using r by (simp add: transferred_def)
    next
      case busy: False
      then have "same_view v s s1"
        using f False by (auto simp: same_view_def split: if_splits)
      then have view: "same_view v s s2"
        using c by (rule same_view_trans)
      then show ?thesis
        using r transferred_same_view[OF view d] by (simp add: same_view_def)
    qed
  qed
qed

lemma resolve_pending_transferred:
  assumes "kernel_contract w v" and "resolve_pending (overlapped_backend w) until (oper, s) = (r, oper', s')"
  shows "transferred w v (pw_flight v s) s r s' \<and> \<not> oo_pending oper'"
proof -
  obtain wake o1 s1 where s1: "overlapped_wait w until (oper, s) = (wake, o1, s1)" by (metis surj_pair)
  note v1 = overlapped_wait_view[OF assms(1) s1]
  show ?thesis
  proof (cases "wk_reason wake = Wake_completed")
    case True
    then have "overlapped_complete w False (o1, s1) = (r, oper', s')"
      using assms(2) by (simp add: resolve_pending_def overlapped_backend_def s1)
    from overlapped_complete_transferred[OF assms(1) this] show ?thesis
      using conjunct1[OF v1] transferred_same_view[OF conjunct1[OF v1]] by (simp add: same_view_def)
  next
    case False
    obtain e o2 s2 where s2: "overlapped_cancel w (o1, s1) = (e, o2, s2)" by (metis surj_pair)
    obtain r3 o3 s3 where s3: "overlapped_complete w True (o2, s2) = (r3, o3, s3)" by (metis surj_pair)
    have r: "s' = s3" "oper' = o3" "\<exists>e. r = Inl e"
      using assms(2) False by (auto simp: resolve_pending_def overlapped_backend_def s1 s2 s3 Let_def)
    have view: "same_view v s s2"
      by (rule same_view_trans[OF conjunct1[OF v1] conjunct1[OF overlapped_cancel_view[OF assms(1) s2]]])
    have "transferred w v (pw_flight v s) s r3 s3 \<and> \<not> oo_pending o3"
      using overlapped_complete_transferred[OF assms(1) s3] transferred_same_view[OF view] view
      by (simp add: same_view_def)
    then show ?thesis using r transferred_Inl[of w v "pw_flight v s" s r3 s3] by auto
  qed
qed

lemma native_operation_transferred:
  assumes "kernel_contract w v" and "issues w v f issue" and "pw_flight v s = Idle"
    and "immediate = None \<or> f = Connecting \<and> immediate \<noteq> Some ERROR_IO_PENDING"
    and "native_operation w until issue immediate s = (r, s')"
  shows "transferred w v f s r s'"
proof -
  obtain e s1 where s1: "preflight w until s = (e, s1)" by (metis surj_pair)
  obtain oper s2 where s2: "overlapped_init w s1 = (oper, s2)" by (metis surj_pair)
  obtain finished n s3 where s3: "issue s2 = ((finished, n), s3)" by (metis surj_pair)
  obtain r' oper' s4 where s4: "resolve_pending (overlapped_backend w) until (mark_pending oper, s3) = (r', oper', s4)"
    by (metis surj_pair)
  note v1 = preflight_view[OF assms(1) s1]
  note i2 = overlapped_init_view[OF assms(1) s2]
  have v2: "same_view v s s2" by (rule same_view_trans[OF v1 conjunct1[OF i2]])
  have idle: "pw_flight v s1 = Idle" "pw_flight v s2 = Idle"
    using v1 v2 assms(3) by (simp_all add: same_view_def)
  note i3 = assms(2)[unfolded issues_def, rule_format, OF conjI[OF idle(2) s3]]
  note t4 = resolve_pending_transferred[OF assms(1) s4]
  have early: "transferred w v f s (Inl e) s1" "transferred w v f s (Inl e) s2" for e
    using v1 v2 idle unmoved_is_part[of v s1 s f] unmoved_is_part[of v s2 s f]
    by (simp_all add: transferred_def same_view_def)
  have fin: "transferred w v f s2 (Inr (unat n)) s3" if finished
    using i3 that by (simp add: transferred_def)
  have failed: "transferred w v f s2 (Inl e) s3" if "\<not> finished" "w_last_error w s3 \<noteq> ERROR_IO_PENDING" for e
    using i3 that unmoved_is_part[of v s3 s2 f] by (simp add: transferred_def)
  have conn: "transferred w v f s2 (Inr 0) s3"
    if "\<not> finished" "w_last_error w s3 \<noteq> ERROR_IO_PENDING" "f = Connecting"
    using i3 that by (simp add: transferred_def)
  have pend: "transferred w v f s2 r' s4" if "\<not> finished" "w_last_error w s3 = ERROR_IO_PENDING"
  proof -
    have view: "pw_flight v s3 = f" "pw_sent v s3 = pw_sent v s2" "pw_received v s3 = pw_received v s2"
      using i3 that by simp_all
    with t4 show ?thesis by (cases f) (auto simp: transferred_def split: sum.splits)
  qed
  have destroy: "overlapped_destroy w oper s = s" "overlapped_destroy w oper' s = s" for s
    using i2 t4 by (simp_all add: overlapped_destroy_def)
  note lift = transferred_same_view[OF v2]
  show ?thesis
  proof (cases "e = None \<and> setup_error oper = None")
    case False
    then have "(\<exists>x. r = Inl x) \<and> (s' = s1 \<or> s' = s2)"
      using assms(5) by (cases e; cases "setup_error oper") (auto simp: native_operation_def s1 s2 destroy)
    then show ?thesis using early by blast
  next
    case True
    then have res: "native_operation w until issue immediate s =
      (if finished then (Inr (unat n), s3)
       else if Some (w_last_error w s3) = immediate then (Inr 0, s3)
       else if w_last_error w s3 \<noteq> ERROR_IO_PENDING then (Inl (io_failure (w_last_error w s3)), s3)
       else (r', s4))"
      by (simp add: native_operation_def s1 s2 s3 s4 destroy Let_def)
    consider "finished" "r = Inr (unat n)" "s' = s3"
      | "\<not> finished" "Some (w_last_error w s3) = immediate" "r = Inr 0" "s' = s3"
      | "\<not> finished" "w_last_error w s3 \<noteq> ERROR_IO_PENDING" "r = Inl (io_failure (w_last_error w s3))" "s' = s3"
      | "\<not> finished" "w_last_error w s3 = ERROR_IO_PENDING" "r = r'" "s' = s4"
      using assms(5) unfolding res by (metis prod.inject)
    then show ?thesis
    proof cases
      case 1
      then show ?thesis using lift[OF fin[OF 1(1)]] by simp
    next
      case 2
      then have "f = Connecting" "w_last_error w s3 \<noteq> ERROR_IO_PENDING" using assms(4) by auto
      then show ?thesis using 2 lift[OF conn[OF 2(1)]] by simp
    next
      case 3
      then show ?thesis using lift[OF failed[OF 3(1,2)]] by simp
    next
      case 4
      then show ?thesis using lift[OF pend[OF 4(1,2)]] by simp
    qed
  qed
qed

lemma accept_transferred:
  "kernel_contract w v \<Longrightarrow> pw_flight v s = Idle \<Longrightarrow> native_accept w until s = (r, s') \<Longrightarrow>
     transferred w v Connecting s r s'"
  unfolding native_accept_def
  by (rule native_operation_transferred) (auto simp: kernel_contract_def ERROR_PIPE_CONNECTED_def ERROR_IO_PENDING_def)

lemma unat_transfer_size: "unat (of_nat (min n buffer_bytes) :: u32) = min n buffer_bytes"
  by (simp add: unat_of_nat buffer_bytes_def)

lemma read_transferred:
  assumes "kernel_contract w v" and "pw_flight v s = Idle" and "read_some w room until s = (r, s')"
  shows "transferred w v (Reading (min room buffer_bytes)) s r s'"
proof -
  have "issues w v (Reading (min room buffer_bytes)) (w_read_file w (of_nat (min room buffer_bytes)))"
    using assms(1) unat_transfer_size[of room] unfolding kernel_contract_def by metis
  from native_operation_transferred[OF assms(1) this assms(2)] show ?thesis
    using assms(3) by (simp add: read_some_def)
qed

lemma write_transferred:
  "kernel_contract w v \<Longrightarrow> pw_flight v s = Idle \<Longrightarrow> write_some w bs until s = (r, s') \<Longrightarrow>
     transferred w v (Writing (take (min (length bs) buffer_bytes) bs)) s r s'"
  unfolding write_some_def by (rule native_operation_transferred) (auto simp: kernel_contract_def)

end
