(* ===== verification/Pipe_Stream.thy ===== *)
theory Pipe_Stream
  imports Native
begin

section \<open>The framed pipe stream\<close>

text \<open>
  Models \<open>src/transport/windows/stream.cpp\<close> and \<open>stream_state.hpp\<close>: \<open>connect\<close>, \<open>send\<close>, \<open>receive\<close> and
  \<open>close\<close> of \<open>pipe_stream\<close>, over the native operations of theory \<open>Native\<close> and the frame decoder of
  theory \<open>Framing\<close>. A \<open>pipe_stream\<close> is an optional \<open>stream_state\<close>, absent after \<open>close\<close> or a move.
  The input array is its first \<open>end\<close> bytes; a read replaces it by what the system put there.

  The receive loop carries fuel. \<open>receive_fuel\<close> iterations always suffice, because every
  iteration that does not return adds at least one byte to the unfinished frame, which is bounded
  (lemma \<open>receive_loop_terminates\<close>). The connect loop may wait as long as the clock allows, so its
  fuel is an argument and running out of it is the value \<^term>\<open>None\<close>; lemma
  \<open>connect_loop_terminates\<close> bounds it by the deadline.
\<close>

record stream_state =
  st_input :: bytes
  st_begin :: nat
  st_end :: nat
  st_decoder :: frame_decoder
  st_failed :: bool

type_synonym pipe_stream = "stream_state option"

definition stream_state_init :: stream_state where
  "stream_state_init =
     \<lparr>st_input = replicate buffer_bytes 0, st_begin = 0, st_end = 0, st_decoder = frame_decoder_init,
      st_failed = False\<rparr>"

definition stream_close :: "pipe_stream \<Rightarrow> pipe_stream" where
  "stream_close ps = None"

subsection \<open>Connecting\<close>

definition GENERIC_READ :: u32 where "GENERIC_READ = 0x80000000"
definition GENERIC_WRITE :: u32 where "GENERIC_WRITE = 0x40000000"
definition SECURITY_SQOS_PRESENT :: u32 where "SECURITY_SQOS_PRESENT = 0x100000"
definition SECURITY_IDENTIFICATION :: u32 where "SECURITY_IDENTIFICATION = 0x10000"
definition retry_milliseconds :: u32 where "retry_milliseconds = 50"

fun connect_loop ::
  "'k win32 \<Rightarrow> wstring \<Rightarrow> deadline \<Rightarrow> nat \<Rightarrow> 'k \<Rightarrow> ((unique_handle \<times> stream_state) transport_result \<times> 'k) option" where
  "connect_loop w name until 0 s = None"
| "connect_loop w name until (Suc fuel) s =
     (case preflight w until s of
        (Some e, s) \<Rightarrow> Some (Inl e, s)
      | (None, s) \<Rightarrow>
        let (raw, s) = w_create_file w name (GENERIC_READ OR GENERIC_WRITE)
               (FILE_FLAG_OVERLAPPED OR SECURITY_SQOS_PRESENT OR SECURITY_IDENTIFICATION) s;
            pipe = \<lparr>uh_handle = raw\<rparr> in
        if handle_valid pipe then Some (Inr (pipe, stream_state_init), s)
        else let code = w_last_error w s in
          if code \<noteq> ERROR_PIPE_BUSY \<and> code \<noteq> ERROR_FILE_NOT_FOUND then Some (Inl (io_failure code), s)
          else
            let (milliseconds, s) = remaining w until s; slice = min milliseconds retry_milliseconds in
            if slice = 0 then Some (Inl (plain_failure TK_timeout), s)
            else let (available, s) = w_wait_named_pipe w name slice s in
              if available then connect_loop w name until fuel s
              else let wait_error = w_last_error w s in
                if wait_error \<noteq> ERROR_FILE_NOT_FOUND \<and> wait_error \<noteq> ERROR_SEM_TIMEOUT \<and> wait_error \<noteq> ERROR_PIPE_BUSY
                then Some (Inl (io_failure wait_error), s)
                else if wait_error = ERROR_FILE_NOT_FOUND then
                  let (waited, s) = w_wait_single w slice s in
                  if waited = WAIT_FAILED then Some (Inl (io_failure (w_last_error w s)), s)
                  else connect_loop w name until fuel s
                else connect_loop w name until fuel s)"

declare connect_loop.simps [simp del]

definition stream_connect ::
  "'k win32 \<Rightarrow> wstring \<Rightarrow> deadline \<Rightarrow> nat \<Rightarrow> 'k \<Rightarrow> ((unique_handle \<times> stream_state) transport_result \<times> 'k) option" where
  "stream_connect w endpoint until fuel s =
     (if \<not> valid_endpoint endpoint then Some (Inl (plain_failure TK_invalid_configuration), s)
      else case preflight w until s of
        (Some e, s) \<Rightarrow> Some (Inl e, s)
      | (None, s) \<Rightarrow>
        let (created, s) = w_create_event w s in
        if \<not> created then Some (Inl (io_failure (w_last_error w s)), s)
        else connect_loop w endpoint until fuel s)"

subsection \<open>Sending\<close>

function (sequential) send_loop :: "'k win32 \<Rightarrow> deadline \<Rightarrow> bytes \<Rightarrow> 'k \<Rightarrow> transport_failure option \<times> 'k" where
  "send_loop w until rest s =
     (if rest = [] then (None, s)
      else case write_some w rest until s of
        (Inl e, s) \<Rightarrow> (Some e, s)
      | (Inr count, s) \<Rightarrow>
          if count = 0 \<or> count > length rest then (Some (plain_failure TK_disconnected), s)
          else send_loop w until (drop count rest) s)"
  by pat_completeness auto
termination
  by (relation "measure (\<lambda>(w, until, rest, s). length rest)") auto

declare send_loop.simps [simp del]

definition stream_send ::
  "'k win32 \<Rightarrow> bytes \<Rightarrow> deadline \<Rightarrow> pipe_stream \<Rightarrow> 'k \<Rightarrow> nat transport_result \<times> pipe_stream \<times> 'k" where
  "stream_send w payload until ps s =
     (case ps of
        None \<Rightarrow> (Inl (plain_failure TK_disconnected), ps, s)
      | Some st \<Rightarrow>
        if st_failed st then (Inl (plain_failure TK_disconnected), ps, s)
        else case preflight w until s of
          (Some e, s) \<Rightarrow> (Inl e, Some (st\<lparr>st_failed := True\<rparr>), s)
        | (None, s) \<Rightarrow>
          case frame payload of
            Inl e \<Rightarrow> (Inl \<lparr>tf_kind = TK_protocol_violation, tf_native_error = 0, tf_framing = Some e\<rparr>,
                       Some (st\<lparr>st_failed := True\<rparr>), s)
          | Inr owned \<Rightarrow>
            case send_loop w until owned s of
              (Some e, s) \<Rightarrow> (Inl e, Some (st\<lparr>st_failed := True\<rparr>), s)
            | (None, s) \<Rightarrow> (Inr (length owned), ps, s))"

subsection \<open>Receiving\<close>

definition buffered :: "stream_state \<Rightarrow> bytes" where
  "buffered st = drop (st_begin st) (take (st_end st) (st_input st))"

text \<open>
  The first half of an iteration: hand the buffered bytes to the decoder.
\<close>

definition consume_buffered :: "stream_state \<Rightarrow> stream_state \<times> bytes option transport_result" where
  "consume_buffered st =
     (if st_begin st < st_end st then
        case consume (st_decoder st) (buffered st) of
          (d, Inl e) \<Rightarrow>
            (st\<lparr>st_decoder := d, st_failed := True\<rparr>,
             Inl \<lparr>tf_kind = TK_protocol_violation, tf_native_error = 0, tf_framing = Some e\<rparr>)
        | (d, Inr p) \<Rightarrow> (st\<lparr>st_decoder := d, st_begin := st_begin st + fp_consumed p\<rparr>, Inr (fp_payload p))
      else (st, Inr None))"

text \<open>
  The failure reported for a read that failed or found the pipe closed.
\<close>

definition closed_failure :: "frame_decoder \<Rightarrow> transport_failure \<Rightarrow> transport_failure" where
  "closed_failure d e =
     (if tf_kind e = TK_disconnected then
        case finish d of
          None \<Rightarrow> e\<lparr>tf_framing := None\<rparr>
        | Some f \<Rightarrow> e\<lparr>tf_framing := Some f, tf_kind := TK_protocol_violation\<rparr>
      else e)"

definition end_of_stream :: "frame_decoder \<Rightarrow> transport_failure" where
  "end_of_stream d =
     \<lparr>tf_kind = (if finish d \<noteq> None then TK_protocol_violation else TK_disconnected), tf_native_error = 0,
      tf_framing = finish d\<rparr>"

fun receive_loop ::
  "'k win32 \<Rightarrow> deadline \<Rightarrow> nat \<Rightarrow> stream_state \<Rightarrow> 'k \<Rightarrow> (bytes transport_result \<times> stream_state \<times> 'k) option" where
  "receive_loop w until 0 st s = None"
| "receive_loop w until (Suc fuel) st s =
     (case preflight w until s of
        (Some e, s) \<Rightarrow> Some (Inl e, st\<lparr>st_failed := True\<rparr>, s)
      | (None, s) \<Rightarrow>
        case consume_buffered st of
          (st, Inl e) \<Rightarrow> Some (Inl e, st, s)
        | (st, Inr (Some payload)) \<Rightarrow> Some (Inr payload, st, s)
        | (st, Inr None) \<Rightarrow>
          case read_some w buffer_bytes until s of
            (Inl e, s) \<Rightarrow> Some (Inl (closed_failure (st_decoder st) e), st\<lparr>st_failed := True\<rparr>, s)
          | (Inr count, s) \<Rightarrow>
            if count = 0 then Some (Inl (end_of_stream (st_decoder st)), st\<lparr>st_failed := True\<rparr>, s)
            else receive_loop w until fuel
                   (st\<lparr>st_input := w_buffer w s, st_begin := 0, st_end := count\<rparr>) s)"

declare receive_loop.simps [simp del]

definition receive_fuel :: nat where
  "receive_fuel = frame_header_bytes + max_payload_bytes + 2"

definition stream_receive ::
  "'k win32 \<Rightarrow> deadline \<Rightarrow> pipe_stream \<Rightarrow> 'k \<Rightarrow> (bytes transport_result \<times> pipe_stream \<times> 'k) option" where
  "stream_receive w until ps s =
     (case ps of
        None \<Rightarrow> Some (Inl (plain_failure TK_disconnected), ps, s)
      | Some st \<Rightarrow>
        if st_failed st then Some (Inl (plain_failure TK_disconnected), ps, s)
        else map_option (\<lambda>(r, st, s). (r, Some st, s)) (receive_loop w until receive_fuel st s))"

subsection \<open>The send loop\<close>

lemma take_transfer: "take n (take (min (length bs) m) bs) = take (min n m) bs"
  by (cases "length bs \<le> m") (simp_all add: min_def)

lemma send_loop_correct:
  assumes "kernel_contract w v" and "pw_flight v s = Idle" and "send_loop w until rest s = (e, s')"
  shows "pw_flight v s' = Idle \<and> pw_received v s' = pw_received v s \<and>
    (if e = None then pw_sent v s' = pw_sent v s @ rest else \<exists>n. pw_sent v s' = pw_sent v s @ take n rest)"
  using assms
proof (induction w until rest s rule: send_loop.induct)
  case (1 w until rest s)
  show ?case
  proof (cases "rest = []")
    case True
    then show ?thesis using "1.prems" by (auto simp: send_loop.simps[of w until "[]" s])
  next
    case ne: False
    obtain r s1 where s1: "write_some w rest until s = (r, s1)" by (metis surj_pair)
    note t = write_transferred[OF "1.prems"(1,2) s1]
    show ?thesis
    proof (cases r)
      case (Inl f)
      then have "\<exists>n. pw_sent v s1 = pw_sent v s @ take n rest"
        using t by (auto simp: transferred_def take_transfer)
      then show ?thesis
        using t "1.prems"(3) ne by (auto simp: send_loop.simps[of w until rest s] s1 Inl transferred_def)
    next
      case (Inr count)
      have m: "pw_flight v s1 = Idle" "pw_received v s1 = pw_received v s" "pw_sent v s1 = pw_sent v s @ take count rest"
        "count \<le> length rest"
        using t Inr by (auto simp: transferred_def take_transfer min_def split: if_splits)
      show ?thesis
      proof (cases "count = 0")
        case True
        then show ?thesis
          using m "1.prems"(3) ne by (auto simp: send_loop.simps[of w until rest s] s1 Inr intro: exI[of _ 0])
      next
        case False
        then have bad: "\<not> (count = 0 \<or> count > length rest)" using m by simp
        then have "send_loop w until (drop count rest) s1 = (e, s')"
          using "1.prems"(3) ne by (simp add: send_loop.simps[of w until rest s] s1 Inr)
        note IH = "1.IH"[OF ne s1[symmetric] Inr bad "1.prems"(1) m(1) this]
        have "take count rest @ take n (drop count rest) = take (count + n) rest" for n
          by (simp add: take_add)
        with IH m show ?thesis by (auto split: if_splits)
      qed
    qed
  qed
qed

subsection \<open>The receive loop\<close>

text \<open>
  The bytes a healthy stream holds: the unfinished frame in its decoder and what is still buffered.
\<close>

definition held :: "stream_state \<Rightarrow> bytes" where
  "held st = partial (st_decoder st) @ buffered st"

definition stream_ok :: "stream_state \<Rightarrow> bool" where
  "stream_ok st \<longleftrightarrow> \<not> st_failed st \<and> decoder_ok (st_decoder st) \<and> st_begin st \<le> st_end st \<and> st_end st \<le> length (st_input st)"

lemma stream_ok_init: "stream_ok stream_state_init" and held_init [simp]: "held stream_state_init = []"
  by (simp_all add: stream_ok_def stream_state_init_def held_def buffered_def decoder_ok_init)

lemma buffered_nonempty: "stream_ok st \<Longrightarrow> buffered st \<noteq> [] \<longleftrightarrow> st_begin st < st_end st"
  by (auto simp: buffered_def stream_ok_def)

definition first_frame :: "bytes \<Rightarrow> bytes \<Rightarrow> bytes \<Rightarrow> bool" where
  "first_frame bs payload rest \<longleftrightarrow> split_frames bs = (let (ps, r) = split_frames rest in (payload # ps, r))"

lemma consume_buffered_refines:
  assumes "stream_ok st" and "consume_buffered st = (st', r)"
  shows "case r of
      Inl e \<Rightarrow> st_failed st' \<and> split_frames (held st) = ([], Inl (fatal FC_limit_exceeded)) \<and>
        e = \<lparr>tf_kind = TK_protocol_violation, tf_native_error = 0, tf_framing = Some (fatal FC_limit_exceeded)\<rparr>
    | Inr None \<Rightarrow> stream_ok st' \<and> held st' = held st \<and> partial (st_decoder st') = held st
    | Inr (Some p) \<Rightarrow> stream_ok st' \<and> first_frame (held st) p (held st') \<and> p \<noteq> [] \<and> length p \<le> max_payload_bytes"
proof (cases "st_begin st < st_end st")
  case False
  then have "buffered st = []" using buffered_nonempty[OF assms(1)] by simp
  then show ?thesis using assms False by (auto simp: consume_buffered_def held_def)
next
  case True
  then have ne: "buffered st \<noteq> []" using buffered_nonempty[OF assms(1)] by simp
  have ok: "decoder_ok (st_decoder st)" "\<not> st_failed st" "st_end st \<le> length (st_input st)"
    using assms(1) by (simp_all add: stream_ok_def)
  have len: "length (buffered st) = st_end st - st_begin st" using ok by (simp add: buffered_def)
  obtain d c where c: "consume (st_decoder st) (buffered st) = (d, c)" by (metis surj_pair)
  note refines = consume_refines[OF ok(1) ne, unfolded c prod.case]
  show ?thesis
  proof (cases c)
    case (Inl f)
    then show ?thesis
      using refines assms(2) True by (auto simp: consume_buffered_def c held_def)
  next
    case (Inr p)
    have s: "step_refines (partial (st_decoder st)) (buffered st) (d, p)"
      using refines Inr by simp
    have st': "st' = st\<lparr>st_decoder := d, st_begin := st_begin st + fp_consumed p\<rparr>" "r = Inr (fp_payload p)"
      using assms(2) True by (auto simp: consume_buffered_def c Inr)
    have ok': "stream_ok st'"
      using s ok len True by (auto simp: stream_ok_def st' step_refines_def)
    have rest: "buffered st' = drop (fp_consumed p) (buffered st)"
      by (simp add: buffered_def st' add.commute)
    show ?thesis
    proof (cases "fp_payload p")
      case None
      then have "buffered st' = []" "partial d = held st"
        using s rest by (simp_all add: step_refines_def held_def)
      then show ?thesis using None ok' by (simp add: st'(2) held_def) (simp add: st'(1))
    next
      case (Some x)
      then show ?thesis
        using s ok' rest by (simp add: st'(2) held_def step_refines_def first_frame_def) (simp add: st'(1))
    qed
  qed
qed

lemma read_buffer:
  assumes "kernel_contract w v" and "pw_flight v s = Idle" and "read_some w buffer_bytes until s = (Inr count, s')"
  shows "pw_flight v s' = Idle" and "count \<le> length (w_buffer w s')"
    and "pw_received v s' = pw_received v s @ take count (w_buffer w s')" and "pw_sent v s' = pw_sent v s"
  using read_transferred[OF assms] by (simp_all add: transferred_def)

lemma refilled:
  assumes "stream_ok st" and "buffered st = []" and "count \<le> length bs"
  shows "stream_ok (st\<lparr>st_input := bs, st_begin := 0, st_end := count\<rparr>)"
    and "held (st\<lparr>st_input := bs, st_begin := 0, st_end := count\<rparr>) = held st @ take count bs"
  using assms by (simp_all add: stream_ok_def held_def) (simp add: buffered_def)

text \<open>
  What a failure tells about the bytes the decoder has seen: a framing failure in it is the one
  the reference decoder finds, and \<open>disconnected\<close> means the stream ended between two frames.
\<close>

definition failure_explained :: "bytes \<Rightarrow> transport_failure \<Rightarrow> bool" where
  "failure_explained seen e \<longleftrightarrow>
     (case tf_framing e of
        Some f \<Rightarrow> tf_kind e = TK_protocol_violation \<and>
          (split_frames seen = ([], Inl f) \<or> f = fatal FC_truncated \<and> seen \<noteq> [] \<and> split_frames seen = ([], Inr seen))
      | None \<Rightarrow> tf_kind e \<noteq> TK_protocol_violation \<and> (tf_kind e = TK_disconnected \<longrightarrow> seen = []))"

lemma io_failure_plain [simp]: "tf_framing (io_failure c) = None" "tf_kind (io_failure c) \<noteq> TK_protocol_violation"
  by (simp_all add: io_failure_def)

definition plain :: "'a transport_result \<Rightarrow> bool" where
  "plain r \<longleftrightarrow> (case r of Inl e \<Rightarrow> tf_framing e = None \<and> tf_kind e \<noteq> TK_protocol_violation | Inr _ \<Rightarrow> True)"

lemma plain_preflight: "preflight w until s = (Some e, s') \<Longrightarrow> plain (Inl e)"
  by (auto simp: preflight_def plain_def split: prod.splits if_splits)

lemma plain_complete: "plain (fst (overlapped_complete w wait os))"
  by (auto simp: overlapped_complete_def plain_def Let_def split: prod.splits)

lemma plain_resolve: "plain (fst (resolve_pending (overlapped_backend w) until os))"
  using plain_complete
  by (auto simp: resolve_pending_def overlapped_backend_def Let_def plain_def[of "Inl _"] split: prod.splits wake_reason.splits)

lemma plain_native_operation:
  assumes "native_operation w until issue immediate s = (r, s')"
  shows "plain r"
proof -
  obtain e s1 where s1: "preflight w until s = (e, s1)" by (metis surj_pair)
  obtain oper s2 where s2: "overlapped_init w s1 = (oper, s2)" by (metis surj_pair)
  obtain finished n s3 where s3: "issue s2 = ((finished, n), s3)" by (metis surj_pair)
  obtain r' oper' s4 where s4: "resolve_pending (overlapped_backend w) until (mark_pending oper, s3) = (r', oper', s4)"
    by (metis surj_pair)
  have "plain r'" using plain_resolve[of w until "(mark_pending oper, s3)"] s4 by simp
  moreover have "plain (Inl x)" if "e = Some x" for x using plain_preflight[of w until s x s1] s1 that by simp
  moreover have "plain (Inl x)" if "setup_error oper = Some x" for x
    using that by (auto simp: setup_error_def plain_def split: if_splits)
  ultimately show ?thesis
    using assms by (cases e; cases "setup_error oper")
      (auto simp: native_operation_def s1 s2 s3 s4 Let_def plain_def split: if_splits)
qed

lemma closed_explained:
  assumes "decoder_ok d" and "plain (Inl e)"
  shows "failure_explained (partial d) (closed_failure d e)"
  using assms finish_partial[OF assms(1)] split_frames_partial[OF assms(1)]
  by (auto simp: failure_explained_def closed_failure_def plain_def)

lemma end_explained: "decoder_ok d \<Longrightarrow> failure_explained (partial d) (end_of_stream d)"
  using finish_partial[of d] split_frames_partial[of d]
  by (auto simp: failure_explained_def end_of_stream_def)

definition received_ok ::
  "'k pipe_view \<Rightarrow> stream_state \<Rightarrow> 'k \<Rightarrow> bytes transport_result \<Rightarrow> stream_state \<Rightarrow> 'k \<Rightarrow> bool" where
  "received_ok v st s r st' s' \<longleftrightarrow> pw_flight v s' = Idle \<and> pw_sent v s' = pw_sent v s \<and>
     (\<exists>seen lost. pw_received v s' = pw_received v s @ seen @ lost \<and>
       (case r of
          Inr p \<Rightarrow> lost = [] \<and> stream_ok st' \<and> first_frame (held st @ seen) p (held st') \<and> p \<noteq> [] \<and>
            length p \<le> max_payload_bytes
        | Inl e \<Rightarrow> st_failed st' \<and> failure_explained (held st @ seen) e))"

lemma received_ok_step:
  assumes "received_ok v st2 s2 r st' s'" and "pw_sent v s2 = pw_sent v s"
    and "pw_received v s2 = pw_received v s @ new" and "held st2 = held st @ new"
  shows "received_ok v st s r st' s'"
proof -
  obtain seen lost where sl: "pw_received v s' = pw_received v s2 @ seen @ lost"
    and res: "case r of
          Inr p \<Rightarrow> lost = [] \<and> stream_ok st' \<and> first_frame (held st2 @ seen) p (held st') \<and> p \<noteq> [] \<and>
            length p \<le> max_payload_bytes
        | Inl e \<Rightarrow> st_failed st' \<and> failure_explained (held st2 @ seen) e"
    using assms(1) unfolding received_ok_def by blast
  have "\<exists>seen lost. pw_received v s' = pw_received v s @ seen @ lost \<and> (case r of
          Inr p \<Rightarrow> lost = [] \<and> stream_ok st' \<and> first_frame (held st @ seen) p (held st') \<and> p \<noteq> [] \<and>
            length p \<le> max_payload_bytes
        | Inl e \<Rightarrow> st_failed st' \<and> failure_explained (held st @ seen) e)"
    by (rule exI[of _ "new @ seen"], rule exI[of _ lost]) (use sl assms(3,4) res in \<open>cases r; simp\<close>)
  moreover have "pw_flight v s' = Idle" "pw_sent v s' = pw_sent v s"
    using assms(1,2) by (simp_all add: received_ok_def)
  ultimately show ?thesis unfolding received_ok_def by blast
qed

lemma received_ok_first:
  assumes "pw_flight v s' = Idle" and "pw_sent v s' = pw_sent v s" and "pw_received v s' = pw_received v s @ lost"
    and "case r of
          Inr p \<Rightarrow> lost = [] \<and> stream_ok st' \<and> first_frame (held st) p (held st') \<and> p \<noteq> [] \<and>
            length p \<le> max_payload_bytes
        | Inl e \<Rightarrow> st_failed st' \<and> failure_explained (held st) e"
  shows "received_ok v st s r st' s'"
  using assms unfolding received_ok_def by (intro conjI exI[of _ "[]"] exI[of _ lost]) (auto split: sum.splits)

lemma preflight_explained: "preflight w until s = (Some e, s') \<Longrightarrow> failure_explained bs e"
  by (auto simp: preflight_def failure_explained_def split: prod.splits if_splits)

lemma receive_loop_refines:
  assumes "kernel_contract w v" and "pw_flight v s = Idle" and "stream_ok st"
    and "receive_loop w until fuel st s = Some (r, st', s')"
  shows "received_ok v st s r st' s'"
  using assms(2-)
proof (induction fuel arbitrary: st s)
  case 0
  then show ?case by (simp add: receive_loop.simps)
next
  case (Suc fuel)
  obtain pre s1 where s1: "preflight w until s = (pre, s1)" by (metis surj_pair)
  obtain st1 c where c: "consume_buffered st = (st1, c)" by (metis surj_pair)
  obtain got s2 where s2: "read_some w buffer_bytes until s1 = (got, s2)" by (metis surj_pair)
  have view: "pw_flight v s1 = Idle" "pw_sent v s1 = pw_sent v s" "pw_received v s1 = pw_received v s"
    using preflight_view[OF assms(1) s1] Suc.prems(1) by (simp_all add: same_view_def)
  note refines = consume_buffered_refines[OF Suc.prems(2) c]
  note loop = Suc.prems(3)[unfolded receive_loop.simps s1 prod.case c s2]
  show ?case
  proof (cases pre)
    case (Some e)
    then have "r = Inl e" "st' = st\<lparr>st_failed := True\<rparr>" "s' = s1" using loop by simp_all
    then show ?thesis
      using view preflight_explained[of w until s e s1] s1 Some by (intro received_ok_first[of v s' s "[]"]) simp_all
  next
    case pre: None
    show ?thesis
    proof (cases "c = Inr None")
      case False
      then have "st' = st1" "s' = s1" "case c of Inl e \<Rightarrow> r = Inl e | Inr x \<Rightarrow> \<exists>p. x = Some p \<and> r = Inr p"
        using loop pre by (auto split: sum.splits option.splits)
      then show ?thesis
        using view refines
        by (intro received_ok_first[of v s' s "[]"]) (auto simp: failure_explained_def split: sum.splits)
    next
      case True
      then have ok1: "stream_ok st1" "held st1 = held st" "partial (st_decoder st1) = held st"
        using refines by simp_all
      then have dec: "decoder_ok (st_decoder st1)" by (simp add: stream_ok_def)
      show ?thesis
      proof (cases got)
        case (Inl e)
        then have res: "r = Inl (closed_failure (st_decoder st1) e)" "st' = st1\<lparr>st_failed := True\<rparr>" "s' = s2"
          using loop pre True by simp_all
        have "plain (Inl e :: nat transport_result)"
          using plain_native_operation[of w until _ None s1 got s2] s2 Inl by (simp add: read_some_def)
        then have "failure_explained (held st) (closed_failure (st_decoder st1) e)"
          using closed_explained[OF dec] ok1(3) by (simp add: plain_def)
        moreover obtain lost where "pw_received v s2 = pw_received v s1 @ lost" "pw_sent v s2 = pw_sent v s1" "pw_flight v s2 = Idle"
          using read_transferred[OF assms(1) view(1) s2] Inl by (auto simp: transferred_def)
        ultimately show ?thesis using view res by (intro received_ok_first[of v s' s lost]) simp_all
      next
        case (Inr count)
        note rb = read_buffer[OF assms(1) view(1) s2[unfolded Inr]]
        show ?thesis
        proof (cases "count = 0")
          case True
          then have res: "r = Inl (end_of_stream (st_decoder st1))" "st' = st1\<lparr>st_failed := True\<rparr>" "s' = s2"
            using loop pre \<open>c = Inr None\<close> Inr by simp_all
          show ?thesis
            using res rb view True end_explained[OF dec] ok1(3) by (intro received_ok_first[of v s' s "[]"]) simp_all
        next
          case False
          let ?st2 = "st1\<lparr>st_input := w_buffer w s2, st_begin := 0, st_end := count\<rparr>"
          have "buffered st1 = []" using ok1 by (simp add: held_def)
          note refill = refilled[OF ok1(1) this rb(2)]
          have "receive_loop w until fuel ?st2 s2 = Some (r, st', s')"
            using loop pre \<open>c = Inr None\<close> Inr False by simp
          note IH = Suc.IH[OF rb(1) refill(1) this]
          show ?thesis
            by (rule received_ok_step[OF IH, where new = "take count (w_buffer w s2)"])
              (simp_all add: rb view refill ok1)
        qed
      qed
    qed
  qed
qed

lemma receive_loop_terminates:
  assumes "kernel_contract w v" and "pw_flight v s = Idle" and "stream_ok st"
    and "frame_header_bytes + max_payload_bytes < fuel + length (held st)" and "0 < fuel"
  shows "receive_loop w until fuel st s \<noteq> None"
  using assms(2-)
proof (induction fuel arbitrary: st s)
  case (Suc fuel)
  obtain pre s1 where s1: "preflight w until s = (pre, s1)" by (metis surj_pair)
  obtain st1 c where c: "consume_buffered st = (st1, c)" by (metis surj_pair)
  obtain got s2 where s2: "read_some w buffer_bytes until s1 = (got, s2)" by (metis surj_pair)
  have view: "pw_flight v s1 = Idle"
    using preflight_view[OF assms(1) s1] Suc.prems(1) by (simp add: same_view_def)
  note refines = consume_buffered_refines[OF Suc.prems(2) c]
  note loop = receive_loop.simps(2)[of w until fuel st s, unfolded s1 prod.case c s2]
  show ?case
  proof (cases "pre = None \<and> c = Inr None \<and> (\<exists>count. got = Inr count \<and> count \<noteq> 0)")
    case False
    then show ?thesis unfolding loop by (auto split: option.splits sum.splits)
  next
    case True
    then obtain count where t: "pre = None" "c = Inr None" "got = Inr count" "count \<noteq> 0" by blast
    have ok1: "stream_ok st1" "held st1 = held st" "partial (st_decoder st1) = held st"
      using refines t by simp_all
    note rb = read_buffer[OF assms(1) view s2[unfolded t]]
    have "buffered st1 = []" using ok1 by (simp add: held_def)
    note refill = refilled[OF ok1(1) this rb(2)]
    have "length (held st) < frame_header_bytes + max_payload_bytes"
      using partial_bounded[of "st_decoder st1"] ok1 by (simp add: stream_ok_def)
    then have "receive_loop w until fuel (st1\<lparr>st_input := w_buffer w s2, st_begin := 0, st_end := count\<rparr>) s2 \<noteq> None"
      using Suc.prems(3) t rb(2) ok1 by (intro Suc.IH[OF rb(1) refill(1)]) (simp_all add: refill)
    then show ?thesis unfolding loop using t by simp
  qed
qed simp

subsection \<open>The connect loop\<close>

text \<open>
  \<open>clock s\<close> is the time of the steady clock. It never goes back, a reading lies between the times
  before and after it, and waiting for a pipe takes time.
\<close>

definition clock_contract :: "'k win32 \<Rightarrow> ('k \<Rightarrow> int) \<Rightarrow> bool" where
  "clock_contract w clock \<longleftrightarrow>
     (\<forall>s t s'. w_now w s = (t, s') \<longrightarrow> clock s \<le> t \<and> t \<le> clock s') \<and>
     (\<forall>s b s'. w_stop_requested w s = (b, s') \<longrightarrow> clock s \<le> clock s') \<and>
     (\<forall>name access flags s h s'. w_create_file w name access flags s = (h, s') \<longrightarrow> clock s \<le> clock s') \<and>
     (\<forall>name ms s b s'. w_wait_named_pipe w name ms s = (b, s') \<longrightarrow> clock s < clock s') \<and>
     (\<forall>ms s c s'. w_wait_single w ms s = (c, s') \<longrightarrow> clock s \<le> clock s')"

lemma clock_contractD:
  assumes "clock_contract w clock"
  shows "w_now w s = (t, s') \<Longrightarrow> clock s \<le> t \<and> t \<le> clock s'"
    and "w_stop_requested w s = (b, s') \<Longrightarrow> clock s \<le> clock s'"
    and "w_create_file w name access flags s = (h, s') \<Longrightarrow> clock s \<le> clock s'"
    and "w_wait_named_pipe w name ms s = (b, s') \<Longrightarrow> clock s < clock s'"
    and "w_wait_single w ms s = (c, s') \<Longrightarrow> clock s \<le> clock s'"
  using assms unfolding clock_contract_def by simp_all

lemma preflight_clock:
  assumes "clock_contract w clock" and "preflight w until s = (e, s')"
  shows "clock s \<le> clock s'" and "until \<le> clock s \<Longrightarrow> e \<noteq> None"
proof -
  obtain stopped s1 where s1: "w_stop_requested w s = (stopped, s1)" by (metis surj_pair)
  obtain now s2 where s2: "w_now w s1 = (now, s2)" by (metis surj_pair)
  have c: "clock s \<le> clock s1" "clock s1 \<le> now" "now \<le> clock s2"
    using clock_contractD(1,2)[OF assms(1)] s1 s2 by simp_all
  show "clock s \<le> clock s'" "until \<le> clock s \<Longrightarrow> e \<noteq> None"
    using assms(2) c by (auto simp: preflight_def s1 s2 split: if_splits)
qed

lemma remaining_clock:
  assumes "clock_contract w clock" and "remaining w until s = (n, s')"
  shows "clock s \<le> clock s'"
proof -
  obtain now s1 where s1: "w_now w s = (now, s1)" by (metis surj_pair)
  have "clock s \<le> now" "now \<le> clock s1" using clock_contractD(1)[OF assms(1) s1] by simp_all
  then show ?thesis using assms(2) by (auto simp: remaining_def s1 Let_def split: if_splits)
qed

lemma connect_loop_terminates:
  assumes "clock_contract w clock" and "until - clock s < int fuel" and "0 < fuel"
  shows "connect_loop w name until fuel s \<noteq> None"
  using assms(2,3)
proof (induction fuel arbitrary: s)
  case (Suc fuel)
  obtain e s1 where s1: "preflight w until s = (e, s1)" by (metis surj_pair)
  obtain raw s2 where s2: "w_create_file w name (GENERIC_READ OR GENERIC_WRITE)
      (FILE_FLAG_OVERLAPPED OR SECURITY_SQOS_PRESENT OR SECURITY_IDENTIFICATION) s1 = (raw, s2)" by (metis surj_pair)
  obtain ms s3 where s3: "remaining w until s2 = (ms, s3)" by (metis surj_pair)
  obtain available s4 where s4: "w_wait_named_pipe w name (min ms retry_milliseconds) s3 = (available, s4)" by (metis surj_pair)
  obtain waited s5 where s5: "w_wait_single w (min ms retry_milliseconds) s4 = (waited, s5)" by (metis surj_pair)
  have c: "clock s \<le> clock s1" "clock s1 \<le> clock s2" "clock s2 \<le> clock s3" "clock s3 < clock s4" "clock s4 \<le> clock s5"
    using preflight_clock(1)[OF assms(1) s1] remaining_clock[OF assms(1) s3] clock_contractD(3)[OF assms(1) s2]
      clock_contractD(4)[OF assms(1) s4] clock_contractD(5)[OF assms(1) s5] by simp_all
  note loop = connect_loop.simps(2)[of w name until fuel s, unfolded s1 prod.case]
  show ?case
  proof (cases "fuel = 0")
    case True
    then have "e \<noteq> None" using preflight_clock(2)[OF assms(1) s1] Suc.prems by simp
    then show ?thesis unfolding loop by auto
  next
    case False
    then have "connect_loop w name until fuel s4 \<noteq> None" "connect_loop w name until fuel s5 \<noteq> None"
      using c Suc.prems by (intro Suc.IH; simp)+
    then show ?thesis
      unfolding loop by (cases e) (simp_all add: s2 s3 s4 s5 Let_def)
  qed
qed simp

end
