(* ===== verification/Transport_Properties.thy ===== *)
theory Transport_Properties
  imports Pipe_Stream "HOL-Library.Sublist"
begin

section \<open>Properties of the transport\<close>

text \<open>
  The properties of the native operations and of the framed stream under the documented contract
  of the operating system, and \<open>loop_os\<close>, a small system that satisfies the contract: every
  read and write is pending first and completes when it is waited for, the chunks to read are
  given in advance, and the pipe breaks after the last one.
\<close>

subsection \<open>A system that satisfies the contract\<close>

record loop_state =
  lo_time :: int
  lo_error :: u32
  lo_flight :: flight
  lo_sent :: bytes
  lo_received :: bytes
  lo_buffer :: bytes
  lo_incoming :: "bytes list"
  lo_requests :: "pipe_request list"
  lo_open :: "handle list"
  lo_next :: handle

definition loop_piece :: nat where "loop_piece = 6"

fun loop_finish :: "loop_state \<Rightarrow> (bool \<times> u32) \<times> loop_state" where
  "loop_finish s =
     (case lo_flight s of
        Idle \<Rightarrow> ((False, 0), s\<lparr>lo_error := ERROR_OPERATION_ABORTED\<rparr>)
      | Connecting \<Rightarrow> ((True, 0), s\<lparr>lo_flight := Idle\<rparr>)
      | Reading room \<Rightarrow>
          let chunk = take (min room loop_piece) (concat (take 1 (lo_incoming s))) in
          ((True, of_nat (length chunk)),
           s\<lparr>lo_flight := Idle, lo_received := lo_received s @ chunk, lo_buffer := chunk,
             lo_incoming := drop 1 (lo_incoming s)\<rparr>)
      | Writing bs \<Rightarrow>
          let chunk = take loop_piece bs in
          ((True, of_nat (length chunk)), s\<lparr>lo_flight := Idle, lo_sent := lo_sent s @ chunk\<rparr>))"

text \<open>
  Handing out a handle: the next number, unless it is in use or no valid handle.
\<close>

definition loop_handle :: "loop_state \<Rightarrow> (bool \<times> handle) \<times> loop_state" where
  "loop_handle s =
     (if handle_valid \<lparr>uh_handle = lo_next s\<rparr> \<and> lo_next s \<notin> set (lo_open s)
      then ((True, lo_next s), s\<lparr>lo_open := lo_next s # lo_open s, lo_next := lo_next s + 1\<rparr>) else ((False, 0), s))"

definition loop_os :: "loop_state win32" where
  "loop_os =
     \<lparr>w_now = (\<lambda>s. (lo_time s, s\<lparr>lo_time := lo_time s + 1\<rparr>)),
      w_stop_requested = (\<lambda>s. (False, s)),
      w_last_error = lo_error,
      w_create_event = (\<lambda>s. (True, s)),
      w_connect_named_pipe = (\<lambda>s. (False, s\<lparr>lo_error := ERROR_PIPE_CONNECTED\<rparr>)),
      w_read_file = (\<lambda>n s. if lo_incoming s = [] then ((False, 0), s\<lparr>lo_error := ERROR_BROKEN_PIPE\<rparr>)
         else ((False, 0), s\<lparr>lo_error := ERROR_IO_PENDING, lo_flight := Reading (unat n)\<rparr>)),
      w_write_file = (\<lambda>bs s. ((False, 0), s\<lparr>lo_error := ERROR_IO_PENDING, lo_flight := Writing bs\<rparr>)),
      w_wait_objects = (\<lambda>ms s. (WAIT_OBJECT_0, s)),
      w_cancel_io = (\<lambda>s. (True, s)),
      w_overlapped_result = (\<lambda>wait s. loop_finish s),
      w_buffer = lo_buffer,
      w_close_handle = (\<lambda>h s. s\<lparr>lo_open := removeAll h (lo_open s)\<rparr>),
      w_open_process_token = loop_handle,
      w_logon_sid = (\<lambda>h n s. ((True, \<lparr>tg_size = 40, tg_count = 1, tg_sid = [1, 3]\<rparr>), s)),
      w_is_valid_sid = (\<lambda>sid. sid \<noteq> []),
      w_sid_to_string = (\<lambda>sid s. (Some (wide ''S-1-5-5-0-1''), s)),
      w_sddl_to_descriptor = (\<lambda>sddl s. (Some (map ucast sddl), s)),
      w_create_named_pipe = (\<lambda>request s.
         case loop_handle (s\<lparr>lo_requests := lo_requests s @ [request]\<rparr>) of ((done, h), s) \<Rightarrow> (h, s)),
      w_disconnect_named_pipe = (\<lambda>s. (True, s)),
      w_create_file = (\<lambda>name access flags s. (24, s)),
      w_wait_named_pipe = (\<lambda>name ms s. (True, s\<lparr>lo_time := lo_time s + 1\<rparr>)),
      w_wait_single = (\<lambda>ms s. (WAIT_TIMEOUT, s)),
      w_request_stop = (\<lambda>s. s),
      w_start_thread = (\<lambda>s. (None, s)),
      w_try_lock = (\<lambda>s. (True, s))\<rparr>"

definition loop_view :: "loop_state pipe_view" where
  "loop_view = \<lparr>pw_flight = lo_flight, pw_sent = lo_sent, pw_received = lo_received\<rparr>"

definition loop_start :: "bytes list \<Rightarrow> loop_state" where
  "loop_start chunks =
     \<lparr>lo_time = 0, lo_error = 0, lo_flight = Idle, lo_sent = [], lo_received = [], lo_buffer = [],
      lo_incoming = chunks, lo_requests = [], lo_open = [], lo_next = 16\<rparr>"

lemma take_min_length: "take (min (length xs) n) xs = take n xs"
  by (simp add: min_def)

lemma loop_finishes: "finishes loop_os loop_view"
  unfolding finishes_def
proof (intro allI impI)
  fix wait s finished n s'
  assume "w_overlapped_result loop_os wait s = ((finished, n), s')"
  then have "loop_finish s = ((finished, n), s')" by (simp add: loop_os_def)
  then show "if finished then pw_flight loop_view s' = Idle \<and> moved loop_os loop_view (pw_flight loop_view s) (unat n) s s'
      else if wait \<or> w_last_error loop_os s' \<noteq> ERROR_IO_INCOMPLETE
      then pw_flight loop_view s' = Idle \<and> moved_part loop_view (pw_flight loop_view s) s s'
      else pw_flight loop_view s' = pw_flight loop_view s \<and> pw_sent loop_view s' = pw_sent loop_view s \<and>
        pw_received loop_view s' = pw_received loop_view s"
    by (cases "lo_flight s")
      (auto simp: loop_view_def loop_os_def Let_def ERROR_OPERATION_ABORTED_def ERROR_IO_INCOMPLETE_def
        loop_piece_def unat_of_nat take_min_length)
qed

lemma loop_contract: "kernel_contract loop_os loop_view"
  unfolding kernel_contract_def
  by (intro conjI loop_finishes)
    (auto simp: quiet_def issues_def loop_os_def loop_view_def ERROR_PIPE_CONNECTED_def ERROR_IO_PENDING_def
      ERROR_BROKEN_PIPE_def)

lemma loop_start_idle: "pw_flight loop_view (loop_start chunks) = Idle"
  by (simp add: loop_view_def loop_start_def)

text \<open>
  A fresh stream whose input array is left out, so that concrete calls evaluate quickly.
\<close>

definition fresh_stream :: stream_state where
  "fresh_stream =
     \<lparr>st_input = [], st_begin = 0, st_end = 0, st_decoder = frame_decoder_init, st_failed = False\<rparr>"

lemma fresh_stream_ok: "stream_ok fresh_stream" and held_fresh [simp]: "held fresh_stream = []"
  by (simp_all add: stream_ok_def fresh_stream_def stream_state_init_def held_def buffered_def decoder_ok_init)

lemma receive_loop_mono:
  "receive_loop w until fuel st s = Some r \<Longrightarrow> fuel \<le> fuel' \<Longrightarrow> receive_loop w until fuel' st s = Some r"
proof (induction fuel arbitrary: st s fuel')
  case (Suc fuel)
  then obtain k where k: "fuel' = Suc k" "fuel \<le> k" by (cases fuel') simp_all
  show ?case
    using Suc.prems(1) Suc.IH[OF _ k(2)] unfolding k(1)
    by (auto simp: receive_loop.simps split: option.splits sum.splits prod.splits if_splits)
qed (simp add: receive_loop.simps)

lemma stream_receive_eval:
  assumes "receive_loop w until 9 st s = Some (r, st', s')" and "\<not> st_failed st"
  shows "stream_receive w until (Some st) s = Some (r, Some st', s')"
proof -
  have "9 \<le> receive_fuel" by (simp add: receive_fuel_def max_payload_bytes_def)
  then show ?thesis
    using receive_loop_mono[OF assms(1)] assms(2) by (simp add: stream_receive_def)
qed

subsection \<open>Sequences of calls\<close>

text \<open>
  A sender that sends payloads one after the other as long as they succeed, and a receiver that
  calls \<open>receive\<close> once per deadline as long as it succeeds.
\<close>

fun send_run :: "'k win32 \<Rightarrow> deadline \<Rightarrow> bytes list \<Rightarrow> pipe_stream \<Rightarrow> 'k \<Rightarrow> (pipe_stream \<times> 'k) option" where
  "send_run w until [] ps s = Some (ps, s)"
| "send_run w until (payload # payloads) ps s =
     (case stream_send w payload until ps s of
        (Inl e, ps, s) \<Rightarrow> None
      | (Inr n, ps, s) \<Rightarrow> send_run w until payloads ps s)"

fun receive_run :: "'k win32 \<Rightarrow> deadline list \<Rightarrow> pipe_stream \<Rightarrow> 'k \<Rightarrow> (bytes list \<times> pipe_stream \<times> 'k) option" where
  "receive_run w [] ps s = Some ([], ps, s)"
| "receive_run w (until # untils) ps s =
     (case stream_receive w until ps s of
        Some (Inr payload, ps, s) \<Rightarrow> map_option (map_prod ((#) payload) id) (receive_run w untils ps s)
      | _ \<Rightarrow> None)"

lemma first_frame_append:
  assumes "first_frame bs p rest"
  shows "first_frame (bs @ later) p (rest @ later)"
proof -
  obtain ps r where "split_frames rest = (ps, r)" by (metis surj_pair)
  then show ?thesis
    using assms by (simp add: first_frame_def split_frames_append[of _ later] split: sum.splits prod.splits)
qed

lemma send_preflight_view:
  "kernel_contract w v \<Longrightarrow> pw_flight v s = Idle \<Longrightarrow> preflight w until s = (e, s') \<Longrightarrow>
     pw_flight v s' = Idle \<and> pw_sent v s' = pw_sent v s \<and> pw_received v s' = pw_received v s"
  using preflight_view by (metis same_view_def)

lemma stream_send_correct:
  assumes "kernel_contract w v" and "pw_flight v s = Idle" and "stream_send w payload until ps s = (r, ps', s')"
  shows "pw_flight v s' = Idle \<and> pw_received v s' = pw_received v s \<and>
    (case r of
       Inr n \<Rightarrow> ps' = ps \<and> (\<exists>bs. frame payload = Inr bs \<and> n = length bs \<and> pw_sent v s' = pw_sent v s @ bs)
     | Inl e \<Rightarrow> (\<forall>st. ps' = Some st \<longrightarrow> st_failed st) \<and>
         (\<exists>n. pw_sent v s' = pw_sent v s @ take n (case frame payload of Inr bs \<Rightarrow> bs | Inl _ \<Rightarrow> [])))"
proof (cases "\<exists>st. ps = Some st \<and> \<not> st_failed st")
  case False
  then show ?thesis
    using assms(2,3) by (auto simp: stream_send_def split: option.splits intro: exI[of _ 0])
next
  case True
  then obtain st where st: "ps = Some st" "\<not> st_failed st" by blast
  obtain e s1 where s1: "preflight w until s = (e, s1)" by (metis surj_pair)
  note view = send_preflight_view[OF assms(1,2) s1]
  show ?thesis
  proof (cases "e = None \<and> (\<exists>bs. frame payload = Inr bs)")
    case False
    then have "(\<exists>x. r = Inl x) \<and> ps' = Some (st\<lparr>st_failed := True\<rparr>) \<and> s' = s1"
      using assms(3) by (cases e; cases "frame payload") (auto simp: stream_send_def st s1)
    then show ?thesis using view by (auto intro: exI[of _ 0])
  next
    case True
    then obtain bs where bs: "e = None" "frame payload = Inr bs" by blast
    obtain f s2 where s2: "send_loop w until bs s1 = (f, s2)" by (metis surj_pair)
    note loop = send_loop_correct[OF assms(1) conjunct1[OF view] s2]
    show ?thesis
      using assms(3) loop view bs by (cases f) (auto simp: stream_send_def st s1 s2)
  qed
qed

lemma send_run_correct:
  assumes "kernel_contract w v" and "pw_flight v s = Idle" and "send_run w until payloads ps s = Some (ps', s')"
  shows "pw_flight v s' = Idle \<and> (\<exists>fs. map frame payloads = map Inr fs \<and> pw_sent v s' = pw_sent v s @ concat fs)"
  using assms(2,3)
proof (induction payloads arbitrary: ps s)
  case (Cons p payloads)
  obtain r ps1 s1 where s1: "stream_send w p until ps s = (r, ps1, s1)" by (metis surj_pair)
  obtain n where n: "r = Inr n" "send_run w until payloads ps1 s1 = Some (ps', s')"
    using Cons.prems(2) s1 by (cases r) auto
  note sent = stream_send_correct[OF assms(1) Cons.prems(1) s1, unfolded n(1), simplified]
  obtain fs where "map frame payloads = map Inr fs" "pw_sent v s' = pw_sent v s1 @ concat fs" "pw_flight v s' = Idle"
    using Cons.IH[OF conjunct1[OF sent] n(2)] by blast
  moreover obtain bs where "frame p = Inr bs" "pw_sent v s1 = pw_sent v s @ bs" using sent by blast
  ultimately show ?case by (intro conjI exI[of _ "bs # fs"]) simp_all
qed (use assms in \<open>auto intro: exI[of _ "[]"]\<close>)

lemma stream_receive_refines:
  assumes "kernel_contract w v" and "pw_flight v s = Idle" and "stream_ok st"
    and "stream_receive w until (Some st) s = Some (r, ps', s')"
  shows "\<exists>st'. ps' = Some st' \<and> received_ok v st s r st' s'"
proof -
  have "\<not> st_failed st" using assms(3) by (simp add: stream_ok_def)
  then obtain st' where "receive_loop w until receive_fuel st s = Some (r, st', s')" "ps' = Some st'"
    using assms(4) by (auto simp: stream_receive_def)
  then show ?thesis using receive_loop_refines[OF assms(1-3)] by blast
qed

lemma receive_run_refines:
  assumes "kernel_contract w v" and "pw_flight v s = Idle" and "stream_ok st"
    and "receive_run w untils (Some st) s = Some (payloads, ps', s')"
  shows "\<exists>new qs r. pw_received v s' = pw_received v s @ new \<and> split_frames (held st @ new) = (payloads @ qs, r)"
  using assms(2-)
proof (induction untils arbitrary: st s payloads)
  case Nil
  then show ?case
    by (intro exI[of _ "[]"] exI[of _ "fst (split_frames (held st))"] exI[of _ "snd (split_frames (held st))"]) simp
next
  case (Cons until untils)
  obtain p ps1 s1 qs where s1: "stream_receive w until (Some st) s = Some (Inr p, ps1, s1)"
    and qs: "receive_run w untils ps1 s1 = Some (qs, ps', s')" "payloads = p # qs"
    using Cons.prems(3) by (auto split: option.splits sum.splits prod.splits)
  obtain st1 where st1: "ps1 = Some st1" and ok: "received_ok v st s (Inr p) st1 s1"
    using stream_receive_refines[OF assms(1) Cons.prems(1,2) s1] by blast
  then obtain seen where seen: "pw_received v s1 = pw_received v s @ seen" "first_frame (held st @ seen) p (held st1)"
    "stream_ok st1" "pw_flight v s1 = Idle"
    by (auto simp: received_ok_def)
  obtain new qs' r where new: "pw_received v s' = pw_received v s1 @ new" "split_frames (held st1 @ new) = (qs @ qs', r)"
    using Cons.IH[OF seen(4,3) qs(1)[unfolded st1]] by blast
  have "split_frames (held st @ (seen @ new)) = (payloads @ qs', r)"
    using first_frame_append[OF seen(2), of new] new(2) qs(2) by (simp add: first_frame_def)
  then show ?case using new(1) seen(1) by (metis append.assoc)
qed

lemma split_frames_prefix:
  assumes "prefix bs cs" and "split_frames bs = (ps, r)"
  shows "prefix ps (fst (split_frames cs))"
proof -
  obtain ds where "cs = bs @ ds" using assms(1) by (auto simp: prefix_def)
  then show ?thesis
    using assms(2) by (auto simp: split_frames_append[of bs ds] split: sum.splits prod.splits)
qed

lemma receive_loop_failed:
  "receive_loop w until fuel st s = Some (Inl e, st', s') \<Longrightarrow> st_failed st'"
proof (induction fuel arbitrary: st s)
  case (Suc fuel)
  obtain pre s1 where s1: "preflight w until s = (pre, s1)" by (metis surj_pair)
  obtain st1 c where c: "consume_buffered st = (st1, c)" by (metis surj_pair)
  obtain got s2 where s2: "read_some w buffer_bytes until s1 = (got, s2)" by (metis surj_pair)
  have failed: "st_failed st1" if "c = Inl x" for x
    using c that by (auto simp: consume_buffered_def split: if_splits prod.splits sum.splits)
  note loop = Suc.prems[unfolded receive_loop.simps s1 prod.case c s2]
  show ?case
    using loop Suc.IH failed by (auto split: option.splits sum.splits if_splits)
qed (simp add: receive_loop.simps)

subsection \<open>Properties\<close>

text \<open>
  Property C7. Buffer safety of overlapped I/O. Whenever \<open>accept\<close>, \<open>read_some\<close> or \<open>write_some\<close> returns, by
  whichever of its ways (immediate, completed, expired, cancelled, failed), no operation is left in
  flight, so the kernel no longer refers to the buffer, the events or the \<open>OVERLAPPED\<close> structure. A
  success has moved exactly the reported number of bytes, a failure at most a part.
\<close>

theorem io_operations_settle:
  assumes "kernel_contract w v" and "pw_flight v s = Idle"
  shows "(case native_accept w until s of (r, s') \<Rightarrow> transferred w v Connecting s r s') \<and>
    (case read_some w room until s of (r, s') \<Rightarrow> transferred w v (Reading (min room buffer_bytes)) s r s') \<and>
    (case write_some w bs until s of (r, s') \<Rightarrow> transferred w v (Writing (take (min (length bs) buffer_bytes) bs)) s r s')"
  using accept_transferred[OF assms] read_transferred[OF assms] write_transferred[OF assms]
  by (auto split: prod.splits)

theorem io_operations_settle_witness:
  "read_some loop_os 4 100 (loop_start [[5, 6, 7]]) =
     (Inr 3, \<lparr>lo_time = 2, lo_error = ERROR_IO_PENDING, lo_flight = Idle, lo_sent = [], lo_received = [5, 6, 7],
       lo_buffer = [5, 6, 7], lo_incoming = [], lo_requests = [], lo_open = [], lo_next = 16\<rparr>)"
proof -
  obtain s' where s': "read_some loop_os 4 100 (loop_start [[5, 6, 7]]) = (Inr 3, s')"
    "lo_time s' = 2 \<and> lo_error s' = ERROR_IO_PENDING \<and> lo_sent s' = [] \<and> lo_buffer s' = [5, 6, 7] \<and> lo_incoming s' = [] \<and>
      lo_requests s' = [] \<and> lo_open s' = [] \<and> lo_next s' = 16"
  proof -
    have "(case read_some loop_os 4 100 (loop_start [[5, 6, 7]]) of (r, s') \<Rightarrow> r = Inr 3 \<and>
      lo_time s' = 2 \<and> lo_error s' = ERROR_IO_PENDING \<and> lo_sent s' = [] \<and> lo_buffer s' = [5, 6, 7] \<and> lo_incoming s' = [] \<and>
      lo_requests s' = [] \<and> lo_open s' = [] \<and> lo_next s' = 16)"
      by code_simp
    then show thesis using that by (auto split: prod.splits)
  qed
  have "transferred loop_os loop_view (Reading (min 4 buffer_bytes)) (loop_start [[5, 6, 7]]) (Inr 3) s'"
    using io_operations_settle[OF loop_contract loop_start_idle, of "[[5, 6, 7]]" 100 4 "[]"] s'(1) by simp
  then have "lo_flight s' = Idle" "lo_received s' = [5, 6, 7]"
    using s'(2) by (simp_all add: transferred_def loop_view_def loop_os_def loop_start_def)
  then show ?thesis using s' by (cases s') simp
qed

text \<open>
  Property C32. \<open>send\<close> is exact. A success has written the length header and the whole payload, nothing
  else, and reports that length; it leaves the stream unchanged. A failure has written a prefix of
  that frame at most and leaves the stream failed.
\<close>

theorem send_exact:
  assumes "kernel_contract w v" and "pw_flight v s = Idle"
  shows "case stream_send w payload until ps s of (r, ps', s') \<Rightarrow>
    pw_flight v s' = Idle \<and> pw_received v s' = pw_received v s \<and>
    (case r of
       Inr n \<Rightarrow> ps' = ps \<and> (\<exists>bs. frame payload = Inr bs \<and> n = length bs \<and> pw_sent v s' = pw_sent v s @ bs)
     | Inl e \<Rightarrow> (\<forall>st. ps' = Some st \<longrightarrow> st_failed st) \<and>
         (\<exists>n. pw_sent v s' = pw_sent v s @ take n (case frame payload of Inr bs \<Rightarrow> bs | Inl _ \<Rightarrow> [])))"
proof -
  obtain r ps' s' where r: "stream_send w payload until ps s = (r, ps', s')" by (metis surj_pair)
  show ?thesis using stream_send_correct[OF assms r] by (simp add: r)
qed

theorem send_exact_witness:
  "fst (stream_send loop_os [1, 2, 3] 100 (Some fresh_stream) (loop_start [])) = Inr 7 \<and>
   lo_sent (snd (snd (stream_send loop_os [1, 2, 3] 100 (Some fresh_stream) (loop_start [])))) = [3, 0, 0, 0, 1, 2, 3]"
proof -
  have r: "fst (stream_send loop_os [1, 2, 3] 100 (Some fresh_stream) (loop_start [])) = Inr 7"
    by code_simp
  have "frame [1, 2, 3] = Inr [3, 0, 0, 0, 1, 2, 3]"
    by code_simp
  then show ?thesis
    using r send_exact[OF loop_contract loop_start_idle[of "[]"], where payload = "[1, 2, 3]" and until = 100 and ps = "Some fresh_stream"]
    by (auto simp: loop_view_def loop_start_def split: prod.splits)
qed

text \<open>
  Property C33. \<open>receive\<close> always returns: on a healthy stream the loop ends within \<open>receive_fuel\<close>
  iterations, whatever the peer sends and however it is cut, because every read that does not end it
  extends an unfinished frame of bounded size.
\<close>

theorem receive_returns:
  assumes "kernel_contract w v" and "pw_flight v s = Idle" and "stream_ok st"
  shows "\<exists>r st' s'. stream_receive w until (Some st) s = Some (r, Some st', s')"
proof -
  have "receive_loop w until receive_fuel st s \<noteq> None"
    by (rule receive_loop_terminates[OF assms]) (simp_all add: receive_fuel_def)
  then show ?thesis using assms(3) by (auto simp: stream_receive_def stream_ok_def)
qed

theorem receive_returns_witness:
  "\<exists>r st' s'. stream_receive loop_os 100 (Some stream_state_init) (loop_start [[1, 0], [0, 0, 9]]) =
     Some (r, Some st', s')"
  by (rule receive_returns[OF loop_contract loop_start_idle stream_ok_init])

text \<open>
  Property C34. \<open>receive\<close> refines the reference decoder. A success hands out the first frame of the
  bytes the stream held followed by the bytes it read, loses nothing and keeps the rest for the next
  call. A framing failure is the one the reference finds in these bytes, or \<open>truncated\<close> when the pipe
  ended inside a frame; \<open>disconnected\<close> means it ended between two frames.
\<close>

theorem receive_refines_reference:
  assumes "kernel_contract w v" and "pw_flight v s = Idle" and "stream_ok st"
    and "stream_receive w until (Some st) s = Some (r, ps', s')"
  shows "\<exists>st' seen lost. ps' = Some st' \<and> pw_received v s' = pw_received v s @ seen @ lost \<and>
    (case r of
       Inr p \<Rightarrow> lost = [] \<and> stream_ok st' \<and> p \<noteq> [] \<and> length p \<le> max_payload_bytes \<and>
         split_frames (held st @ seen) = (let (ps, rest) = split_frames (held st') in (p # ps, rest))
     | Inl e \<Rightarrow> st_failed st' \<and> failure_explained (held st @ seen) e)"
  using stream_receive_refines[OF assms] unfolding received_ok_def first_frame_def by (cases r) auto

theorem receive_refines_reference_witness:
  "\<exists>e. map_option fst (stream_receive loop_os 100 (Some fresh_stream) (loop_start [[1, 0], [0]])) = Some (Inl e) \<and>
     tf_kind e = TK_protocol_violation \<and> (\<exists>seen lost. [1, 0, 0] = seen @ lost \<and> failure_explained seen e)"
proof -
  have "map_option (\<lambda>(r, st', s'). (case r of Inl e \<Rightarrow> Some (tf_kind e) | Inr _ \<Rightarrow> None, lo_received s'))
      (receive_loop loop_os 100 9 fresh_stream (loop_start [[1, 0], [0]])) = Some (Some TK_protocol_violation, [1, 0, 0])"
    by code_simp
  then obtain r st' s' where r: "receive_loop loop_os 100 9 fresh_stream (loop_start [[1, 0], [0]]) = Some (r, st', s')"
    "(case r of Inl e \<Rightarrow> Some (tf_kind e) | Inr _ \<Rightarrow> None) = Some TK_protocol_violation" and got: "lo_received s' = [1, 0, 0]"
    by auto
  then obtain e where loop: "receive_loop loop_os 100 9 fresh_stream (loop_start [[1, 0], [0]]) = Some (Inl e, st', s')"
    and kind: "tf_kind e = TK_protocol_violation"
    by (cases r) auto
  have eval: "stream_receive loop_os 100 (Some fresh_stream) (loop_start [[1, 0], [0]]) = Some (Inl e, Some st', s')"
    using stream_receive_eval[OF loop] fresh_stream_ok by (simp add: stream_ok_def)
  have "\<exists>seen lost. [1, 0, 0] = seen @ lost \<and> failure_explained seen e"
    using receive_refines_reference[OF loop_contract loop_start_idle fresh_stream_ok eval] got
    by (auto simp: loop_view_def loop_start_def)
  then show ?thesis using eval kind by simp
qed

text \<open>
  Property C35. Payloads arrive in order and unchanged across a pipe. If one end sends payloads
  one after the other, and the bytes the other end has taken out of the pipe are a prefix of the
  bytes put in, then the payloads successive calls of \<open>receive\<close> return there are a prefix of the
  payloads that were sent, however the system cuts reads and writes.
\<close>

theorem pipe_delivers_in_order:
  assumes "kernel_contract w v" and "kernel_contract w' v'"
    and "pw_flight v s = Idle" and "pw_flight v' t = Idle" and "pw_sent v s = []" and "pw_received v' t = []"
    and "send_run w until payloads ps s = Some (ps', s')"
    and "stream_ok st" and "held st = []" and "receive_run w' untils (Some st) t = Some (got, qs', t')"
    and "prefix (pw_received v' t') (pw_sent v s')"
  shows "prefix got payloads"
proof -
  obtain fs where fs: "map frame payloads = map Inr fs" "pw_sent v s' = concat fs"
    using send_run_correct[OF assms(1,3,7)] assms(5) by auto
  obtain qs r where "split_frames (pw_received v' t') = (got @ qs, r)"
    using receive_run_refines[OF assms(2,4,8,10)] assms(6,9) by auto
  from split_frames_prefix[OF assms(11) this] have "prefix (got @ qs) payloads"
    using split_frames_concat[OF fs(1)] fs(2) by simp
  then show ?thesis by (meson prefix_order.trans prefixI)
qed

theorem pipe_delivers_in_order_witness:
  "\<exists>ps' s' qs' t'. send_run loop_os 100 [[1, 2], [3]] (Some fresh_stream) (loop_start []) = Some (ps', s') \<and>
     receive_run loop_os [100] (Some fresh_stream) (loop_start [[2, 0, 0, 0, 1], [2, 1]]) = Some ([[1, 2]], qs', t') \<and>
     lo_sent s' = [2, 0, 0, 0, 1, 2, 1, 0, 0, 0, 3] \<and> lo_received t' = [2, 0, 0, 0, 1, 2, 1] \<and> prefix [[1, 2]] [[1, 2], [3 :: byte]]"
proof -
  have "map_option (\<lambda>(ps', s'). lo_sent s') (send_run loop_os 100 [[1, 2], [3]] (Some fresh_stream) (loop_start [])) =
      Some [2, 0, 0, 0, 1, 2, 1, 0, 0, 0, 3]"
    by code_simp
  then obtain ps' s' where s: "send_run loop_os 100 [[1, 2], [3]] (Some fresh_stream) (loop_start []) = Some (ps', s')"
    "lo_sent s' = [2, 0, 0, 0, 1, 2, 1, 0, 0, 0, 3]" by auto
  have "map_option (\<lambda>(r, st', s'). (r, lo_received s')) (receive_loop loop_os 100 9 fresh_stream (loop_start [[2, 0, 0, 0, 1], [2, 1]])) =
      Some (Inr [1, 2], [2, 0, 0, 0, 1, 2, 1])"
    by code_simp
  then obtain st' t' where loop: "receive_loop loop_os 100 9 fresh_stream (loop_start [[2, 0, 0, 0, 1], [2, 1]]) = Some (Inr [1, 2], st', t')"
    and got: "lo_received t' = [2, 0, 0, 0, 1, 2, 1]" by auto
  have "stream_receive loop_os 100 (Some fresh_stream) (loop_start [[2, 0, 0, 0, 1], [2, 1]]) = Some (Inr [1, 2], Some st', t')"
    using stream_receive_eval[OF loop] fresh_stream_ok by (simp add: stream_ok_def)
  then have r: "receive_run loop_os [100] (Some fresh_stream) (loop_start [[2, 0, 0, 0, 1], [2, 1]]) = Some ([[1, 2]], Some st', t')"
    by simp
  have "prefix [[1, 2]] [[1, 2], [3 :: byte]]"
    by (rule pipe_delivers_in_order[OF loop_contract loop_contract loop_start_idle loop_start_idle _ _ s(1) fresh_stream_ok held_fresh r])
      (simp_all add: loop_view_def s(2) got loop_start_def)
  then show ?thesis using s r got by blast
qed

text \<open>
  Every failure is terminal. After \<open>send\<close> or \<open>receive\<close> has returned a failure on a stream,
  each later call answers \<open>disconnected\<close> at once, without any system call and without touching the
  stream.
\<close>

theorem stream_failure_terminal:
  assumes "stream_send w payload until ps s = (Inl e, ps', s') \<or> stream_receive w until ps s = Some (Inl e, ps', s')"
  shows "stream_send w2 payload2 until2 ps' s2 = (Inl (plain_failure TK_disconnected), ps', s2) \<and>
    stream_receive w2 until2 ps' s2 = Some (Inl (plain_failure TK_disconnected), ps', s2)"
proof -
  have "\<forall>st. ps' = Some st \<longrightarrow> st_failed st"
    using assms
  proof
    assume "stream_send w payload until ps s = (Inl e, ps', s')"
    then show ?thesis
      by (auto simp: stream_send_def split: option.splits if_splits prod.splits sum.splits)
  next
    assume "stream_receive w until ps s = Some (Inl e, ps', s')"
    then show ?thesis
      using receive_loop_failed[of w until receive_fuel _ s e _ s']
      by (auto simp: stream_receive_def split: option.splits if_splits)
  qed
  then show ?thesis by (auto simp: stream_send_def stream_receive_def split: option.splits)
qed

theorem stream_failure_terminal_witness:
  "fst (stream_send loop_os [] 100 (Some fresh_stream) (loop_start [])) =
     Inl \<lparr>tf_kind = TK_protocol_violation, tf_native_error = 0, tf_framing = Some (fatal FC_limit_exceeded)\<rparr> \<and>
   stream_receive loop_os 100 (fst (snd (stream_send loop_os [] 100 (Some fresh_stream) (loop_start [])))) (loop_start [[1]]) =
     Some (Inl (plain_failure TK_disconnected), fst (snd (stream_send loop_os [] 100 (Some fresh_stream) (loop_start []))), loop_start [[1]])"
proof -
  obtain r ps' s' where r: "stream_send loop_os [] 100 (Some fresh_stream) (loop_start []) = (r, ps', s')" by (metis surj_pair)
  have "fst (stream_send loop_os [] 100 (Some fresh_stream) (loop_start [])) =
     Inl \<lparr>tf_kind = TK_protocol_violation, tf_native_error = 0, tf_framing = Some (fatal FC_limit_exceeded)\<rparr>"
    by code_simp
  then have e: "r = Inl \<lparr>tf_kind = TK_protocol_violation, tf_native_error = 0, tf_framing = Some (fatal FC_limit_exceeded)\<rparr>"
    using r by simp
  show ?thesis
    using stream_failure_terminal[OF disjI1[OF r[unfolded e]], of loop_os "[]" 100 "loop_start [[1]]"] r e by simp
qed

end
