(* ===== verification/Pipe_Server.thy ===== *)
theory Pipe_Server
  imports Dispatcher Transport_Properties
begin

section \<open>The pipe server\<close>

text \<open>
  Models \<open>src/transport/windows/server.cpp\<close> and \<open>include/pipeforge/pipe_server.hpp\<close>. Each worker
  thread runs \<open>run\<close>, which accepts a client, serves its session and cleans up, for ever. A
  \<open>phase\<close> says where in these loops a worker stands and \<open>worker_step\<close> executes one iteration:
  \<open>Accepting\<close> is the head of the loop of \<open>run\<close>, \<open>Receiving\<close> the head of the loop of \<open>serve\<close>,
  \<open>Gating\<close> the head of the loop of \<open>dispatch\<close> that waits for \<open>domain_gate_\<close>. The part of
  \<open>dispatch\<close> behind the gate touches the shared state only while the gate is held, so the
  workers interleave in steps: a schedule is the list of the workers whose turn it is.

  The shared state is the identifier source, the statistics and the diagnostic log. Every
  worker has its own stream, session store and view of the operating system, which also answers
  for the stop token and the timed lock.
\<close>

record server_options =
  sp_endpoint :: wstring
  sp_request_timeout :: int
  sp_sessions :: nat
  sp_storage :: session_limits

record server_statistics =
  sn_connections :: u64
  sn_completed_requests :: u64
  sn_protocol_failures :: u64
  sn_io_failures :: u64
  sn_active_sessions :: u64
  sn_last_native_error :: u32

record shared =
  sh_identifiers :: identifier_source
  sh_statistics :: server_statistics
  sh_log :: "log_line list"

datatype 'o phase =
    Accepting
  | Receiving pipe_stream "'o session_store"
  | Gating pipe_stream "'o session_store" bytes deadline
  | Finished

text \<open>
  What a server is built from: the registry and class interface, the Protobuf runtime, the
  operating system, the options, and whether diagnostics are attached.
\<close>

record ('o, 'k) server_config =
  cf_env :: "'o domain_env"
  cf_requests :: "pb_request protobuf"
  cf_responses :: "pb_response protobuf"
  cf_os :: "'k win32"
  cf_options :: server_options
  cf_diagnostics :: bool

record ('o, 'k) server =
  sr_shared :: shared
  sr_workers :: "('o phase \<times> 'k) list"

definition server_statistics_init :: server_statistics where
  "server_statistics_init =
     \<lparr>sn_connections = 0, sn_completed_requests = 0, sn_protocol_failures = 0, sn_io_failures = 0,
      sn_active_sessions = 0, sn_last_native_error = 0\<rparr>"

definition shared_init :: shared where
  "shared_init = \<lparr>sh_identifiers = 1, sh_statistics = server_statistics_init, sh_log = []\<rparr>"

definition statistics :: "('o, 'k) server \<Rightarrow> server_statistics" where
  "statistics sv = sh_statistics (sr_shared sv)"

abbreviation count_connection :: "shared \<Rightarrow> shared" where
  "count_connection sh \<equiv> sh\<lparr>sh_statistics := (sh_statistics sh)
     \<lparr>sn_connections := sn_connections (sh_statistics sh) + 1,
      sn_active_sessions := sn_active_sessions (sh_statistics sh) + 1\<rparr>\<rparr>"

abbreviation count_inactive :: "shared \<Rightarrow> shared" where
  "count_inactive sh \<equiv> sh\<lparr>sh_statistics := (sh_statistics sh)
     \<lparr>sn_active_sessions := sn_active_sessions (sh_statistics sh) - 1\<rparr>\<rparr>"

abbreviation count_completed :: "shared \<Rightarrow> shared" where
  "count_completed sh \<equiv> sh\<lparr>sh_statistics := (sh_statistics sh)
     \<lparr>sn_completed_requests := sn_completed_requests (sh_statistics sh) + 1\<rparr>\<rparr>"

abbreviation count_protocol :: "shared \<Rightarrow> shared" where
  "count_protocol sh \<equiv> sh\<lparr>sh_statistics := (sh_statistics sh)
     \<lparr>sn_protocol_failures := sn_protocol_failures (sh_statistics sh) + 1\<rparr>\<rparr>"

abbreviation count_io :: "shared \<Rightarrow> shared" where
  "count_io sh \<equiv> sh\<lparr>sh_statistics := (sh_statistics sh)
     \<lparr>sn_io_failures := sn_io_failures (sh_statistics sh) + 1\<rparr>\<rparr>"

abbreviation note_native_error :: "u32 \<Rightarrow> shared \<Rightarrow> shared" where
  "note_native_error code sh \<equiv> sh\<lparr>sh_statistics := (sh_statistics sh)\<lparr>sn_last_native_error := code\<rparr>\<rparr>"

fun kind_number :: "failure_kind \<Rightarrow> nat" where
  "kind_number TK_invalid_configuration = 0"
| "kind_number TK_timeout = 1"
| "kind_number TK_cancelled = 2"
| "kind_number TK_disconnected = 3"
| "kind_number TK_access_denied = 4"
| "kind_number TK_io_failure = 5"
| "kind_number TK_protocol_violation = 6"

definition transport_log :: "transport_failure \<Rightarrow> log_line" where
  "transport_log e =
     (Log_warning, ''transport kind='' @ decimal (kind_number (tf_kind e)) @ '' native='' @ decimal (unat (tf_native_error e)))"

definition server_record :: "('o, 'k) server_config \<Rightarrow> transport_failure \<Rightarrow> shared \<Rightarrow> 'k \<Rightarrow> shared \<times> 'k" where
  "server_record cf e sh s =
     (let (sh, s) =
        (if tf_kind e = TK_protocol_violation then (count_protocol sh, s)
         else if tf_kind e \<noteq> TK_disconnected then
           let (stopped, s) = w_stop_requested (cf_os cf) s in (if stopped then sh else count_io sh, s)
         else (sh, s));
          sh = (if tf_native_error e \<noteq> 0 then note_native_error (tf_native_error e) sh else sh)
      in if cf_diagnostics cf \<and> tf_kind e \<noteq> TK_disconnected then
           let (stopped, s) = w_stop_requested (cf_os cf) s in
           (if stopped then sh else sh\<lparr>sh_log := sh_log sh @ [transport_log e]\<rparr>, s)
         else (sh, s))"

subsection \<open>Dispatching one payload\<close>

text \<open>
  What happens while the gate is held: the decoded request is dispatched, or the failure
  rejected. The result \<^term>\<open>None\<close> is an operation of the store that has no defined result.
\<close>

definition gated ::
  "('o, 'k) server_config \<Rightarrow> bytes \<Rightarrow> shared \<Rightarrow> 'o session_store \<Rightarrow> (response result \<times> shared \<times> 'o session_store) option" where
  "gated cf payload sh st =
     (case decode_request (de_utf8 (cf_env cf)) (cf_requests cf) payload of
        Inl f \<Rightarrow> Some (dispatcher_reject f, count_protocol sh, st)
      | Inr req \<Rightarrow>
          map_option (\<lambda>(r, lines, ids, st). (r, sh\<lparr>sh_identifiers := ids, sh_log := sh_log sh @ lines\<rparr>, st))
            (dispatcher_dispatch (cf_env cf) (cf_diagnostics cf) (sh_identifiers sh) st req))"

text \<open>
  What follows after the gate was released: encode and send the response. The boolean is the
  result of \<open>dispatch\<close>, whether the session goes on.
\<close>

definition respond ::
  "('o, 'k) server_config \<Rightarrow> deadline \<Rightarrow> response result \<Rightarrow> pipe_stream \<Rightarrow> shared \<Rightarrow> 'k \<Rightarrow> bool \<times> pipe_stream \<times> shared \<times> 'k" where
  "respond cf until r ps sh s =
     (case r of
        Inl _ \<Rightarrow> (False, ps, sh, s)
      | Inr res \<Rightarrow>
        case encode_response (de_utf8 (cf_env cf)) (cf_responses cf) res of
          Inl _ \<Rightarrow> let (sh, s) = server_record cf (plain_failure TK_protocol_violation) sh s in (False, ps, sh, s)
        | Inr encoded \<Rightarrow>
          case stream_send (cf_os cf) encoded until ps s of
            (Inl e, ps, s) \<Rightarrow> let (sh, s) = server_record cf e sh s in (False, ps, sh, s)
          | (Inr _, ps, s) \<Rightarrow> (True, ps, count_completed sh, s))"

subsection \<open>One step of a worker\<close>

text \<open>
  The end of a session: the store is closed under the gate, the count goes down and the pipe is
  disconnected for the next client.
\<close>

definition end_session :: "('o, 'k) server_config \<Rightarrow> shared \<Rightarrow> 'k \<Rightarrow> 'o phase \<times> shared \<times> 'k" where
  "end_session cf sh s =
     (let sh = count_inactive sh; (disconnected, s) = w_disconnect_named_pipe (cf_os cf) s in
      if disconnected then (Accepting, sh, s)
      else let code = w_last_error (cf_os cf) s in
        if code \<noteq> ERROR_PIPE_NOT_CONNECTED then
          let (sh, s) = server_record cf (io_failure code) sh s in (Accepting, sh, w_request_stop (cf_os cf) s)
        else (Accepting, sh, s))"

definition accept_step :: "('o, 'k) server_config \<Rightarrow> shared \<Rightarrow> 'k \<Rightarrow> 'o phase \<times> shared \<times> 'k" where
  "accept_step cf sh s =
     (let w = cf_os cf; (stopped, s) = w_stop_requested w s in
      if stopped then (Finished, sh, s)
      else case native_accept w deadline_max s of
        (Inr _, s) \<Rightarrow>
          (Receiving (Some stream_state_init) (session_store_init (sp_storage (cf_options cf))), count_connection sh, s)
      | (Inl e, s) \<Rightarrow>
          let (stopped, s) = w_stop_requested w s in
          if stopped then (Finished, sh, s)
          else let (sh, s) = server_record cf e sh s; (_, s) = w_disconnect_named_pipe w s in
            if tf_kind e = TK_disconnected then (Accepting, sh, s)
            else (Finished, sh, w_request_stop w s))"

definition receive_step ::
  "('o, 'k) server_config \<Rightarrow> pipe_stream \<Rightarrow> 'o session_store \<Rightarrow> shared \<Rightarrow> 'k \<Rightarrow> ('o phase \<times> shared \<times> 'k) option" where
  "receive_step cf ps st sh s =
     (let w = cf_os cf; (stopped, s) = w_stop_requested w s in
      if stopped then Some (end_session cf sh s)
      else let (now, s) = w_now w s; until = now + sp_request_timeout (cf_options cf) * 1000000 in
        case stream_receive w until ps s of
          None \<Rightarrow> None
        | Some (Inl e, ps, s) \<Rightarrow> let (sh, s) = server_record cf e sh s in Some (end_session cf sh s)
        | Some (Inr payload, ps, s) \<Rightarrow> Some (Gating ps st payload until, sh, s))"

definition gate_step ::
  "('o, 'k) server_config \<Rightarrow> pipe_stream \<Rightarrow> 'o session_store \<Rightarrow> bytes \<Rightarrow> deadline \<Rightarrow> shared \<Rightarrow> 'k \<Rightarrow>
     ('o phase \<times> shared \<times> 'k) option" where
  "gate_step cf ps st payload until sh s =
     (let w = cf_os cf in
      case preflight w until s of
        (Some e, s) \<Rightarrow> let (sh, s) = server_record cf e sh s in Some (end_session cf sh s)
      | (None, s) \<Rightarrow>
        let (locked, s) = w_try_lock w s in
        if \<not> locked then Some (Gating ps st payload until, sh, s)
        else case preflight w until s of
          (Some e, s) \<Rightarrow> let (sh, s) = server_record cf e sh s in Some (end_session cf sh s)
        | (None, s) \<Rightarrow>
          case gated cf payload sh st of
            None \<Rightarrow> None
          | Some (r, sh, st) \<Rightarrow>
            let (continue, ps, sh, s) = respond cf until r ps sh s in
            Some (if continue then (Receiving ps st, sh, s) else end_session cf sh s))"

fun worker_step ::
  "('o, 'k) server_config \<Rightarrow> 'o phase \<Rightarrow> shared \<Rightarrow> 'k \<Rightarrow> ('o phase \<times> shared \<times> 'k) option" where
  "worker_step cf Accepting sh s = Some (accept_step cf sh s)"
| "worker_step cf (Receiving ps st) sh s = receive_step cf ps st sh s"
| "worker_step cf (Gating ps st payload until) sh s = gate_step cf ps st payload until sh s"
| "worker_step cf Finished sh s = Some (Finished, sh, s)"

definition server_step :: "('o, 'k) server_config \<Rightarrow> nat \<Rightarrow> ('o, 'k) server \<Rightarrow> ('o, 'k) server option" where
  "server_step cf i sv =
     (if i < length (sr_workers sv) then
        case sr_workers sv ! i of (ph, s) \<Rightarrow>
          map_option (\<lambda>(ph, sh, s). \<lparr>sr_shared = sh, sr_workers = (sr_workers sv)[i := (ph, s)]\<rparr>)
            (worker_step cf ph (sr_shared sv) s)
      else Some sv)"

fun server_run :: "('o, 'k) server_config \<Rightarrow> nat list \<Rightarrow> ('o, 'k) server \<Rightarrow> ('o, 'k) server option" where
  "server_run cf [] sv = Some sv"
| "server_run cf (i # schedule) sv =
     (case server_step cf i sv of None \<Rightarrow> None | Some sv \<Rightarrow> server_run cf schedule sv)"

subsection \<open>Starting and stopping\<close>

fun create_instances ::
  "'k win32 \<Rightarrow> wstring \<Rightarrow> nat \<Rightarrow> descriptor \<Rightarrow> nat list \<Rightarrow> 'k \<Rightarrow> (transport_failure option \<times> unique_handle list) \<times> 'k" where
  "create_instances w name slots security [] s = ((None, []), s)"
| "create_instances w name slots security (index # rest) s =
     (case create_instance w name slots (index = 0) security s of
        (Inl e, s) \<Rightarrow> ((Some e, []), s)
      | (Inr pipe, s) \<Rightarrow>
          let ((e, pipes), s) = create_instances w name slots security rest s in ((e, pipe # pipes), s))"

fun start_workers :: "'k win32 \<Rightarrow> unique_handle list \<Rightarrow> 'k \<Rightarrow> u32 option \<times> 'k" where
  "start_workers w [] s = (None, s)"
| "start_workers w (pipe # pipes) s =
     (case w_start_thread w s of (Some code, s) \<Rightarrow> (Some code, s) | (None, s) \<Rightarrow> start_workers w pipes s)"

fun close_pipes :: "'k win32 \<Rightarrow> unique_handle list \<Rightarrow> 'k \<Rightarrow> 'k" where
  "close_pipes w [] s = s"
| "close_pipes w (pipe # pipes) s = close_pipes w pipes (handle_destroy w pipe s)"

definition server_stop :: "'k win32 \<Rightarrow> unique_handle list \<Rightarrow> 'k \<Rightarrow> 'k" where
  "server_stop w pipes s = close_pipes w pipes (w_request_stop w s)"

text \<open>
  The result of \<open>launch\<close> is the failure, if any, and the pipes the state then owns.
\<close>

definition launch :: "'k win32 \<Rightarrow> server_options \<Rightarrow> 'k \<Rightarrow> (transport_failure option \<times> unique_handle list) \<times> 'k" where
  "launch w options s =
     (case logon_security w s of
        (Inl e, s) \<Rightarrow> ((Some e, []), s)
      | (Inr security, s) \<Rightarrow>
        case create_instances w (sp_endpoint options) (sp_sessions options) security [0..<sp_sessions options] s of
          ((Some e, pipes), s) \<Rightarrow> ((Some e, pipes), s)
        | ((None, pipes), s) \<Rightarrow>
          case start_workers w pipes s of
            (Some code, s) \<Rightarrow>
              ((Some \<lparr>tf_kind = TK_io_failure, tf_native_error = code, tf_framing = None\<rparr>, []), server_stop w pipes s)
          | (None, s) \<Rightarrow> ((None, pipes), s))"

definition valid_options :: "server_options \<Rightarrow> bool" where
  "valid_options options \<longleftrightarrow> \<not> (\<not> valid_endpoint (sp_endpoint options) \<or> sp_sessions options = 0 \<or>
     sp_sessions options > max_sessions \<or> sp_request_timeout options < minimum_timeout \<or>
     sp_request_timeout options > maximum_timeout)"

text \<open>
  When \<open>launch\<close> fails the state is destroyed, which stops it.
\<close>

definition server_start :: "'k win32 \<Rightarrow> server_options \<Rightarrow> 'k \<Rightarrow> unique_handle list transport_result \<times> 'k" where
  "server_start w options s =
     (if \<not> valid_options options then (Inl (plain_failure TK_invalid_configuration), s)
      else case launch w options s of
        ((Some e, pipes), s) \<Rightarrow> (Inl e, server_stop w pipes s)
      | ((None, pipes), s) \<Rightarrow> (Inr pipes, s))"

definition server_init :: "'k list \<Rightarrow> ('o, 'k) server" where
  "server_init oss = \<lparr>sr_shared = shared_init, sr_workers = map (Pair Accepting) oss\<rparr>"

subsection \<open>The invariant\<close>

text \<open>
  What the workers rely on beside the contract of overlapped operations: disconnecting the pipe,
  requesting a stop and trying the lock start no operation.
\<close>

definition server_contract :: "'k win32 \<Rightarrow> 'k pipe_view \<Rightarrow> bool" where
  "server_contract w v \<longleftrightarrow> kernel_contract w v \<and>
     (\<forall>s. pw_flight v s = Idle \<longrightarrow> pw_flight v (snd (w_disconnect_named_pipe w s)) = Idle \<and>
        pw_flight v (w_request_stop w s) = Idle \<and> pw_flight v (snd (w_try_lock w s)) = Idle)"

fun phase_store :: "session_limits \<Rightarrow> 'o phase \<Rightarrow> 'o session_store" where
  "phase_store limits (Receiving ps st) = st"
| "phase_store limits (Gating ps st payload until) = st"
| "phase_store limits ph = session_store_init limits"

fun serving :: "'o phase \<Rightarrow> bool" where
  "serving (Receiving ps st) = True"
| "serving (Gating ps st payload until) = True"
| "serving ph = False"

fun phase_stream_ok :: "'o phase \<Rightarrow> bool" where
  "phase_stream_ok (Receiving ps st) = (\<exists>x. ps = Some x \<and> stream_ok x)"
| "phase_stream_ok (Gating ps st payload until) = (\<exists>x. ps = Some x \<and> stream_ok x)"
| "phase_stream_ok ph = True"

definition server_host :: "session_limits \<Rightarrow> ('o, 'k) server \<Rightarrow> 'o host" where
  "server_host limits sv =
     \<lparr>ho_ids = sh_identifiers (sr_shared sv), ho_sessions = map (phase_store limits \<circ> fst) (sr_workers sv)\<rparr>"

abbreviation active :: "shared \<Rightarrow> u64" where
  "active sh \<equiv> sn_active_sessions (sh_statistics sh)"

abbreviation serving_count :: "('o phase \<times> 'k) list \<Rightarrow> u64" where
  "serving_count ws \<equiv> sum_list (map (of_bool \<circ> serving \<circ> fst) ws)"

definition server_ok :: "('o, 'k) server_config \<Rightarrow> 'k pipe_view \<Rightarrow> ('o, 'k) server \<Rightarrow> bool" where
  "server_ok cf v sv \<longleftrightarrow>
     host_ok (cf_env cf) (server_host (sp_storage (cf_options cf)) sv) \<and>
     (\<forall>(ph, s) \<in> set (sr_workers sv). pw_flight v s = Idle \<and> phase_stream_ok ph) \<and>
     active (sr_shared sv) = serving_count (sr_workers sv)"

definition step_ok ::
  "('o, 'k) server_config \<Rightarrow> 'k pipe_view \<Rightarrow> 'o phase \<Rightarrow> shared \<Rightarrow> 'o phase \<Rightarrow> shared \<Rightarrow> 'k \<Rightarrow> bool" where
  "step_ok cf v ph sh ph' sh' s' \<longleftrightarrow>
     pw_flight v s' = Idle \<and> phase_stream_ok ph' \<and>
     store_ok (cf_env cf) (sh_identifiers sh') (phase_store (sp_storage (cf_options cf)) ph') \<and>
     (\<forall>i. issued (sh_identifiers sh) i \<longrightarrow> issued (sh_identifiers sh') i) \<and>
     (\<forall>i \<in> keys (phase_store (sp_storage (cf_options cf)) ph').
        i \<in> keys (phase_store (sp_storage (cf_options cf)) ph) \<or> \<not> issued (sh_identifiers sh) i) \<and>
     active sh' = active sh + of_bool (serving ph') - of_bool (serving ph)"

lemma server_contractD:
  assumes "server_contract w v"
  shows "kernel_contract w v"
    and "pw_flight v s = Idle \<Longrightarrow> w_disconnect_named_pipe w s = (b, s') \<Longrightarrow> pw_flight v s' = Idle"
    and "pw_flight v s = Idle \<Longrightarrow> pw_flight v (w_request_stop w s) = Idle"
    and "pw_flight v s = Idle \<Longrightarrow> w_try_lock w s = (b, s') \<Longrightarrow> pw_flight v s' = Idle"
  using assms unfolding server_contract_def by (metis snd_conv)+

lemma idle_after:
  assumes "server_contract w v" and "pw_flight v s = Idle"
  shows "w_stop_requested w s = (b, s') \<Longrightarrow> pw_flight v s' = Idle" and "w_now w s = (t, s') \<Longrightarrow> pw_flight v s' = Idle"
    and "preflight w until s = (e, s') \<Longrightarrow> pw_flight v s' = Idle"
  using assms(2) kernel_contractD(1,2)[OF server_contractD(1)[OF assms(1)], of s]
    preflight_view[OF server_contractD(1)[OF assms(1)], of until s e s']
  by (auto simp: same_view_def)

lemma server_record_effect:
  assumes "server_contract (cf_os cf) v" and "pw_flight v s = Idle" and "server_record cf e sh s = (sh', s')"
  shows "pw_flight v s' = Idle \<and> sh_identifiers sh' = sh_identifiers sh \<and> active sh' = active sh"
proof -
  obtain b s1 where s1: "w_stop_requested (cf_os cf) s = (b, s1)" by (metis surj_pair)
  obtain b' s2 where s2: "w_stop_requested (cf_os cf) s1 = (b', s2)" by (metis surj_pair)
  have "pw_flight v s1 = Idle" "pw_flight v s2 = Idle"
    using idle_after(1)[OF assms(1,2) s1] idle_after(1)[OF assms(1) _ s2] by blast+
  then show ?thesis
    using assms(2,3) by (auto simp: server_record_def s1 s2 Let_def split: if_splits)
qed

lemma end_session_effect:
  assumes "server_contract (cf_os cf) v" and "pw_flight v s = Idle" and "end_session cf sh s = (ph', sh', s')"
  shows "ph' = Accepting \<and> pw_flight v s' = Idle \<and> sh_identifiers sh' = sh_identifiers sh \<and> active sh' = active sh - 1"
proof -
  obtain b s1 where s1: "w_disconnect_named_pipe (cf_os cf) s = (b, s1)" by (metis surj_pair)
  note i1 = server_contractD(2)[OF assms(1,2) s1]
  obtain sh2 s2 where s2: "server_record cf (io_failure (w_last_error (cf_os cf) s1)) (count_inactive sh) s1 = (sh2, s2)"
    by (metis surj_pair)
  note r = server_record_effect[OF assms(1) i1 s2]
  show ?thesis
    using assms(3) i1 r server_contractD(3)[OF assms(1), of s2]
    by (auto simp: end_session_def s1 s2 Let_def split: if_splits)
qed

lemma step_ok_end_session:
  assumes "server_contract (cf_os cf) v" and "pw_flight v s = Idle" and "serving ph"
    and "sh_identifiers sh1 = sh_identifiers sh" and "active sh1 = active sh"
    and "end_session cf sh1 s = (ph', sh', s')"
  shows "step_ok cf v ph sh ph' sh' s'"
  using end_session_effect[OF assms(1,2,6)] assms(3-5) by (simp add: step_ok_def store_ok_init)

lemma accept_step_ok:
  assumes "server_contract (cf_os cf) v" and "pw_flight v s = Idle" and "accept_step cf sh s = (ph', sh', s')"
  shows "step_ok cf v Accepting sh ph' sh' s'"
proof -
  define w where "w = cf_os cf"
  obtain b s1 where s1: "w_stop_requested w s = (b, s1)" by (metis surj_pair)
  obtain r s2 where s2: "native_accept w deadline_max s1 = (r, s2)" by (metis surj_pair)
  obtain b3 s3 where s3: "w_stop_requested w s2 = (b3, s3)" by (metis surj_pair)
  note c = assms(1)[folded w_def]
  note i1 = idle_after(1)[OF c assms(2) s1]
  have i2: "pw_flight v s2 = Idle"
    using accept_transferred[OF server_contractD(1)[OF c] i1 s2] by (simp add: transferred_def)
  note i3 = idle_after(1)[OF c i2 s3]
  have base: "step_ok cf v Accepting sh ph sh1 s" if "pw_flight v s = Idle" "\<not> serving ph" "phase_stream_ok ph"
    "phase_store (sp_storage (cf_options cf)) ph = session_store_init (sp_storage (cf_options cf))"
    "sh_identifiers sh1 = sh_identifiers sh" "active sh1 = active sh" for ph sh1 s
    using that by (simp add: step_ok_def store_ok_init)
  show ?thesis
  proof (cases "b")
    case True
    then have "ph' = Finished" "sh' = sh" "s' = s1"
      using assms(3) by (auto simp: accept_step_def s1 Let_def simp flip: w_def)
    then show ?thesis using base[of s1 Finished sh] i1 by simp
  next
    case nb: False
    show ?thesis
    proof (cases r)
      case (Inr n)
      then have "ph' = Receiving (Some stream_state_init) (session_store_init (sp_storage (cf_options cf)))"
        "sh' = count_connection sh" "s' = s2"
        using assms(3) nb by (auto simp: accept_step_def s1 s2 Let_def simp flip: w_def)
      then show ?thesis using i2 by (simp add: step_ok_def store_ok_init stream_ok_init)
    next
      case (Inl e)
      obtain sh4 s4 where s4: "server_record cf e sh s3 = (sh4, s4)" by (metis surj_pair)
      obtain b5 s5 where s5: "w_disconnect_named_pipe w s4 = (b5, s5)" by (metis surj_pair)
      note r4 = server_record_effect[OF assms(1) i3 s4]
      note i5 = server_contractD(2)[OF c conjunct1[OF r4] s5]
      have "(ph', sh', s') = (if b3 then (Finished, sh, s3) else if tf_kind e = TK_disconnected then (Accepting, sh4, s5)
          else (Finished, sh4, w_request_stop w s5))"
        using assms(3) nb Inl
        by (cases b3; cases "tf_kind e = TK_disconnected") (simp_all add: accept_step_def s1 s2 s3 s4 s5 Let_def flip: w_def)
      then show ?thesis
        using base[of s3 Finished sh] base[of s5 Accepting sh4] base[of "w_request_stop w s5" Finished sh4]
          i3 r4 i5 server_contractD(3)[OF c i5] by (simp split: if_splits)
    qed
  qed
qed

lemma receive_step_ok:
  assumes "server_contract (cf_os cf) v" and "pw_flight v s = Idle" and "stream_ok x"
    and "store_ok (cf_env cf) (sh_identifiers sh) st"
  shows "\<exists>ph' sh' s'. receive_step cf (Some x) st sh s = Some (ph', sh', s') \<and>
    step_ok cf v (Receiving (Some x) st) sh ph' sh' s'"
proof -
  define w where "w = cf_os cf"
  obtain b s1 where s1: "w_stop_requested w s = (b, s1)" by (metis surj_pair)
  obtain now s2 where s2: "w_now w s1 = (now, s2)" by (metis surj_pair)
  define until where "until = now + sp_request_timeout (cf_options cf) * 1000000"
  note c = assms(1)[folded w_def]
  note i1 = idle_after(1)[OF c assms(2) s1]
  note i2 = idle_after(2)[OF c i1 s2]
  show ?thesis
  proof (cases b)
    case True
    then show ?thesis
      using step_ok_end_session[OF assms(1) i1, of "Receiving (Some x) st" sh sh]
      by (cases "end_session cf sh s1") (simp add: receive_step_def s1 Let_def flip: w_def)
  next
    case False
    have "\<exists>r x' s'. stream_receive w until (Some x) s2 = Some (r, Some x', s')"
    proof -
      have "receive_loop w until receive_fuel x s2 \<noteq> None"
        by (rule receive_loop_terminates[OF server_contractD(1)[OF c] i2 assms(3)]) (simp_all add: receive_fuel_def)
      then show ?thesis using assms(3) by (auto simp: stream_receive_def stream_ok_def)
    qed
    then obtain r x' s3 where s3: "stream_receive w until (Some x) s2 = Some (r, Some x', s3)" by blast
    have ok: "received_ok v x s2 r x' s3"
      using stream_receive_refines[OF server_contractD(1)[OF c] i2 assms(3) s3] by simp
    then have i3: "pw_flight v s3 = Idle" by (simp add: received_ok_def)
    show ?thesis
    proof (cases r)
      case (Inl e)
      obtain sh4 s4 where s4: "server_record cf e sh s3 = (sh4, s4)" by (metis surj_pair)
      note r4 = server_record_effect[OF assms(1) i3 s4]
      show ?thesis
        using step_ok_end_session[OF assms(1), of s4 "Receiving (Some x) st" sh4 sh] r4 False Inl
        by (cases "end_session cf sh4 s4")
          (simp add: receive_step_def s1 s2 s3 s4 Let_def flip: w_def until_def)
    next
      case (Inr payload)
      then have "stream_ok x'" using ok by (auto simp: received_ok_def)
      then show ?thesis
        using False Inr i3 assms(4)
        by (simp add: receive_step_def s1 s2 s3 step_ok_def Let_def flip: w_def until_def)
    qed
  qed
qed

lemma gated_effect:
  assumes "registry_ok (de_registry (cf_env cf))" and "store_ok (cf_env cf) (sh_identifiers sh) st"
  shows "\<exists>r sh' st'. gated cf payload sh st = Some (r, sh', st') \<and>
    store_ok (cf_env cf) (sh_identifiers sh') st' \<and> active sh' = active sh \<and>
    (\<forall>i. issued (sh_identifiers sh) i \<longrightarrow> issued (sh_identifiers sh') i) \<and>
    (\<forall>i \<in> keys st'. i \<in> keys st \<or> \<not> issued (sh_identifiers sh) i)"
proof (cases "\<exists>req. decode_request (de_utf8 (cf_env cf)) (cf_requests cf) payload = Inr req \<and> rq_id req \<noteq> 0")
  case False
  then show ?thesis
    using assms(2)
    by (cases "decode_request (de_utf8 (cf_env cf)) (cf_requests cf) payload")
      (auto simp: gated_def dispatcher_dispatch_def dispatcher_process_def)
next
  case True
  then obtain req where req: "decode_request (de_utf8 (cf_env cf)) (cf_requests cf) payload = Inr req" "rq_id req \<noteq> 0"
    by blast
  obtain r lg ids' st' where d: "dispatcher_dispatch (cf_env cf) (cf_diagnostics cf) (sh_identifiers sh) st req =
      Some (Inr \<lparr>rs_id = rq_id req, rs_body = r, rs_version = protocol_version\<rparr>, lg, ids', st')"
    and ex: "if rq_version req = protocol_version
      then execute (cf_env cf) (sh_identifiers sh) st (rq_body req) = Some (r, ids', st')
      else r = Remote_error (make_error EC_unsupported_version) \<and> ids' = sh_identifiers sh \<and> st' = st"
    by (rule dispatch_defined[OF assms req(2)])
  have "store_ok (cf_env cf) ids' st' \<and> (\<forall>i. issued (sh_identifiers sh) i \<longrightarrow> issued ids' i) \<and>
      (\<forall>i \<in> keys st'. i \<in> keys st \<or> \<not> issued (sh_identifiers sh) i)"
  proof (cases "rq_version req = protocol_version")
    case True
    have tr: "transition (cf_env cf) (sh_identifiers sh) st (rq_body req) r ids' st'"
      using execute_transition[OF assms] ex True by simp
    show ?thesis using transition_store_ok[OF tr assms] transition_issued[OF tr] transition_keys[OF tr] by blast
  next
    case False
    then show ?thesis using ex assms(2) by simp
  qed
  then show ?thesis using req(1) d by (simp add: gated_def)
qed

lemma respond_effect:
  assumes "server_contract (cf_os cf) v" and "pw_flight v s = Idle"
    and "respond cf until r ps sh s = (continue, ps', sh', s')"
  shows "pw_flight v s' = Idle \<and> sh_identifiers sh' = sh_identifiers sh \<and> active sh' = active sh \<and> (continue \<longrightarrow> ps' = ps)"
proof (cases "\<exists>res encoded. r = Inr res \<and> encode_response (de_utf8 (cf_env cf)) (cf_responses cf) res = Inr encoded")
  case False
  obtain sh1 s1 where s1: "server_record cf (plain_failure TK_protocol_violation) sh s = (sh1, s1)" by (metis surj_pair)
  have "(continue, ps', sh', s') = (False, ps, sh, s) \<or> (continue, ps', sh', s') = (False, ps, sh1, s1)"
    using False assms(3) by (auto simp: respond_def s1 split: sum.splits)
  then show ?thesis using server_record_effect[OF assms(1,2) s1] assms(2) by auto
next
  case True
  then obtain res encoded where e: "r = Inr res"
    "encode_response (de_utf8 (cf_env cf)) (cf_responses cf) res = Inr encoded" by blast
  obtain q ps1 s1 where s1: "stream_send (cf_os cf) encoded until ps s = (q, ps1, s1)" by (metis surj_pair)
  note sent = stream_send_correct[OF server_contractD(1)[OF assms(1)] assms(2) s1]
  show ?thesis
  proof (cases q)
    case (Inr n)
    then show ?thesis using sent assms(3) by (auto simp: respond_def e s1)
  next
    case (Inl f)
    obtain sh2 s2 where s2: "server_record cf f sh s1 = (sh2, s2)" by (metis surj_pair)
    show ?thesis
      using server_record_effect[OF assms(1) conjunct1[OF sent] s2] assms(3) by (auto simp: respond_def e s1 Inl s2)
  qed
qed

lemma gate_step_ok:
  assumes "server_contract (cf_os cf) v" and "registry_ok (de_registry (cf_env cf))" and "pw_flight v s = Idle"
    and "stream_ok x" and "store_ok (cf_env cf) (sh_identifiers sh) st"
  shows "\<exists>ph' sh' s'. gate_step cf (Some x) st payload until sh s = Some (ph', sh', s') \<and>
    step_ok cf v (Gating (Some x) st payload until) sh ph' sh' s'"
proof -
  define w where "w = cf_os cf"
  let ?ph = "Gating (Some x) st payload until"
  note c = assms(1)[folded w_def]
  obtain e1 s1 where s1: "preflight w until s = (e1, s1)" by (metis surj_pair)
  obtain locked s2 where s2: "w_try_lock w s1 = (locked, s2)" by (metis surj_pair)
  obtain e3 s3 where s3: "preflight w until s2 = (e3, s3)" by (metis surj_pair)
  note i1 = idle_after(3)[OF c assms(3) s1]
  note i2 = server_contractD(4)[OF c i1 s2]
  note i3 = idle_after(3)[OF c i2 s3]
  have abort: "\<exists>ph' sh' s'. (let (sh, s) = server_record cf e sh s0 in Some (end_session cf sh s)) = Some (ph', sh', s') \<and>
      step_ok cf v ?ph sh ph' sh' s'" if "pw_flight v s0 = Idle" for e s0
  proof -
    obtain sh4 s4 where s4: "server_record cf e sh s0 = (sh4, s4)" by (metis surj_pair)
    show ?thesis
      using step_ok_end_session[OF assms(1), of s4 ?ph sh4 sh] server_record_effect[OF assms(1) that s4]
      by (cases "end_session cf sh4 s4") (simp add: s4)
  qed
  obtain r sh4 st4 where g: "gated cf payload sh st = Some (r, sh4, st4)"
    and g4: "store_ok (cf_env cf) (sh_identifiers sh4) st4" "active sh4 = active sh"
      "\<forall>i. issued (sh_identifiers sh) i \<longrightarrow> issued (sh_identifiers sh4) i"
      "\<forall>i \<in> keys st4. i \<in> keys st \<or> \<not> issued (sh_identifiers sh) i"
    using gated_effect[OF assms(2,5), of payload] by blast
  obtain continue ps5 sh5 s5 where s5: "respond cf until r (Some x) sh4 s3 = (continue, ps5, sh5, s5)" by (metis surj_pair)
  note r5 = respond_effect[OF assms(1) i3 s5]
  have "\<exists>ph' sh' s'. (if continue then (Receiving ps5 st4, sh5, s5) else end_session cf sh5 s5) = (ph', sh', s') \<and>
      step_ok cf v ?ph sh ph' sh' s'"
  proof (cases continue)
    case True
    then show ?thesis using r5 g4 assms(4) by (simp add: step_ok_def)
  next
    case False
    obtain ph6 sh6 s6 where s6: "end_session cf sh5 s5 = (ph6, sh6, s6)" by (metis surj_pair)
    show ?thesis
      using end_session_effect[OF assms(1) conjunct1[OF r5] s6] r5 g4 False s6 by (simp add: step_ok_def store_ok_init)
  qed
  then have finish: "\<exists>ph' sh' s'. Some (if continue then (Receiving ps5 st4, sh5, s5) else end_session cf sh5 s5) =
      Some (ph', sh', s') \<and> step_ok cf v ?ph sh ph' sh' s'" by simp
  have waiting: "step_ok cf v ?ph sh ?ph sh s2" using i2 assms(4,5) by (simp add: step_ok_def)
  show ?thesis
    using abort[OF i1] abort[OF i3] finish waiting
    by (cases e1; cases e3) (simp_all add: gate_step_def s1 s2 s3 g s5 flip: w_def)
qed

lemma worker_step_ok:
  assumes "server_contract (cf_os cf) v" and "registry_ok (de_registry (cf_env cf))" and "pw_flight v s = Idle"
    and "phase_stream_ok ph" and "store_ok (cf_env cf) (sh_identifiers sh) (phase_store (sp_storage (cf_options cf)) ph)"
  shows "\<exists>ph' sh' s'. worker_step cf ph sh s = Some (ph', sh', s') \<and> step_ok cf v ph sh ph' sh' s'"
proof (cases ph)
  case Accepting
  then show ?thesis using accept_step_ok[OF assms(1,3)] by (metis surj_pair worker_step.simps(1))
next
  case (Receiving ps st)
  then show ?thesis using receive_step_ok[OF assms(1,3)] assms(4,5) by auto
next
  case (Gating ps st payload until)
  then show ?thesis using gate_step_ok[OF assms(1-3)] assms(4,5) by auto
next
  case Finished
  then show ?thesis using assms(3) by (simp add: step_ok_def store_ok_init)
qed

lemma serving_count_update:
  "i < length ws \<Longrightarrow> serving_count (ws[i := (ph', s')]) =
     serving_count ws + of_bool (serving ph') - of_bool (serving (fst (ws ! i)))"
proof (induction ws arbitrary: i)
  case (Cons x ws)
  then show ?case by (cases i) (simp_all add: algebra_simps)
qed simp

lemma server_step_ok:
  assumes "server_contract (cf_os cf) v" and "registry_ok (de_registry (cf_env cf))" and "server_ok cf v sv"
  shows "\<exists>sv'. server_step cf i sv = Some sv' \<and> server_ok cf v sv'"
proof (cases "i < length (sr_workers sv)")
  case True
  define limits where "limits = sp_storage (cf_options cf)"
  obtain ph s where w: "sr_workers sv ! i = (ph, s)" by (metis surj_pair)
  have "(ph, s) \<in> set (sr_workers sv)" using True w by (metis nth_mem)
  then have here: "pw_flight v s = Idle" "phase_stream_ok ph"
    using assms(3) by (auto simp: server_ok_def)
  have host: "host_ok (cf_env cf) (server_host limits sv)"
    using assms(3) by (simp add: server_ok_def limits_def)
  have k: "i < length (ho_sessions (server_host limits sv))" "ho_sessions (server_host limits sv) ! i = phase_store limits ph"
    using True w by (simp_all add: server_host_def)
  have "store_ok (cf_env cf) (sh_identifiers (sr_shared sv)) (phase_store limits ph)"
    using host_ok_session[OF host k(1)] k(2) by (simp add: server_host_def)
  then obtain ph' sh' s' where st: "worker_step cf ph (sr_shared sv) s = Some (ph', sh', s')"
    and ok: "step_ok cf v ph (sr_shared sv) ph' sh' s'"
    using worker_step_ok[OF assms(1,2) here] unfolding limits_def by blast
  define sv' where "sv' = \<lparr>sr_shared = sh', sr_workers = (sr_workers sv)[i := (ph', s')]\<rparr>"
  have "host_ok (cf_env cf) \<lparr>ho_ids = sh_identifiers sh', ho_sessions = (ho_sessions (server_host limits sv))[i := phase_store limits ph']\<rparr>"
    using ok k(2) by (intro host_ok_update[OF host k(1)]) (auto simp: step_ok_def limits_def server_host_def)
  moreover have "\<lparr>ho_ids = sh_identifiers sh', ho_sessions = (ho_sessions (server_host limits sv))[i := phase_store limits ph']\<rparr> =
      server_host limits sv'"
    by (simp add: server_host_def sv'_def map_update)
  moreover have "\<forall>(ph, s) \<in> set (sr_workers sv'). pw_flight v s = Idle \<and> phase_stream_ok ph"
    using assms(3) ok set_update_subset_insert[of "sr_workers sv" i "(ph', s')"]
    by (auto simp: sv'_def server_ok_def step_ok_def)
  moreover have "active sh' = serving_count ((sr_workers sv)[i := (ph', s')])"
    using assms(3) ok w by (simp add: serving_count_update[OF True] server_ok_def step_ok_def)
  ultimately have "server_ok cf v sv'"
    by (simp add: server_ok_def limits_def sv'_def)
  then show ?thesis using True w st by (simp add: server_step_def sv'_def)
qed (use assms in \<open>simp add: server_step_def\<close>)

lemma server_run_ok:
  assumes "server_contract (cf_os cf) v" and "registry_ok (de_registry (cf_env cf))" and "server_ok cf v sv"
  shows "\<exists>sv'. server_run cf schedule sv = Some sv' \<and> server_ok cf v sv'"
  using assms(3)
proof (induction schedule arbitrary: sv)
  case (Cons i schedule)
  obtain sv1 where "server_step cf i sv = Some sv1" "server_ok cf v sv1"
    using server_step_ok[OF assms(1,2) Cons.prems] by blast
  then show ?case using Cons.IH by simp
qed simp

lemma server_ok_init:
  assumes "\<forall>s \<in> set oss. pw_flight v s = Idle"
  shows "server_ok cf v (server_init oss)"
proof -
  have "phase_store limits (Accepting :: 'a phase) = session_store_init limits" for limits by simp
  then show ?thesis
    using assms
    by (auto simp: server_ok_def server_init_def server_host_def host_ok_def store_ok_init shared_init_def
        server_statistics_init_def comp_def sum_list_0)
qed

end
