(* ===== verification/Server_Properties.thy ===== *)
theory Server_Properties
  imports Pipe_Server
begin

section \<open>Properties of the server\<close>

text \<open>
  Properties of \<open>src/transport/windows/server.cpp\<close>: the invariant of every interleaving of its
  workers, what has to hold for a request to change the domain, and what \<open>start\<close> does with pipes
  and handles.
\<close>

subsection \<open>Starting\<close>

text \<open>
  What \<open>start\<close> relies on: the system records the arguments of every \<open>CreateNamedPipeW\<close> call, hands
  out only handles that are not open, and \<open>CloseHandle\<close> closes the one it is given.
\<close>

record 'k startup_view =
  sw_requests :: "'k \<Rightarrow> pipe_request list"
  sw_open :: "'k \<Rightarrow> handle set"

definition untouched :: "'k startup_view \<Rightarrow> 'k \<Rightarrow> 'k \<Rightarrow> bool" where
  "untouched v s s' \<longleftrightarrow> sw_requests v s' = sw_requests v s \<and> sw_open v s' = sw_open v s"

definition opens :: "'k startup_view \<Rightarrow> handle \<Rightarrow> 'k \<Rightarrow> 'k \<Rightarrow> bool" where
  "opens v h s s' \<longleftrightarrow> handle_valid \<lparr>uh_handle = h\<rparr> \<and> h \<notin> sw_open v s \<and> sw_open v s' = insert h (sw_open v s)"

definition startup_contract :: "'k win32 \<Rightarrow> 'k startup_view \<Rightarrow> bool" where
  "startup_contract w v \<longleftrightarrow>
     (\<forall>s done h s'. w_open_process_token w s = ((done, h), s') \<longrightarrow>
        (if done then opens v h s s' \<and> sw_requests v s' = sw_requests v s else untouched v s s')) \<and>
     (\<forall>h n s. untouched v s (snd (w_logon_sid w h n s))) \<and>
     (\<forall>sid s. untouched v s (snd (w_sid_to_string w sid s))) \<and>
     (\<forall>sddl s. untouched v s (snd (w_sddl_to_descriptor w sddl s))) \<and>
     (\<forall>request s h s'. w_create_named_pipe w request s = (h, s') \<longrightarrow>
        sw_requests v s' = sw_requests v s @ [request] \<and>
        (if handle_valid \<lparr>uh_handle = h\<rparr> then opens v h s s' else sw_open v s' = sw_open v s)) \<and>
     (\<forall>h s. sw_requests v (w_close_handle w h s) = sw_requests v s \<and> sw_open v (w_close_handle w h s) = sw_open v s - {h}) \<and>
     (\<forall>s. untouched v s (snd (w_start_thread w s))) \<and>
     (\<forall>s. untouched v s (w_request_stop w s))"

lemma startup_contractD:
  assumes "startup_contract w v"
  shows "w_open_process_token w s = ((done, h), s') \<Longrightarrow>
      if done then opens v h s s' \<and> sw_requests v s' = sw_requests v s else untouched v s s'"
    and "w_logon_sid w h n s = (r1, s') \<Longrightarrow> untouched v s s'"
    and "w_sid_to_string w sid s = (r2, s') \<Longrightarrow> untouched v s s'"
    and "w_sddl_to_descriptor w sddl s = (r3, s') \<Longrightarrow> untouched v s s'"
    and "w_create_named_pipe w request s = (h, s') \<Longrightarrow> sw_requests v s' = sw_requests v s @ [request] \<and>
        (if handle_valid \<lparr>uh_handle = h\<rparr> then opens v h s s' else sw_open v s' = sw_open v s)"
    and "sw_requests v (w_close_handle w h s) = sw_requests v s"
    and "sw_open v (w_close_handle w h s) = sw_open v s - {h}"
    and "w_start_thread w s = (r4, s') \<Longrightarrow> untouched v s s'" and "untouched v s (w_request_stop w s)"
proof -
  have u: "untouched v s (snd (w_logon_sid w h n s))" "untouched v s (snd (w_sid_to_string w sid s))"
    "untouched v s (snd (w_sddl_to_descriptor w sddl s))" "untouched v s (snd (w_start_thread w s))"
    using assms by (simp_all add: startup_contract_def)
  show "w_logon_sid w h n s = (r1, s') \<Longrightarrow> untouched v s s'" using u(1) by simp
  show "w_sid_to_string w sid s = (r2, s') \<Longrightarrow> untouched v s s'" using u(2) by simp
  show "w_sddl_to_descriptor w sddl s = (r3, s') \<Longrightarrow> untouched v s s'" using u(3) by simp
  show "w_start_thread w s = (r4, s') \<Longrightarrow> untouched v s s'" using u(4) by simp
qed (use assms in \<open>simp_all add: startup_contract_def\<close>)

lemma handle_destroy_view:
  assumes "startup_contract w v" and "handle_valid pipe"
  shows "sw_requests v (handle_destroy w pipe s) = sw_requests v s"
    and "sw_open v (handle_destroy w pipe s) = sw_open v s - {uh_handle pipe}"
  using assms startup_contractD(6,7)[OF assms(1)] by (simp_all add: handle_destroy_def handle_reset_def)

lemma logon_security_view:
  assumes "startup_contract w v" and "logon_security w s = (r, s')"
  shows "untouched v s s' \<and> (\<forall>d. r = Inr d \<longrightarrow> (\<exists>sid s1 s2. w_sddl_to_descriptor w (logon_sddl sid) s1 = (Some d, s2)))"
proof -
  obtain opened h s1 where s1: "w_open_process_token w s = ((opened, h), s1)" by (metis surj_pair)
  obtain queried groups s2 where s2: "w_logon_sid w h (token_groups_size + max_sid_size) s1 = ((queried, groups), s2)"
    by (metis surj_pair)
  obtain sid s3 where s3: "w_sid_to_string w (tg_sid groups) s2 = (sid, s3)" by (metis surj_pair)
  obtain d s4 where s4: "w_sddl_to_descriptor w (logon_sddl (the sid)) s3 = (d, s4)" by (metis surj_pair)
  note k = startup_contractD(1)[OF assms(1) s1] startup_contractD(2)[OF assms(1) s2]
    startup_contractD(3)[OF assms(1) s3] startup_contractD(4)[OF assms(1) s4]
  show ?thesis
  proof (cases opened)
    case False
    then show ?thesis using assms(2) k(1) by (auto simp: logon_security_def s1 Let_def)
  next
    case True
    then have h: "handle_valid \<lparr>uh_handle = h\<rparr>" "h \<notin> sw_open v s" "sw_open v s1 = insert h (sw_open v s)"
      "sw_requests v s1 = sw_requests v s"
      using k(1) by (simp_all add: opens_def)
    have closed: "untouched v s (handle_destroy w \<lparr>uh_handle = h\<rparr> x)" if "untouched v s1 x" for x
      using that h handle_destroy_view[OF assms(1) h(1)] by (auto simp: untouched_def)
    have views: "untouched v s1 s2" "untouched v s1 s3" "untouched v s1 s4"
      using k(2-4) by (simp_all add: untouched_def)
    have "s' \<in> handle_destroy w \<lparr>uh_handle = h\<rparr> ` {s2, s3, s4} \<and> (\<forall>x. r = Inr x \<longrightarrow> d = Some x)"
    proof (cases sid)
      case None
      then show ?thesis
        using assms(2) True by (auto simp: logon_security_def s1 s2 s3 Let_def split: if_splits)
    next
      case (Some raw)
      then show ?thesis
        using assms(2) True s4 by (auto simp: logon_security_def s1 s2 s3 Let_def split: if_splits option.splits)
    qed
    then show ?thesis using closed views s4 by blast
  qed
qed

lemma create_instances_view:
  assumes "startup_contract w v" and "create_instances w name slots security indices s = ((e, pipes), s')"
  shows "(\<forall>p \<in> set pipes. handle_valid p) \<and> distinct pipes \<and> uh_handle ` set pipes \<inter> sw_open v s = {} \<and>
    sw_open v s' = sw_open v s \<union> uh_handle ` set pipes \<and>
    (e = None \<longrightarrow> length pipes = length indices \<and>
      sw_requests v s' = sw_requests v s @ map (\<lambda>i. instance_request name slots (i = 0) security) indices)"
  using assms(2)
proof (induction indices arbitrary: s e pipes s')
  case (Cons i indices)
  obtain h s1 where s1: "w_create_named_pipe w (instance_request name slots (i = 0) security) s = (h, s1)" by (metis surj_pair)
  note c = startup_contractD(5)[OF assms(1) s1]
  show ?case
  proof (cases "handle_valid \<lparr>uh_handle = h\<rparr>")
    case False
    then show ?thesis using Cons.prems c by (auto simp: create_instance_def s1 Let_def)
  next
    case True
    obtain e2 pipes2 s2 where s2: "create_instances w name slots security indices s1 = ((e2, pipes2), s2)" by (metis surj_pair)
    have r: "e = e2" "pipes = \<lparr>uh_handle = h\<rparr> # pipes2" "s' = s2"
      using Cons.prems True by (auto simp: create_instance_def s1 s2 Let_def)
    have o: "h \<notin> sw_open v s" "sw_open v s1 = insert h (sw_open v s)"
      and q: "sw_requests v s1 = sw_requests v s @ [instance_request name slots (i = 0) security]"
      using c True by (simp_all add: opens_def)
    note IH = Cons.IH[OF s2, unfolded o(2) q]
    have "h \<notin> uh_handle ` set pipes2" using IH by blast
    moreover from this have "\<lparr>uh_handle = h\<rparr> \<notin> set pipes2" by force
    moreover have "uh_handle ` set pipes2 \<inter> sw_open v s = {}" using IH by blast
    ultimately show ?thesis
      using IH o(1) True by (simp add: r)
  qed
qed simp

lemma close_pipes_view:
  assumes "startup_contract w v" and "\<forall>p \<in> set pipes. handle_valid p"
  shows "sw_open v (close_pipes w pipes s) = sw_open v s - uh_handle ` set pipes"
  using assms(2)
proof (induction pipes arbitrary: s)
  case (Cons p pipes)
  then show ?case using handle_destroy_view(2)[OF assms(1)] by auto
qed simp

lemma server_stop_view:
  "startup_contract w v \<Longrightarrow> \<forall>p \<in> set pipes. handle_valid p \<Longrightarrow>
     sw_open v (server_stop w pipes s) = sw_open v s - uh_handle ` set pipes"
  using close_pipes_view startup_contractD(9) by (fastforce simp: server_stop_def untouched_def)

lemma start_workers_view: "startup_contract w v \<Longrightarrow> start_workers w pipes s = (e, s') \<Longrightarrow> untouched v s s'"
proof (induction pipes arbitrary: s)
  case (Cons p pipes)
  obtain c s1 where s1: "w_start_thread w s = (c, s1)" by (metis surj_pair)
  show ?case
    using Cons startup_contractD(8)[OF Cons.prems(1) s1] by (cases c) (auto simp: s1 untouched_def)
qed (simp add: untouched_def)

lemma server_start_view:
  assumes "startup_contract w v" and "server_start w options s = (r, s')"
  shows "case r of
      Inl e \<Rightarrow> sw_open v s' = sw_open v s
    | Inr pipes \<Rightarrow> valid_options options \<and> length pipes = sp_sessions options \<and> distinct pipes \<and>
        sw_open v s' = sw_open v s \<union> uh_handle ` set pipes \<and> uh_handle ` set pipes \<inter> sw_open v s = {} \<and>
        (\<exists>d sid s1 s2. w_sddl_to_descriptor w (logon_sddl sid) s1 = (Some d, s2) \<and>
          sw_requests v s' = sw_requests v s @
            map (\<lambda>i. instance_request (sp_endpoint options) (sp_sessions options) (i = 0) d) [0..<sp_sessions options])"
proof (cases "valid_options options")
  case False
  then show ?thesis using assms(2) by (auto simp: server_start_def)
next
  case valid: True
  obtain sec s1 where s1: "logon_security w s = (sec, s1)" by (metis surj_pair)
  note l = logon_security_view[OF assms(1) s1]
  show ?thesis
  proof (cases sec)
    case (Inl e)
    then have "r = Inl e" "s' = server_stop w [] s1"
      using assms(2) valid by (auto simp: server_start_def launch_def s1)
    then show ?thesis using l server_stop_view[OF assms(1), of "[]"] by (simp add: untouched_def)
  next
    case (Inr d)
    obtain e2 pipes s2 where s2: "create_instances w (sp_endpoint options) (sp_sessions options) d
        [0..<sp_sessions options] s1 = ((e2, pipes), s2)" by (metis surj_pair)
    note c = create_instances_view[OF assms(1) s2]
    have gone: "sw_open v (server_stop w pipes x) = sw_open v s" if "sw_open v x = sw_open v s2" for x
      using server_stop_view[OF assms(1), of pipes x] c l that by (auto simp: untouched_def)
    obtain code s3 where s3: "start_workers w pipes s2 = (code, s3)" by (metis surj_pair)
    note t = start_workers_view[OF assms(1) s3]
    consider (failed) x where "e2 = Some x" "r = Inl x" "s' = server_stop w pipes s2"
      | (threads) x where "e2 = None" "code = Some x" "s' = server_stop w [] (server_stop w pipes s3)" "\<exists>e. r = Inl e"
      | (started) "e2 = None" "code = None" "r = Inr pipes" "s' = s3"
      using assms(2) valid Inr by (cases e2; cases code) (auto simp: server_start_def launch_def s1 s2 s3)
    then show ?thesis
    proof cases
      case failed
      then show ?thesis using gone by simp
    next
      case threads
      then show ?thesis
        using gone[of s3] t server_stop_view[OF assms(1), of "[]"] by (auto simp: untouched_def)
    next
      case started
      obtain sid x y where "w_sddl_to_descriptor w (logon_sddl sid) x = (Some d, y)" using l Inr by blast
      then show ?thesis
        using started c t l valid by (auto simp: untouched_def)
    qed
  qed
qed

subsection \<open>When the domain changes\<close>

lemma server_record_identifiers: "sh_identifiers (fst (server_record cf e sh s)) = sh_identifiers sh"
  by (simp add: server_record_def Let_def case_prod_unfold)

lemma end_session_identifiers:
  "fst (end_session cf sh s) = Accepting \<and> sh_identifiers (fst (snd (end_session cf sh s))) = sh_identifiers sh"
  using server_record_identifiers[of cf] by (simp add: end_session_def Let_def case_prod_unfold)

lemma accept_step_identifiers: "sh_identifiers (fst (snd (accept_step cf sh s))) = sh_identifiers sh"
  using server_record_identifiers[of cf]
  by (auto simp: accept_step_def Let_def case_prod_unfold split: sum.splits)

lemma receive_step_identifiers:
  "receive_step cf ps st sh s = Some (ph', sh', s') \<Longrightarrow> sh_identifiers sh' = sh_identifiers sh \<and>
     (serving ph' \<longrightarrow> phase_store limits ph' = st)"
  using server_record_identifiers[of cf] end_session_identifiers[of cf]
  by (auto simp: receive_step_def Let_def case_prod_unfold split: if_splits option.splits sum.splits; metis fst_conv serving.simps(3) snd_conv)

lemma respond_identifiers: "sh_identifiers (fst (snd (snd (respond cf until r ps sh s)))) = sh_identifiers sh"
  by (auto simp: respond_def Let_def case_prod_unfold server_record_identifiers split: sum.splits)

lemma gate_step_changes:
  assumes "gate_step cf ps st payload until sh s = Some (ph', sh', s')"
    and "sh_identifiers sh' \<noteq> sh_identifiers sh \<or> serving ph' \<and> phase_store limits ph' \<noteq> st"
  shows "\<exists>s1 s2 s3. preflight (cf_os cf) until s = (None, s1) \<and> w_try_lock (cf_os cf) s1 = (True, s2) \<and>
    preflight (cf_os cf) until s2 = (None, s3) \<and>
    (\<exists>req. decode_request (de_utf8 (cf_env cf)) (cf_requests cf) payload = Inr req)"
proof -
  define w where "w = cf_os cf"
  obtain e1 s1 where s1: "preflight w until s = (e1, s1)" by (metis surj_pair)
  obtain locked s2 where s2: "w_try_lock w s1 = (locked, s2)" by (metis surj_pair)
  obtain e3 s3 where s3: "preflight w until s2 = (e3, s3)" by (metis surj_pair)
  have abort: "sh_identifiers sh' = sh_identifiers sh \<and> \<not> serving ph'"
    if "(let (sh, s) = server_record cf e sh s0 in Some (end_session cf sh s)) = Some (ph', sh', s')" for e s0
    using that server_record_identifiers[of cf e sh s0]
      end_session_identifiers[of cf "fst (server_record cf e sh s0)" "snd (server_record cf e sh s0)"]
    by (auto simp: case_prod_unfold Let_def)
  have e1: "e1 = None"
    using assms abort[of _ s1] by (cases e1) (auto simp: gate_step_def s1 Let_def simp flip: w_def)
  have locked: "locked"
    using assms by (cases locked) (auto simp: gate_step_def s1 s2 e1 Let_def simp flip: w_def)
  have e3: "e3 = None"
    using assms abort[of _ s3] locked by (cases e3) (auto simp: gate_step_def s1 s2 s3 e1 Let_def simp flip: w_def)
  have "\<exists>req. decode_request (de_utf8 (cf_env cf)) (cf_requests cf) payload = Inr req"
  proof (rule ccontr)
    assume "\<not> ?thesis"
    then obtain f where "decode_request (de_utf8 (cf_env cf)) (cf_requests cf) payload = Inl f"
      by (cases "decode_request (de_utf8 (cf_env cf)) (cf_requests cf) payload") auto
    then have g: "gated cf payload sh st = Some (dispatcher_reject f, count_protocol sh, st)"
      by (simp add: gated_def)
    obtain continue ps4 sh4 s4 where s4: "respond cf until (dispatcher_reject f) ps (count_protocol sh) s3 = (continue, ps4, sh4, s4)"
      by (metis surj_pair)
    have "sh_identifiers sh4 = sh_identifiers sh"
      using respond_identifiers[of cf until "dispatcher_reject f" ps "count_protocol sh" s3] s4 by simp
    then show False
      using assms locked end_session_identifiers[of cf sh4 s4]
      by (cases continue) (auto simp: gate_step_def s1 s2 s3 s4 e1 e3 g Let_def simp flip: w_def)
  qed
  then show ?thesis using s1 s2 s3 e1 e3 locked by (simp flip: w_def)
qed

subsection \<open>Properties\<close>

definition demo_options :: server_options where
  "demo_options = \<lparr>sp_endpoint = default_endpoint, sp_request_timeout = 5000, sp_sessions = 2, sp_storage = demo_limits\<rparr>"

definition demo_config :: "(builtin_object, loop_state) server_config" where
  "demo_config = \<lparr>cf_env = demo_env, cf_requests = echo_runtime (request_message demo_request),
     cf_responses = echo_runtime (response_message demo_response), cf_os = loop_os, cf_options = demo_options,
     cf_diagnostics = True\<rparr>"

lemma loop_server_contract: "server_contract loop_os loop_view"
  using loop_contract by (simp add: server_contract_def) (simp add: loop_os_def loop_view_def)

definition loop_startup :: "loop_state startup_view" where
  "loop_startup = \<lparr>sw_requests = lo_requests, sw_open = set \<circ> lo_open\<rparr>"

lemma loop_startup_contract: "startup_contract loop_os loop_startup"
  unfolding startup_contract_def
  by (auto simp: loop_os_def loop_startup_def loop_handle_def untouched_def opens_def handle_valid_def split: if_splits)



text \<open>
  Property C9. An expired or cancelled request never reaches the domain. A step of a worker that
  changes its session store or the identifier source is a dispatch of a well-formed request whose
  deadline and stop token were checked again after the gate had been acquired, with neither
  expired nor stopped.
\<close>

theorem mutation_needs_live_request:
  assumes "worker_step cf ph sh s = Some (ph', sh', s')"
    and "sh_identifiers sh' \<noteq> sh_identifiers sh \<or>
      serving ph \<and> serving ph' \<and> phase_store limits ph' \<noteq> phase_store limits ph"
  shows "\<exists>ps st payload until s1 s2 s3 req. ph = Gating ps st payload until \<and>
    preflight (cf_os cf) until s = (None, s1) \<and> w_try_lock (cf_os cf) s1 = (True, s2) \<and>
    preflight (cf_os cf) until s2 = (None, s3) \<and>
    decode_request (de_utf8 (cf_env cf)) (cf_requests cf) payload = Inr req"
proof (cases ph)
  case Accepting
  then have False using assms accept_step_identifiers[of cf sh s] by auto
  then show ?thesis ..
next
  case (Receiving ps st)
  then have False using assms receive_step_identifiers[of cf ps st sh s ph' sh' s' limits] by auto
  then show ?thesis ..
next
  case (Gating ps st payload until)
  then show ?thesis using gate_step_changes[of cf ps st payload until sh s ph' sh' s' limits] assms by auto
next
  case Finished
  then have False using assms by auto
  then show ?thesis ..
qed

theorem mutation_needs_live_request_witness:
  "\<exists>ph' sh' s' until s1 s2 s3 req. worker_step demo_config
      (Gating (Some fresh_stream) (session_store_init demo_limits) [1, 2] 100) shared_init (loop_start []) = Some (ph', sh', s') \<and>
    sh_identifiers sh' = 2 \<and> preflight loop_os until (loop_start []) = (None, s1) \<and> w_try_lock loop_os s1 = (True, s2) \<and>
    preflight loop_os until s2 = (None, s3) \<and>
    decode_request structurally_valid (echo_runtime (request_message demo_request)) [1, 2] = Inr req"
proof -
  have "map_option (\<lambda>(ph', sh', s'). sh_identifiers sh') (worker_step demo_config
      (Gating (Some fresh_stream) (session_store_init demo_limits) [1, 2] 100) shared_init (loop_start [])) = Some 2"
    by code_simp
  then obtain ph' sh' s' where r: "worker_step demo_config (Gating (Some fresh_stream) (session_store_init demo_limits) [1, 2] 100)
      shared_init (loop_start []) = Some (ph', sh', s')" "sh_identifiers sh' = 2" by auto
  have "sh_identifiers sh' \<noteq> sh_identifiers shared_init" using r(2) by (simp add: shared_init_def)
  from mutation_needs_live_request[OF r(1) disjI1[OF this]] show ?thesis
    using r by (auto simp: demo_config_def)
qed



text \<open>
  The header documents \<open>protocol_failures\<close> as counting terminal failures. It also counts every
  request that is rejected with an answer and whose session goes on.
\<close>

theorem recoverable_failure_counted:
  assumes "decode_request (de_utf8 (cf_env cf)) (cf_requests cf) payload = Inl f" and "\<not> fl_close_session f"
  shows "\<exists>res. gated cf payload sh st = Some (Inr res, count_protocol sh, st)"
proof -
  have "fl_request_id f \<noteq> None" "fl_request_id f \<noteq> Some 0"
    "fl_code f \<in> {FC_invalid_fields, FC_unsupported_version, FC_limit_exceeded}"
    using decode_failure_cases[OF assms(1)] assms(2) by blast+
  then show ?thesis using assms by (auto simp: gated_def dispatcher_reject_def Let_def)
qed

end
