(* ===== verification/Client.thy ===== *)
theory Client
  imports Dispatcher Pipe_Stream
begin

section \<open>The client connection\<close>

text \<open>
  Models \<open>src/client/client.cpp\<close>, \<open>include/pipeforge/client.hpp\<close> and \<open>src/client/windows_channel.cpp\<close>.

  A connection is driven by its owner (\<open>connect_async\<close>, \<open>call_async\<close>, \<open>close\<close>) and by three threads
  (\<open>write_loop\<close>, \<open>read_loop\<close>, \<open>monitor_loop\<close>). Every access to its state happens with \<open>mutex_\<close> held, so
  its life is a sequence of critical sections, and each of them is one function here. An event
  names the section that runs and carries what it learns from outside: the result of a channel
  operation, the time, and the answers of stop tokens. Where the code asks a token twice, both
  answers are given, because they may differ. The positions of the threads between sections
  are part of the state, so that an event whose thread is elsewhere is ignored.

  A future is the identifier of its call; the values set on promises are collected in order, in
  \<open>cx_opening\<close> for the connection and \<open>cx_resolved\<close> for calls, so that setting a promise twice would
  show up as a second entry. A \<open>shared_ptr\<close> to a pending call is the identifier of the call, which is
  never reused. The result \<^term>\<open>None\<close> of a step is the use of an entry that does not exist.
\<close>

definition max_pending_calls :: nat where
  "max_pending_calls = 16"

datatype client_failure_kind =
    CK_invalid_request | CK_not_connected | CK_quota_exceeded | CK_timeout | CK_cancelled | CK_disconnected
  | CK_access_denied | CK_protocol_violation | CK_transport_failure | CK_internal_failure

record client_failure =
  cl_kind :: client_failure_kind
  cl_native_error :: u32

type_synonym connect_result = "client_failure + unit"
type_synonym call_result = "client_failure + response"

abbreviation local_failure :: "client_failure_kind \<Rightarrow> client_failure" where
  "local_failure kind \<equiv> \<lparr>cl_kind = kind, cl_native_error = 0\<rparr>"

definition translate :: "transport_failure \<Rightarrow> client_failure" where
  "translate e =
     \<lparr>cl_kind = (case tf_kind e of
          TK_timeout \<Rightarrow> CK_timeout
        | TK_cancelled \<Rightarrow> CK_cancelled
        | TK_disconnected \<Rightarrow> CK_disconnected
        | TK_access_denied \<Rightarrow> CK_access_denied
        | TK_protocol_violation \<Rightarrow> CK_protocol_violation
        | TK_invalid_configuration \<Rightarrow> CK_invalid_request
        | _ \<Rightarrow> CK_transport_failure),
      cl_native_error = tf_native_error e\<rparr>"

subsection \<open>Matching a response with its request\<close>

text \<open>
  Equality of doubles on their bit patterns: a NaN equals nothing, and the two zeros are equal.
\<close>

definition is_nan :: "u64 \<Rightarrow> bool" where
  "is_nan bits \<longleftrightarrow> \<not> isfinite bits \<and> take_bit 52 bits \<noteq> 0"

definition double_eq :: "u64 \<Rightarrow> u64 \<Rightarrow> bool" where
  "double_eq a b \<longleftrightarrow> \<not> is_nan a \<and> \<not> is_nan b \<and> (a = b \<or> push_bit 1 a = 0 \<and> push_bit 1 b = 0)"

fun value_eq :: "value_t \<Rightarrow> value_t \<Rightarrow> bool" where
  "value_eq (Text a) (Text b) = (a = b)"
| "value_eq (Integer a) (Integer b) = (a = b)"
| "value_eq (Real a) (Real b) = double_eq a b"
| "value_eq _ _ = False"

fun matches :: "operation \<Rightarrow> outcome \<Rightarrow> bool" where
  "matches oper (Remote_error e) = True"
| "matches (List_classes after limit) r = (case r of Classes_page p \<Rightarrow> True | _ \<Rightarrow> False)"
| "matches (Describe_class name) r = (case r of Class_description d \<Rightarrow> cd_name d = name | _ \<Rightarrow> False)"
| "matches (Put_value v) r = (case r of Value_record x \<Rightarrow> value_eq (vr_data x) v | _ \<Rightarrow> False)"
| "matches (Get_value i) r = (case r of Value_record x \<Rightarrow> vr_id x = i | _ \<Rightarrow> False)"
| "matches (List_values after limit) r = (case r of Values_page p \<Rightarrow> True | _ \<Rightarrow> False)"
| "matches (Create_object name args) r = (case r of Object_snapshot x \<Rightarrow> os_class_name x = name | _ \<Rightarrow> False)"
| "matches (Get_object i) r = (case r of Object_snapshot x \<Rightarrow> os_id x = i | _ \<Rightarrow> False)"
| "matches (Release_object i) r = (case r of Released \<Rightarrow> True | _ \<Rightarrow> False)"
| "matches (Get_attribute i name) r = (case r of Value v \<Rightarrow> True | _ \<Rightarrow> False)"
| "matches (Invoke_method i name args) r = (case r of Value v \<Rightarrow> True | _ \<Rightarrow> False)"

subsection \<open>The state\<close>

datatype progress = Call_queued | Call_writing | Call_sent

record pending_call =
  pg_request :: request
  pg_encoded :: bytes
  pg_until :: deadline
  pg_progress :: progress

datatype writer = Writer_none | Writer_opening deadline | Writer_idle | Writer_sending u64 | Writer_done
datatype reader = Reader_none | Reader_waiting | Reader_head | Reader_receiving | Reader_done
datatype monitor = Monitor_none | Monitor_waiting | Monitor_running | Monitor_done
datatype channel_state = Channel_none | Channel_open | Channel_closed

record connection_state =
  cx_pending :: "(u64, pending_call) omap"
  cx_queued :: "u64 list"
  cx_next_id :: u64
  cx_started :: bool
  cx_connected :: bool
  cx_opening_done :: bool
  cx_closed :: bool
  cx_stop :: bool
  cx_channel :: channel_state
  cx_opening :: "connect_result list"
  cx_resolved :: "(u64 \<times> call_result) list"
  cx_log :: "log_line list"
  cx_writer :: writer
  cx_reader :: reader
  cx_monitor :: monitor

definition connection_init :: connection_state where
  "connection_init =
     \<lparr>cx_pending = [], cx_queued = [], cx_next_id = 1, cx_started = False, cx_connected = False,
      cx_opening_done = False, cx_closed = False, cx_stop = False, cx_channel = Channel_none, cx_opening = [],
      cx_resolved = [], cx_log = [], cx_writer = Writer_none, cx_reader = Reader_none, cx_monitor = Monitor_none\<rparr>"

text \<open>
  Setting the promise of a call.
\<close>

definition resolve :: "u64 \<Rightarrow> call_result \<Rightarrow> connection_state \<Rightarrow> connection_state" where
  "resolve i r cx = cx\<lparr>cx_resolved := cx_resolved cx @ [(i, r)]\<rparr>"

definition fail_locked ::
  "client_failure \<Rightarrow> u64 \<Rightarrow> client_failure \<Rightarrow> connection_state \<Rightarrow> connection_state" where
  "fail_locked common specific_id specific cx =
     (if cx_closed cx then cx
      else
        let cx = cx\<lparr>cx_closed := True, cx_stop := True\<rparr>;
            cx = (if cx_started cx \<and> \<not> cx_opening_done cx
                  then cx\<lparr>cx_opening := cx_opening cx @ [Inl common], cx_opening_done := True\<rparr> else cx)
        in cx\<lparr>cx_resolved := cx_resolved cx @
                map (\<lambda>(i, entry). (i, Inl (if i = specific_id then specific else common))) (cx_pending cx),
              cx_pending := [], cx_queued := []\<rparr>)"

abbreviation fail_all :: "client_failure \<Rightarrow> connection_state \<Rightarrow> connection_state" where
  "fail_all common cx \<equiv> fail_locked common 0 (local_failure CK_transport_failure) cx"

abbreviation expiry :: "bool \<Rightarrow> client_failure" where
  "expiry stopped \<equiv> local_failure (if stopped then CK_cancelled else CK_timeout)"

subsection \<open>The owner's operations\<close>

datatype 'r future = Ready 'r | Promised u64

text \<open>
  \<open>close\<close> fails what is pending, joins the threads, and closes the channel. The joins end when every
  thread has returned, which is when \<open>close_end\<close> runs.
\<close>

definition close_begin :: "connection_state \<Rightarrow> connection_state" where
  "close_begin cx = fail_all (local_failure CK_cancelled) cx"

definition joined :: "connection_state \<Rightarrow> bool" where
  "joined cx \<longleftrightarrow> cx_writer cx \<in> {Writer_none, Writer_done} \<and> cx_reader cx \<in> {Reader_none, Reader_done} \<and>
     cx_monitor cx \<in> {Monitor_none, Monitor_done}"

definition close_end :: "connection_state \<Rightarrow> connection_state" where
  "close_end cx = (if cx_channel cx = Channel_open then cx\<lparr>cx_channel := Channel_closed\<rparr> else cx)"

text \<open>
  \<open>usable\<close> says that an opener was given. When a thread cannot be created, \<open>threads\<close> is the error code
  and whether the writer, if it is among the threads that were created, opens a channel before
  \<open>close\<close> has joined it. The future of the connection attempt is \<open>Promised 0\<close>.
\<close>

definition connect_async ::
  "bool \<Rightarrow> wstring \<Rightarrow> deadline \<Rightarrow> bool \<Rightarrow> bool \<Rightarrow> int \<Rightarrow> (u32 \<times> bool) option \<Rightarrow> connection_state \<Rightarrow>
     connect_result future \<times> connection_state" where
  "connect_async usable endpoint until stopped stopped_again now threads cx =
     (if cx_started cx \<or> cx_closed cx \<or> \<not> usable \<or> \<not> valid_endpoint endpoint
      then (Ready (Inl (local_failure CK_invalid_request)), cx)
      else
        let cx = cx\<lparr>cx_started := True\<rparr> in
        if stopped \<or> now \<ge> until then (Promised 0, fail_all (expiry stopped_again) cx)
        else case threads of
          None \<Rightarrow> (Promised 0, cx\<lparr>cx_writer := Writer_opening until, cx_reader := Reader_waiting,
                    cx_monitor := Monitor_waiting\<rparr>)
        | Some (code, opened) \<Rightarrow>
            let cx = close_begin (fail_all \<lparr>cl_kind = CK_internal_failure, cl_native_error = code\<rparr> cx);
                cx = (if opened then cx\<lparr>cx_channel := Channel_open\<rparr> else cx)
            in (Promised 0, close_end cx))"

definition call_async ::
  "(string \<Rightarrow> bool) \<Rightarrow> pb_request protobuf \<Rightarrow> operation \<Rightarrow> deadline \<Rightarrow> bool \<Rightarrow> int \<Rightarrow> connection_state \<Rightarrow>
     call_result future \<times> connection_state" where
  "call_async utf8 rt oper until stopped now cx =
     (if \<not> cx_connected cx \<or> cx_closed cx then (Ready (Inl (local_failure CK_not_connected)), cx)
      else if stopped then (Ready (Inl (local_failure CK_cancelled)), cx)
      else if now \<ge> until then (Ready (Inl (local_failure CK_timeout)), cx)
      else if length (cx_pending cx) \<ge> max_pending_calls \<or> cx_next_id cx = max_u64
      then (Ready (Inl (local_failure CK_quota_exceeded)), cx)
      else
        let req = \<lparr>rq_id = cx_next_id cx, rq_body = oper, rq_version = protocol_version\<rparr> in
        case encode_request utf8 rt req of
          Inl _ \<Rightarrow> (Ready (Inl (local_failure CK_invalid_request)), cx)
        | Inr encoded \<Rightarrow>
            let entry = \<lparr>pg_request = req, pg_encoded = encoded, pg_until = until, pg_progress = Call_queued\<rparr> in
            (Promised (rq_id req),
             cx\<lparr>cx_next_id := cx_next_id cx + 1, cx_pending := om_emplace (rq_id req) entry (cx_pending cx),
                cx_queued := cx_queued cx @ [rq_id req]\<rparr>))"

subsection \<open>The writer\<close>

text \<open>
  What the writer opens: nothing once a stop was requested; the result is a failure or whether the
  opener returned a channel.
\<close>

definition open_channel :: "bool \<Rightarrow> bool transport_result \<Rightarrow> bool transport_result" where
  "open_channel stopped opened = (if stopped then Inl (plain_failure TK_cancelled) else opened)"

definition writer_opened :: "deadline \<Rightarrow> bool transport_result \<Rightarrow> int \<Rightarrow> connection_state \<Rightarrow> connection_state" where
  "writer_opened until opened now cx =
     (case opened of
        Inl e \<Rightarrow> (fail_all (translate e) cx)\<lparr>cx_writer := Writer_done\<rparr>
      | Inr present \<Rightarrow>
        let cx = cx\<lparr>cx_channel := (if present then Channel_open else Channel_none)\<rparr> in
        if cx_closed cx then cx\<lparr>cx_writer := Writer_done\<rparr>
        else if \<not> present then (fail_all (local_failure CK_internal_failure) cx)\<lparr>cx_writer := Writer_done\<rparr>
        else if cx_stop cx then (fail_all (local_failure CK_cancelled) cx)\<lparr>cx_writer := Writer_done\<rparr>
        else if now \<ge> until then (fail_all (local_failure CK_timeout) cx)\<lparr>cx_writer := Writer_done\<rparr>
        else cx\<lparr>cx_connected := True, cx_opening_done := True, cx_opening := cx_opening cx @ [Inr ()],
                cx_writer := Writer_idle\<rparr>)"

definition writer_take :: "bool \<Rightarrow> bool \<Rightarrow> int \<Rightarrow> connection_state \<Rightarrow> connection_state option" where
  "writer_take stopped stopped_again now cx =
     (if cx_closed cx then Some (cx\<lparr>cx_writer := Writer_done\<rparr>)
      else case cx_queued cx of
        [] \<Rightarrow> Some cx
      | i # rest \<Rightarrow>
        case om_find (cx_pending cx) i of
          None \<Rightarrow> None
        | Some entry \<Rightarrow>
          let cx = cx\<lparr>cx_queued := rest\<rparr> in
          if stopped \<or> now \<ge> pg_until entry
          then Some ((resolve i (Inl (expiry stopped_again)) cx)\<lparr>cx_pending := om_erase i (cx_pending cx)\<rparr>)
          else Some (cx\<lparr>cx_pending := om_assign i (entry\<lparr>pg_progress := Call_writing\<rparr>) (cx_pending cx),
                        cx_writer := Writer_sending i\<rparr>))"

definition writer_sent :: "u64 \<Rightarrow> nat transport_result \<Rightarrow> connection_state \<Rightarrow> connection_state" where
  "writer_sent i sent cx =
     (if cx_closed cx then cx\<lparr>cx_writer := Writer_done\<rparr>
      else case sent of
        Inl e \<Rightarrow> (fail_locked (local_failure CK_disconnected) i (translate e) cx)\<lparr>cx_writer := Writer_done\<rparr>
      | Inr _ \<Rightarrow>
        case om_find (cx_pending cx) i of
          None \<Rightarrow> cx\<lparr>cx_writer := Writer_idle\<rparr>
        | Some entry \<Rightarrow> cx\<lparr>cx_pending := om_assign i (entry\<lparr>pg_progress := Call_sent\<rparr>) (cx_pending cx),
                          cx_writer := Writer_idle\<rparr>)"

subsection \<open>The reader\<close>

definition response_log :: "u64 \<Rightarrow> log_line" where
  "response_log i = (Log_debug, ''client response id='' @ decimal (unat i))"

definition reader_got ::
  "(string \<Rightarrow> bool) \<Rightarrow> pb_response protobuf \<Rightarrow> bytes transport_result \<Rightarrow> bool \<Rightarrow> bool \<Rightarrow> int \<Rightarrow> connection_state \<Rightarrow>
     connection_state" where
  "reader_got utf8 rt payload stopped stopped_again now cx =
     (if cx_closed cx then cx\<lparr>cx_reader := Reader_done\<rparr>
      else case payload of
        Inl e \<Rightarrow> (fail_all (translate e) cx)\<lparr>cx_reader := Reader_done\<rparr>
      | Inr bs \<Rightarrow>
        case decode_response utf8 rt bs of
          Inl _ \<Rightarrow> (fail_all (local_failure CK_protocol_violation) cx)\<lparr>cx_reader := Reader_done\<rparr>
        | Inr res \<Rightarrow>
          case om_find (cx_pending cx) (rs_id res) of
            None \<Rightarrow> (fail_all (local_failure CK_protocol_violation) cx)\<lparr>cx_reader := Reader_done\<rparr>
          | Some entry \<Rightarrow>
            if pg_progress entry = Call_queued \<or> \<not> matches (rq_body (pg_request entry)) (rs_body res)
            then (fail_all (local_failure CK_protocol_violation) cx)\<lparr>cx_reader := Reader_done\<rparr>
            else if stopped \<or> now \<ge> pg_until entry
            then (fail_locked (local_failure CK_disconnected) (rs_id res) (expiry stopped_again) cx)
                   \<lparr>cx_reader := Reader_done\<rparr>
            else (resolve (rs_id res) (Inr res) cx)
                   \<lparr>cx_pending := om_erase (rs_id res) (cx_pending cx), cx_log := cx_log cx @ [response_log (rs_id res)],
                    cx_reader := Reader_head\<rparr>)"

subsection \<open>The monitor\<close>

text \<open>
  One pass over the pending calls in the order of their identifiers; \<open>stops\<close> are the answers of their
  stop tokens. The boolean says whether the monitor goes on.
\<close>

fun monitor_scan ::
  "(u64 \<Rightarrow> bool) \<Rightarrow> int \<Rightarrow> (u64 \<times> pending_call) list \<Rightarrow> connection_state \<Rightarrow> bool \<times> connection_state" where
  "monitor_scan stops now [] cx = (True, cx)"
| "monitor_scan stops now ((i, entry) # rest) cx =
     (if stops i \<or> now \<ge> pg_until entry then
        if pg_progress entry \<noteq> Call_queued
        then (False, fail_locked (local_failure CK_disconnected) i (expiry (stops i)) cx)
        else monitor_scan stops now rest
               ((resolve i (Inl (expiry (stops i))) cx)
                  \<lparr>cx_queued := removeAll i (cx_queued cx), cx_pending := om_erase i (cx_pending cx)\<rparr>)
      else monitor_scan stops now rest cx)"

definition monitor_tick :: "(u64 \<Rightarrow> bool) \<Rightarrow> int \<Rightarrow> connection_state \<Rightarrow> connection_state" where
  "monitor_tick stops now cx =
     (if cx_closed cx then cx\<lparr>cx_monitor := Monitor_done\<rparr>
      else let (continue, cx) = monitor_scan stops now (cx_pending cx) cx
           in if continue then cx else cx\<lparr>cx_monitor := Monitor_done\<rparr>)"

subsection \<open>Events\<close>

datatype client_event =
    Ev_connect bool wstring deadline bool bool int "(u32 \<times> bool) option"
  | Ev_call operation deadline bool int
  | Ev_close
  | Ev_joined
  | Ev_connect_stop
  | Ev_opened bool "bool transport_result" int
  | Ev_take bool bool int
  | Ev_sent "nat transport_result"
  | Ev_reader_start
  | Ev_reader_head
  | Ev_received "bytes transport_result" bool bool int
  | Ev_monitor_start
  | Ev_monitor_tick "u64 \<Rightarrow> bool" int

record client_config =
  cc_utf8 :: "string \<Rightarrow> bool"
  cc_requests :: "pb_request protobuf"
  cc_responses :: "pb_response protobuf"

fun client_step :: "client_config \<Rightarrow> client_event \<Rightarrow> connection_state \<Rightarrow> connection_state option" where
  "client_step cc (Ev_connect usable endpoint until s1 s2 now threads) cx =
     Some (snd (connect_async usable endpoint until s1 s2 now threads cx))"
| "client_step cc (Ev_call oper until stopped now) cx =
     Some (snd (call_async (cc_utf8 cc) (cc_requests cc) oper until stopped now cx))"
| "client_step cc Ev_close cx = Some (close_begin cx)"
| "client_step cc Ev_joined cx = Some (if cx_closed cx \<and> joined cx then close_end cx else cx)"
| "client_step cc Ev_connect_stop cx =
     Some (case cx_writer cx of Writer_opening until \<Rightarrow> cx\<lparr>cx_stop := True\<rparr> | _ \<Rightarrow> cx)"
| "client_step cc (Ev_opened stopped opened now) cx =
     Some (case cx_writer cx of Writer_opening until \<Rightarrow> writer_opened until (open_channel stopped opened) now cx | _ \<Rightarrow> cx)"
| "client_step cc (Ev_take s1 s2 now) cx = (if cx_writer cx = Writer_idle then writer_take s1 s2 now cx else Some cx)"
| "client_step cc (Ev_sent sent) cx =
     Some (case cx_writer cx of Writer_sending i \<Rightarrow> writer_sent i sent cx | _ \<Rightarrow> cx)"
| "client_step cc Ev_reader_start cx =
     Some (if cx_reader cx = Reader_waiting \<and> (cx_connected cx \<or> cx_closed cx)
           then cx\<lparr>cx_reader := (if cx_closed cx then Reader_done else Reader_head)\<rparr> else cx)"
| "client_step cc Ev_reader_head cx =
     Some (if cx_reader cx = Reader_head
           then cx\<lparr>cx_reader := (if cx_stop cx then Reader_done else Reader_receiving)\<rparr> else cx)"
| "client_step cc (Ev_received payload s1 s2 now) cx =
     Some (if cx_reader cx = Reader_receiving then reader_got (cc_utf8 cc) (cc_responses cc) payload s1 s2 now cx else cx)"
| "client_step cc Ev_monitor_start cx =
     Some (if cx_monitor cx = Monitor_waiting \<and> (cx_connected cx \<or> cx_closed cx)
           then cx\<lparr>cx_monitor := (if cx_closed cx then Monitor_done else Monitor_running)\<rparr> else cx)"
| "client_step cc (Ev_monitor_tick stops now) cx =
     Some (if cx_monitor cx = Monitor_running then monitor_tick stops now cx else cx)"

fun client_run :: "client_config \<Rightarrow> client_event list \<Rightarrow> connection_state \<Rightarrow> connection_state option" where
  "client_run cc [] cx = Some cx"
| "client_run cc (ev # evs) cx = (case client_step cc ev cx of None \<Rightarrow> None | Some cx \<Rightarrow> client_run cc evs cx)"

subsection \<open>The named-pipe channel\<close>

text \<open>
  \<open>pipe_channel\<close> forwards to the stream of theory \<open>Pipe_Stream\<close>, and \<open>named_pipe_connector\<close> opens one.
\<close>

definition pipe_channel_send :: "'k win32 \<Rightarrow> bytes \<Rightarrow> deadline \<Rightarrow> pipe_stream \<Rightarrow> 'k \<Rightarrow> nat transport_result \<times> pipe_stream \<times> 'k" where
  "pipe_channel_send w payload until ps s = stream_send w payload until ps s"

definition pipe_channel_receive :: "'k win32 \<Rightarrow> deadline \<Rightarrow> pipe_stream \<Rightarrow> 'k \<Rightarrow> (bytes transport_result \<times> pipe_stream \<times> 'k) option" where
  "pipe_channel_receive w until ps s = stream_receive w until ps s"

definition pipe_channel_close :: "pipe_stream \<Rightarrow> pipe_stream" where
  "pipe_channel_close ps = stream_close ps"

definition named_pipe_connector ::
  "'k win32 \<Rightarrow> nat \<Rightarrow> wstring \<Rightarrow> deadline \<Rightarrow> 'k \<Rightarrow> (pipe_stream transport_result \<times> 'k) option" where
  "named_pipe_connector w fuel endpoint until s =
     (case stream_connect w endpoint until fuel s of
        None \<Rightarrow> None
      | Some (Inl e, s) \<Rightarrow> Some (Inl e, s)
      | Some (Inr (pipe, st), s) \<Rightarrow> Some (Inr (Some st), s))"

end
