(* ===== verification/Client_Invariant.thy ===== *)
theory Client_Invariant
  imports Client
begin

section \<open>The invariant of a connection\<close>

text \<open>
  \<open>calls_ok\<close> is the invariant of the pending calls, their queue and their promises, \<open>life_ok\<close> the one of
  the connection's life cycle: the opening promise, the threads and the channel. Both hold
  initially and every event keeps them (\<open>client_step_ok\<close>), so they hold after every sequence of events.
\<close>

abbreviation known :: "(u64, pending_call) omap \<Rightarrow> u64 set" where
  "known m \<equiv> fst ` set m"

definition waiting :: "(u64, pending_call) omap \<Rightarrow> progress \<Rightarrow> u64 \<Rightarrow> bool" where
  "waiting m p i \<longleftrightarrow> (\<exists>e. om_find m i = Some e \<and> pg_progress e = p)"

definition calls_ok :: "connection_state \<Rightarrow> bool" where
  "calls_ok cx \<longleftrightarrow>
     om_ok (cx_pending cx) \<and> length (cx_pending cx) \<le> max_pending_calls \<and> cx_next_id cx \<noteq> 0 \<and>
     (\<forall>i e. om_find (cx_pending cx) i = Some e \<longrightarrow> rq_id (pg_request e) = i) \<and>
     distinct (cx_queued cx) \<and> set (cx_queued cx) = Collect (waiting (cx_pending cx) Call_queued) \<and>
     distinct (map fst (cx_resolved cx)) \<and> fst ` set (cx_resolved cx) \<inter> known (cx_pending cx) = {} \<and>
     fst ` set (cx_resolved cx) \<union> known (cx_pending cx) = {0 <..< cx_next_id cx} \<and>
     (cx_closed cx \<longrightarrow> cx_pending cx = []) \<and>
     (\<forall>i. waiting (cx_pending cx) Call_writing i \<longrightarrow> cx_writer cx = Writer_sending i) \<and>
     (\<forall>i. cx_writer cx = Writer_sending i \<longrightarrow> i < cx_next_id cx \<and> \<not> waiting (cx_pending cx) Call_queued i)"

lemma calls_okD:
  assumes "calls_ok cx"
  shows "om_ok (cx_pending cx)" "length (cx_pending cx) \<le> max_pending_calls" "cx_next_id cx \<noteq> 0"
    "om_find (cx_pending cx) i = Some e \<Longrightarrow> rq_id (pg_request e) = i"
    "distinct (cx_queued cx)" "set (cx_queued cx) = Collect (waiting (cx_pending cx) Call_queued)"
    "distinct (map fst (cx_resolved cx))" "fst ` set (cx_resolved cx) \<inter> known (cx_pending cx) = {}"
    "fst ` set (cx_resolved cx) \<union> known (cx_pending cx) = {0 <..< cx_next_id cx}"
    "cx_closed cx \<Longrightarrow> cx_pending cx = []"
    "waiting (cx_pending cx) Call_writing i \<Longrightarrow> cx_writer cx = Writer_sending i"
    "cx_writer cx = Writer_sending i \<Longrightarrow> i < cx_next_id cx \<and> \<not> waiting (cx_pending cx) Call_queued i"
  using assms by (simp_all add: calls_ok_def)

lemma waiting_erase: "waiting (om_erase i m) p j \<longleftrightarrow> j \<noteq> i \<and> waiting m p j"
  by (auto simp: waiting_def om_find_erase)

lemma waiting_Nil [simp]: "\<not> waiting [] p i"
  by (simp add: waiting_def om_find_def)

lemma waiting_assign:
  assumes "om_ok m" and "om_find m i = Some e"
  shows "waiting (om_assign i (e\<lparr>pg_progress := q\<rparr>) m) p j \<longleftrightarrow> (if j = i then p = q else waiting m p j)"
  using assms by (auto simp: waiting_def om_find_assign)

lemma waiting_emplace:
  assumes "om_ok m" and "om_find m i = None"
  shows "waiting (om_emplace i e m) p j \<longleftrightarrow> (if j = i then p = pg_progress e else waiting m p j)"
  using assms by (auto simp: waiting_def om_find_emplace)

text \<open>
  Settling a call: its promise is set, and it leaves the queue and the map.
\<close>

definition settle :: "u64 \<Rightarrow> call_result \<Rightarrow> connection_state \<Rightarrow> connection_state" where
  "settle i r cx =
     (resolve i r cx)\<lparr>cx_queued := removeAll i (cx_queued cx), cx_pending := om_erase i (cx_pending cx)\<rparr>"

lemma known_find: "om_ok m \<Longrightarrow> i \<in> known m \<longleftrightarrow> om_find m i \<noteq> None"
  using om.find_None_iff[of m i] by simp

lemma length_erase_le: "length (om_erase i m) \<le> length m"
  by (simp add: om_erase_def)

lemma calls_ok_settle:
  assumes "calls_ok cx" and "om_find (cx_pending cx) i \<noteq> None"
  shows "calls_ok (settle i r cx)"
proof -
  note c = calls_okD[OF assms(1)]
  have i: "i \<in> known (cx_pending cx)" using known_find[OF c(1)] assms(2) by simp
  have k: "known (om_erase i (cx_pending cx)) = known (cx_pending cx) - {i}" by (rule fst_set_erase)
  have new: "i \<notin> fst ` set (cx_resolved cx)" using c(8) i by blast
  have "length (om_erase i (cx_pending cx)) \<le> max_pending_calls" using length_erase_le c(2) by (rule order_trans)
  moreover have "set (removeAll i (cx_queued cx)) = Collect (waiting (om_erase i (cx_pending cx)) Call_queued)"
    using c(6) by (auto simp: waiting_erase)
  moreover have "\<forall>j e. om_find (om_erase i (cx_pending cx)) j = Some e \<longrightarrow> rq_id (pg_request e) = j"
    using c(4) by (simp add: om_find_erase)
  moreover have "distinct (removeAll i (cx_queued cx))" using c(5) by (simp add: distinct_removeAll)
  moreover have "distinct (map fst (cx_resolved cx @ [(i, r)]))" using c(7) new by simp
  moreover have "fst ` set (cx_resolved cx @ [(i, r)]) \<inter> known (om_erase i (cx_pending cx)) = {}"
    using c(8) by (auto simp: k)
  moreover have "fst ` set (cx_resolved cx @ [(i, r)]) \<union> known (om_erase i (cx_pending cx)) = {0 <..< cx_next_id cx}"
    using c(9) i unfolding k by auto
  moreover have "cx_closed cx \<longrightarrow> om_erase i (cx_pending cx) = []" using c(10) by (auto simp: om_erase_def)
  moreover have "\<forall>j. waiting (om_erase i (cx_pending cx)) Call_writing j \<longrightarrow> cx_writer cx = Writer_sending j"
    using c(11) by (simp add: waiting_erase)
  moreover have "\<forall>j. cx_writer cx = Writer_sending j \<longrightarrow> j < cx_next_id cx \<and> \<not> waiting (om_erase i (cx_pending cx)) Call_queued j"
    using c(12) by (simp add: waiting_erase)
  ultimately show ?thesis
    using om_ok_erase[OF c(1), of i] c(3) by (simp add: calls_ok_def settle_def resolve_def)
qed

lemma next_id_range:
  assumes "n \<noteq> (0 :: u64)" and "n \<noteq> max_u64"
  shows "n + 1 \<noteq> 0" and "{0 <..< n + 1} = insert n {0 <..< n}"
proof -
  show nz: "n + 1 \<noteq> 0"
    using assms(2) by (metis add.inverse_unique add.commute max_u64_minus minus_minus)
  then have "unat (n + 1) = Suc (unat n)" by (simp add: unatSuc add.commute)
  then have less: "i < n + 1 \<longleftrightarrow> i < n \<or> i = n" for i
    by (simp add: word_less_nat_alt less_Suc_eq word_unat_eq_iff)
  have "0 < n" using assms(1) by (simp add: word_neq_0_conv)
  then show "{0 <..< n + 1} = insert n {0 <..< n}" by (simp add: set_eq_iff less) blast
qed

lemma fail_locked_fields:
  assumes "\<not> cx_closed cx"
  shows "cx_pending (fail_locked common i specific cx) = []" "cx_queued (fail_locked common i specific cx) = []"
    "cx_next_id (fail_locked common i specific cx) = cx_next_id cx"
    "cx_writer (fail_locked common i specific cx) = cx_writer cx"
    "cx_resolved (fail_locked common i specific cx) =
       cx_resolved cx @ map (\<lambda>e. (fst e, Inl (if fst e = i then specific else common))) (cx_pending cx)"
  using assms by (simp_all add: fail_locked_def Let_def case_prod_unfold)

lemma calls_ok_fail:
  assumes "calls_ok cx"
  shows "calls_ok (fail_locked common i specific cx)"
proof (cases "cx_closed cx")
  case False
  note c = calls_okD[OF assms]
  have "map fst (cx_resolved (fail_locked common i specific cx)) = map fst (cx_resolved cx) @ map fst (cx_pending cx)"
    by (simp add: fail_locked_fields[OF False] comp_def)
  then have "distinct (map fst (cx_resolved (fail_locked common i specific cx)))"
    "fst ` set (cx_resolved (fail_locked common i specific cx)) = {0 <..< cx_next_id cx}"
    using c(7,8,9) om.distinct_keys[OF c(1)] by (simp_all flip: set_map)
  then show ?thesis
    using False c(3,12) by (simp add: calls_ok_def fail_locked_fields[OF False]) (simp add: om_find_def)
qed (use assms in \<open>simp add: fail_locked_def\<close>)

lemma fail_locked_closed: "cx_closed (fail_locked common i specific cx)"
  by (simp add: fail_locked_def Let_def)

text \<open>
  Fields the invariant of the calls does not depend on; a writer that leaves the channel is not sending.
\<close>

lemma calls_ok_cong:
  assumes "calls_ok cx" and "cx_pending cx' = cx_pending cx" and "cx_queued cx' = cx_queued cx"
    and "cx_next_id cx' = cx_next_id cx" and "cx_resolved cx' = cx_resolved cx"
    and "cx_closed cx' \<longrightarrow> cx_pending cx = []"
    and "cx_writer cx' = cx_writer cx \<or> (\<forall>i. cx_writer cx' \<noteq> Writer_sending i) \<and> (\<forall>i. \<not> waiting (cx_pending cx) Call_writing i)"
  shows "calls_ok cx'"
  using assms by (auto simp: calls_ok_def)

lemma not_sending:
  "calls_ok cx \<Longrightarrow> (\<And>i. cx_writer cx \<noteq> Writer_sending i) \<Longrightarrow> \<not> waiting (cx_pending cx) Call_writing j"
  using calls_okD(11) by blast

lemma closed_not_waiting: "calls_ok cx \<Longrightarrow> cx_closed cx \<Longrightarrow> \<not> waiting (cx_pending cx) p j"
  by (simp add: calls_ok_def)

lemma call_async_cases:
  obtains (refused) "snd (call_async utf8 rt oper until stopped now cx) = cx"
    | (admitted) e where "\<not> cx_closed cx" "length (cx_pending cx) < max_pending_calls" "cx_next_id cx \<noteq> max_u64"
      "rq_id (pg_request e) = cx_next_id cx" "pg_progress e = Call_queued"
      "snd (call_async utf8 rt oper until stopped now cx) =
        cx\<lparr>cx_next_id := cx_next_id cx + 1, cx_pending := om_emplace (cx_next_id cx) e (cx_pending cx),
           cx_queued := cx_queued cx @ [cx_next_id cx]\<rparr>"
proof (cases "encode_request utf8 rt \<lparr>rq_id = cx_next_id cx, rq_body = oper, rq_version = protocol_version\<rparr>")
  case (Inl f)
  then show thesis using refused by (simp add: call_async_def)
next
  case (Inr encoded)
  define e where "e = \<lparr>pg_request = \<lparr>rq_id = cx_next_id cx, rq_body = oper, rq_version = protocol_version\<rparr>,
    pg_encoded = encoded, pg_until = until, pg_progress = Call_queued\<rparr>"
  show thesis
  proof (cases "cx_connected cx \<and> \<not> cx_closed cx \<and> \<not> stopped \<and> now < until \<and>
      length (cx_pending cx) < max_pending_calls \<and> cx_next_id cx \<noteq> max_u64")
    case True
    then show thesis using admitted[of e] Inr by (simp add: call_async_def Let_def e_def)
  next
    case False
    then show thesis using refused by (auto simp: call_async_def)
  qed
qed

lemma calls_ok_call:
  assumes "calls_ok cx"
  shows "calls_ok (snd (call_async utf8 rt oper until stopped now cx))"
proof (rule call_async_cases[of utf8 rt oper until stopped now cx])
  assume "snd (call_async utf8 rt oper until stopped now cx) = cx"
  then show ?thesis using assms by simp
next
  fix e
  define i where "i = cx_next_id cx"
  assume t0: "\<not> cx_closed cx" "length (cx_pending cx) < max_pending_calls" "cx_next_id cx \<noteq> max_u64"
    "rq_id (pg_request e) = cx_next_id cx" "pg_progress e = Call_queued"
    "snd (call_async utf8 rt oper until stopped now cx) =
        cx\<lparr>cx_next_id := cx_next_id cx + 1, cx_pending := om_emplace (cx_next_id cx) e (cx_pending cx),
           cx_queued := cx_queued cx @ [cx_next_id cx]\<rparr>"
  note t = t0(1-3) i_def t0(4-6)[folded i_def]
  note c = calls_okD[OF assms]
  have range: "i + 1 \<noteq> 0" "{0 <..< i + 1} = insert i {0 <..< i}"
    using next_id_range[of i] c(3) t by simp_all
  have fresh: "i \<notin> known (cx_pending cx)" "i \<notin> fst ` set (cx_resolved cx)" using c(9) t(4) by auto
  then have none: "om_find (cx_pending cx) i = None" using known_find[OF c(1)] by blast
  note w = waiting_emplace[OF c(1) none]
  have "length (om_emplace i e (cx_pending cx)) \<le> max_pending_calls"
    using om.length_emplace[OF c(1) none, of e] t(2) by simp
  moreover have "set (cx_queued cx @ [i]) = Collect (waiting (om_emplace i e (cx_pending cx)) Call_queued)"
    using c(6) t(6) by (auto simp: w)
  moreover have "distinct (cx_queued cx @ [i])"
    using c(5,6) none by (auto simp: waiting_def)
  moreover have "\<forall>j x. om_find (om_emplace i e (cx_pending cx)) j = Some x \<longrightarrow> rq_id (pg_request x) = j"
    using c(4) t(5) by (simp add: om_find_emplace[OF c(1)])
  moreover have "fst ` set (cx_resolved cx) \<inter> known (om_emplace i e (cx_pending cx)) = {}"
    using c(8) fresh by (simp add: fst_set_emplace)
  moreover have "fst ` set (cx_resolved cx) \<union> known (om_emplace i e (cx_pending cx)) = {0 <..< i + 1}"
    unfolding range(2) using c(9) t(4) by (simp add: fst_set_emplace)
  moreover have "\<forall>j. waiting (om_emplace i e (cx_pending cx)) Call_writing j \<longrightarrow> cx_writer cx = Writer_sending j"
    using c(11) t(6) by (simp add: w)
  moreover have "\<forall>j. cx_writer cx = Writer_sending j \<longrightarrow> j < i + 1 \<and> \<not> waiting (om_emplace i e (cx_pending cx)) Call_queued j"
  proof (intro allI impI)
    fix j assume "cx_writer cx = Writer_sending j"
    then have j: "j < i" "\<not> waiting (cx_pending cx) Call_queued j" using c(12) t(4) by simp_all
    moreover have "j < i + 1"
    proof (cases "j = 0")
      case True
      then show ?thesis using range(1) by (simp add: word_neq_0_conv)
    next
      case False
      then have "j \<in> {0 <..< i}" using j by (simp add: word_neq_0_conv)
      then show ?thesis using range(2) by auto
    qed
    ultimately show "j < i + 1 \<and> \<not> waiting (om_emplace i e (cx_pending cx)) Call_queued j" by (auto simp: w)
  qed
  ultimately show ?thesis
    using om_ok_emplace[OF c(1)] c(7) t range by (simp add: calls_ok_def)
qed

lemma calls_ok_connect:
  assumes "calls_ok cx" and "cx_started cx \<or> cx_writer cx = Writer_none"
  shows "calls_ok (snd (connect_async usable endpoint until s1 s2 now threads cx))"
proof (cases "cx_started cx \<or> cx_closed cx \<or> \<not> usable \<or> \<not> valid_endpoint endpoint")
  case False
  then have idle: "cx_writer cx = Writer_none" using assms(2) by simp
  have started: "calls_ok (cx\<lparr>cx_started := True\<rparr>)"
    using assms(1) by (rule calls_ok_cong) (use False in simp_all)
  have launched: "calls_ok (cx\<lparr>cx_started := True, cx_writer := Writer_opening until, cx_reader := Reader_waiting,
      cx_monitor := Monitor_waiting\<rparr>)"
    using assms(1) by (rule calls_ok_cong) (use False not_sending[OF assms(1)] idle in simp_all)
  have channel: "calls_ok (close_end (cx'\<lparr>cx_channel := ch\<rparr>))" "calls_ok (close_end cx')" if "calls_ok cx'" for cx' ch
    using that by (auto simp: close_end_def intro!: calls_ok_cong[OF that] calls_okD(10))
  show ?thesis
    using False started launched calls_ok_fail[OF started] channel[OF calls_ok_fail[OF calls_ok_fail[OF started]]]
    by (simp add: connect_async_def close_begin_def Let_def split: option.splits)
qed (use assms in \<open>simp add: connect_async_def\<close>)

lemma calls_ok_writer_opened:
  assumes "calls_ok cx" and "cx_writer cx = Writer_opening until"
  shows "calls_ok (writer_opened until opened now cx)"
proof -
  have idle: "\<not> waiting (cx_pending cx) Call_writing j" for j using not_sending[OF assms(1)] assms(2) by simp
  have set_writer: "calls_ok (cx'\<lparr>cx_writer := Writer_done\<rparr>)" if "calls_ok cx'" "cx_writer cx' = Writer_opening until" for cx'
    using that(1) by (rule calls_ok_cong) (use that not_sending[OF that(1)] calls_okD(10)[OF that(1)] in simp_all)
  have fail: "calls_ok ((fail_locked a b c cx')\<lparr>cx_writer := Writer_done\<rparr>)" if "calls_ok cx'" "cx_writer cx' = Writer_opening until" for a b c cx'
  proof (rule set_writer)
    show "cx_writer (fail_locked a b c cx') = Writer_opening until"
      using that(2) fail_locked_fields(4)[of cx' a b c] by (cases "cx_closed cx'") (simp_all add: fail_locked_def)
  qed (rule calls_ok_fail[OF that(1)])
  define cx1 where "cx1 = cx\<lparr>cx_channel := (if opened = Inr True then Channel_open else Channel_none)\<rparr>"
  have c1: "calls_ok cx1" unfolding cx1_def using assms(1)
    by (rule calls_ok_cong) (use calls_okD(10)[OF assms(1)] in simp_all)
  have w1: "cx_writer cx1 = Writer_opening until" using assms(2) by (simp add: cx1_def)
  have conn: "calls_ok (cx1\<lparr>cx_connected := True, cx_opening_done := True, cx_opening := cx_opening cx1 @ [Inr ()],
      cx_writer := Writer_idle\<rparr>)" if "\<not> cx_closed cx1"
    using c1 by (rule calls_ok_cong) (use that not_sending[OF c1] w1 in simp_all)
  show ?thesis
  proof (cases opened)
    case (Inl e)
    then show ?thesis using fail[OF assms] by (simp add: writer_opened_def)
  next
    case (Inr present)
    then have "cx\<lparr>cx_channel := (if present then Channel_open else Channel_none)\<rparr> = cx1" by (simp add: cx1_def)
    then show ?thesis
      using set_writer[OF c1 w1] fail[OF c1 w1] conn by (simp add: writer_opened_def Inr Let_def)
  qed
qed

lemma om_assign_known: "known (om_assign i e m) = known m"
  by (rule fst_set_assign)

lemma calls_ok_progress:
  assumes "calls_ok cx" and "om_find (cx_pending cx) i = Some e" and "q \<noteq> Call_queued"
    and "cx_queued cx' = removeAll i (cx_queued cx)"
    and "cx_pending cx' = om_assign i (e\<lparr>pg_progress := q\<rparr>) (cx_pending cx)"
    and "cx_next_id cx' = cx_next_id cx" and "cx_resolved cx' = cx_resolved cx" and "\<not> cx_closed cx'"
    and "if q = Call_writing then cx_writer cx' = Writer_sending i else cx_writer cx' = Writer_idle"
    and "\<And>j. j \<noteq> i \<Longrightarrow> \<not> waiting (cx_pending cx) Call_writing j"
  shows "calls_ok cx'"
proof -
  note c = calls_okD[OF assms(1)]
  note w = waiting_assign[OF c(1) assms(2), of q]
  have "i \<in> {0 <..< cx_next_id cx}" using c(9) known_find[OF c(1), of i] assms(2) by blast
  then have i: "i < cx_next_id cx" by simp
  have "length (cx_pending cx') \<le> max_pending_calls" using c(2) by (simp add: assms(5) om_assign_def)
  moreover have "set (cx_queued cx') = Collect (waiting (cx_pending cx') Call_queued)"
    using c(6) assms(3) by (auto simp: assms(4,5) w split: if_splits)
  moreover have "distinct (cx_queued cx')" using c(5) by (simp add: assms(4) distinct_removeAll)
  moreover have "\<forall>j x. om_find (cx_pending cx') j = Some x \<longrightarrow> rq_id (pg_request x) = j"
    using c(4) assms(2) by (auto simp: assms(5) om_find_assign)
  moreover have "\<forall>j. waiting (cx_pending cx') Call_writing j \<longrightarrow> cx_writer cx' = Writer_sending j"
    using assms(9,10) by (auto simp: assms(5) w split: if_splits)
  moreover have "\<forall>j. cx_writer cx' = Writer_sending j \<longrightarrow> j < cx_next_id cx' \<and> \<not> waiting (cx_pending cx') Call_queued j"
    using assms(3,9) i by (auto simp: assms(5,6) w split: if_splits)
  ultimately show ?thesis
    using om_ok_assign[OF c(1)] c(3,7,8,9) assms(5-8) by (simp add: calls_ok_def om_assign_known)
qed

lemma calls_ok_writer_take:
  assumes "calls_ok cx" and "cx_writer cx = Writer_idle"
  shows "\<exists>cx'. writer_take s1 s2 now cx = Some cx' \<and> calls_ok cx'"
proof (cases "cx_closed cx \<or> cx_queued cx = []")
  case True
  have "calls_ok (cx\<lparr>cx_writer := Writer_done\<rparr>)"
    using assms(1) by (rule calls_ok_cong) (use not_sending[OF assms(1)] assms(2) calls_okD(10)[OF assms(1)] in simp_all)
  then show ?thesis using True assms(1) by (auto simp: writer_take_def)
next
  case False
  then obtain i rest where q: "cx_queued cx = i # rest" by (cases "cx_queued cx") auto
  note c = calls_okD[OF assms(1)]
  have "waiting (cx_pending cx) Call_queued i" using c(6) q by auto
  then obtain e where e: "om_find (cx_pending cx) i = Some e" by (auto simp: waiting_def)
  have rest: "removeAll i (cx_queued cx) = rest" using c(5) q by simp
  have "calls_ok (settle i r cx)" for r using calls_ok_settle[OF assms(1)] e by simp
  moreover have "settle i r cx = (resolve i r (cx\<lparr>cx_queued := rest\<rparr>))\<lparr>cx_pending := om_erase i (cx_pending cx)\<rparr>" for r
    by (simp add: settle_def resolve_def rest)
  moreover have "calls_ok (cx\<lparr>cx_queued := rest, cx_pending := om_assign i (e\<lparr>pg_progress := Call_writing\<rparr>) (cx_pending cx),
      cx_writer := Writer_sending i\<rparr>)"
    by (rule calls_ok_progress[OF assms(1) e, of Call_writing]) (use False rest not_sending[OF assms(1)] assms(2) in simp_all)
  ultimately show ?thesis
    using False q e by (auto simp: writer_take_def Let_def)
qed

lemma calls_ok_done:
  assumes "calls_ok cx" and "cx_closed cx"
  shows "calls_ok (cx\<lparr>cx_writer := Writer_done\<rparr>)" and "calls_ok (cx\<lparr>cx_reader := r\<rparr>)" and "calls_ok (cx\<lparr>cx_monitor := m\<rparr>)"
  using calls_okD(10)[OF assms] closed_not_waiting[OF assms]
  by (auto intro!: calls_ok_cong[OF assms(1)])

lemma calls_ok_writer_sent:
  assumes "calls_ok cx" and "cx_writer cx = Writer_sending i"
  shows "calls_ok (writer_sent i sent cx)"
proof (cases "cx_closed cx")
  case True
  then show ?thesis using calls_ok_done[OF assms(1)] by (simp add: writer_sent_def)
next
  case False
  note c = calls_okD[OF assms(1)]
  have other: "\<not> waiting (cx_pending cx) Call_writing j" if "j \<noteq> i" for j using c(11)[of j] assms(2) that by auto
  show ?thesis
  proof (cases sent)
    case (Inl e)
    then show ?thesis
      using False calls_ok_done(1)[OF calls_ok_fail[OF assms(1)] fail_locked_closed] by (simp add: writer_sent_def)
  next
    case (Inr n)
    show ?thesis
    proof (cases "om_find (cx_pending cx) i")
      case None
      then have "\<not> waiting (cx_pending cx) Call_writing i" by (simp add: waiting_def)
      then have "\<not> waiting (cx_pending cx) Call_writing j" for j using other[of j] by (cases "j = i") simp_all
      then show ?thesis
        using False Inr None
        by (auto simp: writer_sent_def intro!: calls_ok_cong[OF assms(1)])
    next
      case (Some e)
      then have "i \<notin> set (cx_queued cx)" using c(6,12) assms(2) by simp
      then show ?thesis
        using False Inr Some other
        by (auto simp: writer_sent_def intro!: calls_ok_progress[OF assms(1) Some, of Call_sent])
    qed
  qed
qed

lemma calls_ok_reader_got:
  assumes "calls_ok cx"
  shows "calls_ok (reader_got utf8 rt payload s1 s2 now cx)"
proof (cases "cx_closed cx")
  case True
  then show ?thesis using calls_ok_done[OF assms] by (simp add: reader_got_def)
next
  case opened: False
  have fail: "calls_ok ((fail_locked a b c cx)\<lparr>cx_reader := r\<rparr>)" for a b c r
    by (rule calls_ok_done(2)[OF calls_ok_fail[OF assms] fail_locked_closed])
  have deliver: "calls_ok ((resolve i r cx)\<lparr>cx_pending := om_erase i (cx_pending cx), cx_log := l, cx_reader := p\<rparr>)"
    if "om_find (cx_pending cx) i = Some e" "pg_progress e \<noteq> Call_queued" for i e r l p
  proof -
    have "i \<notin> set (cx_queued cx)" using calls_okD(6)[OF assms] that by (auto simp: waiting_def)
    then have "settle i r cx = (resolve i r cx)\<lparr>cx_pending := om_erase i (cx_pending cx)\<rparr>"
      by (simp add: settle_def resolve_def removeAll_id)
    then have "calls_ok ((resolve i r cx)\<lparr>cx_pending := om_erase i (cx_pending cx)\<rparr>)"
      using calls_ok_settle[OF assms, of i r] that by simp
    then show ?thesis
      by (rule calls_ok_cong) (use opened in \<open>simp_all add: resolve_def\<close>)
  qed
  show ?thesis
    using opened fail deliver
    by (auto simp: reader_got_def split: sum.splits option.splits)
qed

lemma calls_ok_monitor_scan:
  assumes "calls_ok cx" and "\<not> cx_closed cx" and "distinct (map fst es)" and "set es \<subseteq> set (cx_pending cx)"
  shows "calls_ok (snd (monitor_scan stops now es cx)) \<and>
    (if fst (monitor_scan stops now es cx) then \<not> cx_closed (snd (monitor_scan stops now es cx))
     else cx_closed (snd (monitor_scan stops now es cx)))"
  using assms
proof (induction stops now es cx rule: monitor_scan.induct)
  case (2 stops now i entry rest cx)
  have ok: "om_ok (cx_pending cx)" by (rule calls_okD(1)[OF "2.prems"(1)])
  have find: "om_find (cx_pending cx) i = Some entry"
    using "2.prems"(4) om.find_Some_iff[OF ok, of i entry] by simp
  have rest: "distinct (map fst rest)" "set rest \<subseteq> set (cx_pending cx)" using "2.prems"(3,4) by auto
  consider (later) "\<not> (stops i \<or> now \<ge> pg_until entry)"
    | (fatal) "stops i \<or> now \<ge> pg_until entry" "pg_progress entry \<noteq> Call_queued"
    | (local) "stops i \<or> now \<ge> pg_until entry" "\<not> pg_progress entry \<noteq> Call_queued" by blast
  then show ?case
  proof cases
    case later
    then show ?thesis using "2.IH"(2)[OF later "2.prems"(1,2) rest] by simp
  next
    case fatal
    then show ?thesis using calls_ok_fail[OF "2.prems"(1)] fail_locked_closed by simp
  next
    case local
    define cx2 where "cx2 = settle i (Inl (expiry (stops i))) cx"
    have "calls_ok cx2" using calls_ok_settle[OF "2.prems"(1)] find by (simp add: cx2_def)
    moreover have "\<not> cx_closed cx2" using "2.prems"(2) by (simp add: cx2_def settle_def resolve_def)
    moreover have "set rest \<subseteq> set (cx_pending cx2)"
      using "2.prems"(3,4) by (force simp: cx2_def settle_def om_erase_def)
    ultimately show ?thesis
      using "2.IH"(1)[OF local, folded settle_def, folded cx2_def] rest(1) local by (simp flip: settle_def cx2_def)
  qed
qed simp

lemma calls_ok_monitor_tick:
  assumes "calls_ok cx"
  shows "calls_ok (monitor_tick stops now cx)"
proof (cases "cx_closed cx")
  case True
  then show ?thesis using calls_ok_done[OF assms] by (simp add: monitor_tick_def)
next
  case False
  have d: "distinct (map fst (cx_pending cx))" by (rule om.distinct_keys[OF calls_okD(1)[OF assms]])
  obtain b cx' where r: "monitor_scan stops now (cx_pending cx) cx = (b, cx')" by (metis surj_pair)
  then show ?thesis
    using calls_ok_monitor_scan[OF assms False d, of stops now] calls_ok_done(3)[of cx'] False
    by (auto simp: monitor_tick_def)
qed

subsection \<open>The life cycle\<close>

definition threads_ended :: "writer \<Rightarrow> reader \<Rightarrow> monitor \<Rightarrow> bool" where
  "threads_ended w r m \<longleftrightarrow> w \<in> {Writer_none, Writer_done} \<and> r \<in> {Reader_none, Reader_done} \<and> m \<in> {Monitor_none, Monitor_done}"

definition uses_channel :: "writer \<Rightarrow> reader \<Rightarrow> bool" where
  "uses_channel w r \<longleftrightarrow> w = Writer_idle \<or> (\<exists>i. w = Writer_sending i) \<or> r = Reader_head \<or> r = Reader_receiving"

definition opening_ok :: "bool \<Rightarrow> connect_result list \<Rightarrow> bool \<Rightarrow> bool \<Rightarrow> bool \<Rightarrow> bool \<Rightarrow> bool" where
  "opening_ok done opened started connected closed stop \<longleftrightarrow>
     (done \<longleftrightarrow> opened \<noteq> []) \<and> length opened \<le> 1 \<and> (\<not> started \<longrightarrow> \<not> done) \<and>
     (started \<longrightarrow> (done \<longleftrightarrow> connected \<or> closed)) \<and> (connected \<longrightarrow> started) \<and> (closed \<longrightarrow> stop)"

definition threads_ok :: "bool \<Rightarrow> bool \<Rightarrow> bool \<Rightarrow> channel_state \<Rightarrow> writer \<Rightarrow> reader \<Rightarrow> monitor \<Rightarrow> bool" where
  "threads_ok started connected closed ch w r m \<longleftrightarrow>
     (\<not> started \<longrightarrow> w = Writer_none \<and> r = Reader_none \<and> m = Monitor_none \<and> ch = Channel_none) \<and>
     (uses_channel w r \<longrightarrow> connected \<and> ch = Channel_open) \<and>
     (\<forall>until. w = Writer_opening until \<longrightarrow> \<not> connected \<and> ch = Channel_none) \<and>
     (connected \<longrightarrow> ch \<noteq> Channel_none) \<and> (w = Writer_done \<longrightarrow> closed) \<and> (ch = Channel_closed \<longrightarrow> closed \<and> threads_ended w r m)"

definition life_ok :: "connection_state \<Rightarrow> bool" where
  "life_ok cx \<longleftrightarrow>
     opening_ok (cx_opening_done cx) (cx_opening cx) (cx_started cx) (cx_connected cx) (cx_closed cx) (cx_stop cx) \<and>
     threads_ok (cx_started cx) (cx_connected cx) (cx_closed cx) (cx_channel cx) (cx_writer cx) (cx_reader cx) (cx_monitor cx)"

lemma life_ok_init: "life_ok connection_init"
  by (simp add: life_ok_def connection_init_def opening_ok_def threads_ok_def uses_channel_def)

lemma calls_ok_init: "calls_ok connection_init"
  by (simp add: calls_ok_def connection_init_def fun_eq_iff) (auto simp: om_find_def word_less_1 word_gt_0)

lemma fail_locked_life [simp]:
  "cx_started (fail_locked a b c cx) = cx_started cx" "cx_connected (fail_locked a b c cx) = cx_connected cx"
  "cx_channel (fail_locked a b c cx) = cx_channel cx" "cx_writer (fail_locked a b c cx) = cx_writer cx"
  "cx_reader (fail_locked a b c cx) = cx_reader cx" "cx_monitor (fail_locked a b c cx) = cx_monitor cx"
  "cx_closed (fail_locked a b c cx)"
  by (simp_all add: fail_locked_def Let_def)

lemma threads_ok_closed: "threads_ok s c cl ch w r m \<Longrightarrow> threads_ok s c True ch w r m"
  by (auto simp: threads_ok_def)

lemma threads_ok_writer: "threads_ok s c True ch w r m \<Longrightarrow> s \<Longrightarrow> threads_ok s c True ch Writer_done r m"
  by (auto simp: threads_ok_def threads_ended_def uses_channel_def)

lemma threads_ok_reader: "threads_ok s c cl ch w r m \<Longrightarrow> s \<Longrightarrow> threads_ok s c cl ch w Reader_done m"
  by (auto simp: threads_ok_def threads_ended_def uses_channel_def)

lemma threads_ok_monitor: "threads_ok s c cl ch w r m \<Longrightarrow> s \<Longrightarrow> threads_ok s c cl ch w r Monitor_done"
  by (auto simp: threads_ok_def threads_ended_def uses_channel_def)

lemma opening_ok_fail:
  assumes "life_ok cx"
  shows "opening_ok (cx_opening_done (fail_locked a b c cx)) (cx_opening (fail_locked a b c cx)) (cx_started cx)
    (cx_connected cx) True (cx_stop (fail_locked a b c cx))"
proof (cases "cx_closed cx")
  case True
  then show ?thesis using assms by (simp add: life_ok_def fail_locked_def)
next
  case False
  then show ?thesis
    using assms
    by (cases "cx_started cx"; cases "cx_opening_done cx")
      (simp_all add: life_ok_def opening_ok_def fail_locked_def Let_def)
qed

lemma life_ok_fail: "life_ok cx \<Longrightarrow> life_ok (fail_locked a b c cx)"
  using opening_ok_fail[of cx a b c] threads_ok_closed by (fastforce simp: life_ok_def)

lemma life_ok_ends:
  assumes "life_ok cx"
  shows "cx_closed cx \<Longrightarrow> cx_started cx \<Longrightarrow> life_ok (cx\<lparr>cx_writer := Writer_done\<rparr>)"
    and "cx_started cx \<Longrightarrow> life_ok (cx\<lparr>cx_reader := Reader_done\<rparr>)"
    and "cx_started cx \<Longrightarrow> life_ok (cx\<lparr>cx_monitor := Monitor_done\<rparr>)"
  using assms threads_ok_writer threads_ok_reader threads_ok_monitor by (auto simp: life_ok_def)

lemma life_started:
  assumes "life_ok cx"
  shows "cx_writer cx \<noteq> Writer_none \<Longrightarrow> cx_started cx" and "cx_reader cx \<noteq> Reader_none \<Longrightarrow> cx_started cx"
    and "cx_monitor cx \<noteq> Monitor_none \<Longrightarrow> cx_started cx"
  using assms by (auto simp: life_ok_def threads_ok_def)

lemma life_ok_connect:
  assumes "life_ok cx"
  shows "life_ok (snd (connect_async usable endpoint until s1 s2 now threads cx))"
proof (cases "cx_started cx \<or> cx_closed cx \<or> \<not> usable \<or> \<not> valid_endpoint endpoint")
  case False
  then have idle: "cx_connected cx = False" "cx_writer cx = Writer_none" "cx_reader cx = Reader_none" "cx_monitor cx = Monitor_none"
    "cx_opening_done cx = False" "cx_opening cx = []"
    using assms by (auto simp: life_ok_def opening_ok_def threads_ok_def)
  have th: "threads_ok False False False (cx_channel cx) Writer_none Reader_none Monitor_none"
    using assms False idle by (simp add: life_ok_def)
  have started: "life_ok (cx\<lparr>cx_started := True\<rparr>)"
    using False idle th by (simp add: life_ok_def opening_ok_def threads_ok_def)
  have launched: "life_ok (cx\<lparr>cx_started := True, cx_writer := Writer_opening until, cx_reader := Reader_waiting,
      cx_monitor := Monitor_waiting\<rparr>)"
    using False idle th by (simp add: life_ok_def opening_ok_def threads_ok_def uses_channel_def)
  have channel: "life_ok (close_end (cx'\<lparr>cx_channel := Channel_open\<rparr>))" "life_ok (close_end cx')"
    if "life_ok cx'" "cx_closed cx'" "cx_started cx'" "cx_writer cx' = Writer_none" "cx_reader cx' = Reader_none" "cx_monitor cx' = Monitor_none" for cx'
    using that by (auto simp: close_end_def life_ok_def threads_ok_def threads_ended_def uses_channel_def)
  show ?thesis
    using False launched life_ok_fail[OF started] channel[OF life_ok_fail[OF life_ok_fail[OF started]]] idle
    by (simp add: connect_async_def close_begin_def Let_def split: option.splits)
qed (use assms in \<open>simp add: connect_async_def\<close>)

lemma life_ok_writer_opened:
  assumes "life_ok cx" and "cx_writer cx = Writer_opening until"
  shows "life_ok (writer_opened until opened now cx)"
proof (cases opened)
  case (Inl e)
  have "cx_started cx" using life_started(1)[OF assms(1)] assms(2) by simp
  then show ?thesis
    using Inl life_ok_ends(1)[OF life_ok_fail[OF assms(1)]] by (simp add: writer_opened_def)
next
  case (Inr present)
  define cx1 where "cx1 = cx\<lparr>cx_channel := (if present then Channel_open else Channel_none), cx_writer := Writer_done\<rparr>"
  have st: "cx_started cx" using life_started(1)[OF assms(1)] assms(2) by simp
  have th: "\<not> uses_channel (cx_writer cx) (cx_reader cx)" "cx_connected cx = False"
    using assms by (auto simp: life_ok_def threads_ok_def)
  have reader: "\<not> uses_channel Writer_done (cx_reader cx)" using th(1) by (simp add: uses_channel_def)
  have op: "opening_ok (cx_opening_done cx) (cx_opening cx) True False (cx_closed cx) (cx_stop cx)"
    using assms(1) st th by (simp add: life_ok_def)
  have tdone: "threads_ok True False True ch Writer_done (cx_reader cx) (cx_monitor cx)" if "ch \<noteq> Channel_closed" for ch
    using that reader by (simp add: threads_ok_def)
  have ended: "life_ok cx'" if "cx_closed cx'" "cx_writer cx' = Writer_done" "cx_started cx'" "\<not> cx_connected cx'" "cx_channel cx' \<noteq> Channel_closed"
    "cx_reader cx' = cx_reader cx" "cx_monitor cx' = cx_monitor cx"
    "opening_ok (cx_opening_done cx') (cx_opening cx') True False True (cx_stop cx')" for cx'
    using that tdone[of "cx_channel cx'"] by (simp add: life_ok_def)
  have opf: "opening_ok (cx_opening_done (fail_locked a b c (cx\<lparr>cx_channel := ch\<rparr>))) (cx_opening (fail_locked a b c (cx\<lparr>cx_channel := ch\<rparr>)))
      True False True (cx_stop (fail_locked a b c (cx\<lparr>cx_channel := ch\<rparr>)))" for a b c ch
    using op by (cases "cx_closed cx"; cases "cx_opening_done cx")
      (simp_all add: opening_ok_def fail_locked_def Let_def st)
  have failed: "life_ok ((fail_locked a b c (cx\<lparr>cx_channel := ch\<rparr>))\<lparr>cx_writer := Writer_done\<rparr>)" if "ch \<noteq> Channel_closed" for a b c ch
    by (rule ended) (use st th that opf in simp_all)
  have closed: "life_ok (cx\<lparr>cx_channel := ch, cx_writer := Writer_done\<rparr>)" if "ch \<noteq> Channel_closed" "cx_closed cx" for ch
    by (rule ended) (use st th that op in simp_all)
  have connected: "life_ok (cx\<lparr>cx_channel := Channel_open, cx_connected := True, cx_opening_done := True,
      cx_opening := cx_opening cx @ [Inr ()], cx_writer := Writer_idle\<rparr>)" if "\<not> cx_closed cx"
    using op that st by (auto simp: life_ok_def opening_ok_def threads_ok_def)
  show ?thesis
    using failed closed connected by (cases present) (simp_all add: writer_opened_def Inr Let_def)
qed

lemma life_ok_cong:
  assumes "life_ok cx" and "cx_opening_done cx' = cx_opening_done cx" "cx_opening cx' = cx_opening cx"
    "cx_started cx' = cx_started cx" "cx_connected cx' = cx_connected cx" "cx_closed cx' = cx_closed cx"
    "cx_closed cx' \<longrightarrow> cx_stop cx'" "cx_channel cx' = cx_channel cx"
    "threads_ok (cx_started cx) (cx_connected cx) (cx_closed cx) (cx_channel cx) (cx_writer cx') (cx_reader cx') (cx_monitor cx')"
  shows "life_ok cx'"
  using assms unfolding life_ok_def opening_ok_def by simp blast

lemma life_okD:
  assumes "life_ok cx"
  shows "cx_closed cx \<longrightarrow> cx_stop cx"
    "threads_ok (cx_started cx) (cx_connected cx) (cx_closed cx) (cx_channel cx) (cx_writer cx) (cx_reader cx) (cx_monitor cx)"
  using assms by (auto simp: life_ok_def opening_ok_def)

lemma life_ok_call:
  assumes "life_ok cx"
  shows "life_ok (snd (call_async utf8 rt oper until stopped now cx))"
proof (rule call_async_cases[of utf8 rt oper until stopped now cx])
  assume "snd (call_async utf8 rt oper until stopped now cx) = cx"
  then show ?thesis using assms by simp
next
  fix e
  assume "snd (call_async utf8 rt oper until stopped now cx) =
        cx\<lparr>cx_next_id := cx_next_id cx + 1, cx_pending := om_emplace (cx_next_id cx) e (cx_pending cx),
           cx_queued := cx_queued cx @ [cx_next_id cx]\<rparr>"
  then show ?thesis using life_okD[OF assms] by (auto intro!: life_ok_cong[OF assms])
qed

lemma threads_ok_sending: "threads_ok s c cl ch Writer_idle r m \<Longrightarrow> threads_ok s c cl ch (Writer_sending i) r m"
  "threads_ok s c cl ch (Writer_sending i) r m \<Longrightarrow> threads_ok s c cl ch Writer_idle r m"
  by (auto simp: threads_ok_def uses_channel_def threads_ended_def)

lemma life_ok_writer_take:
  assumes "life_ok cx" and "cx_writer cx = Writer_idle" and "writer_take s1 s2 now cx = Some cx'"
  shows "life_ok cx'"
proof -
  note l = life_okD[OF assms(1)]
  have th: "threads_ok (cx_started cx) (cx_connected cx) (cx_closed cx) (cx_channel cx) (Writer_sending i) (cx_reader cx) (cx_monitor cx)" for i
    using l(2) assms(2) threads_ok_sending(1) by simp
  have "cx_started cx" using life_started(1)[OF assms(1)] assms(2) by simp
  then show ?thesis
    using assms(3) life_ok_ends(1)[OF assms(1)] assms(1) th l assms(2)
    by (auto simp: writer_take_def Let_def resolve_def split: if_splits list.splits option.splits intro!: life_ok_cong[OF assms(1)])
qed

lemma life_ok_writer_sent:
  assumes "life_ok cx" and "cx_writer cx = Writer_sending i"
  shows "life_ok (writer_sent i sent cx)"
proof -
  note l = life_okD[OF assms(1)]
  have th: "threads_ok (cx_started cx) (cx_connected cx) (cx_closed cx) (cx_channel cx) Writer_idle (cx_reader cx) (cx_monitor cx)"
    using l(2) assms(2) threads_ok_sending(2) by simp
  have "cx_started cx" using life_started(1)[OF assms(1)] assms(2) by simp
  then show ?thesis
    using life_ok_ends(1)[OF assms(1)] life_ok_ends(1)[OF life_ok_fail[OF assms(1)]] th l
    by (auto simp: writer_sent_def split: sum.splits option.splits intro!: life_ok_cong[OF assms(1)])
qed

lemma life_ok_reader_got:
  assumes "life_ok cx" and "cx_reader cx = Reader_receiving"
  shows "life_ok (reader_got utf8 rt payload s1 s2 now cx)"
proof -
  note l = life_okD[OF assms(1)]
  have th: "threads_ok (cx_started cx) (cx_connected cx) (cx_closed cx) (cx_channel cx) (cx_writer cx) Reader_head (cx_monitor cx)"
    using l(2) assms(2) by (auto simp: threads_ok_def uses_channel_def threads_ended_def)
  have "cx_started cx" using life_started(2)[OF assms(1)] assms(2) by simp
  then show ?thesis
    using life_ok_ends(2)[OF assms(1)] life_ok_ends(2)[OF life_ok_fail[OF assms(1)]] th l
    by (auto simp: reader_got_def resolve_def split: sum.splits option.splits intro!: life_ok_cong[OF assms(1)])
qed

lemma life_ok_monitor_scan: "life_ok cx \<Longrightarrow> life_ok (snd (monitor_scan stops now es cx))"
proof (induction stops now es cx rule: monitor_scan.induct)
  case (2 stops now i entry rest cx)
  have "life_ok ((resolve i (Inl (expiry (stops i))) cx)
      \<lparr>cx_queued := removeAll i (cx_queued cx), cx_pending := om_erase i (cx_pending cx)\<rparr>)"
    by (rule life_ok_cong[OF "2.prems"]) (use life_okD[OF "2.prems"] in \<open>simp_all add: resolve_def\<close>)
  then show ?case using 2 life_ok_fail[OF "2.prems"] by (cases "stops i \<or> pg_until entry \<le> now"; cases "pg_progress entry = Call_queued") simp_all
qed simp

lemma monitor_scan_fixed:
  "cx_started (snd (monitor_scan stops now es cx)) = cx_started cx"
proof (induction stops now es cx rule: monitor_scan.induct)
  case (2 stops now i entry rest cx)
  then show ?case
    by (cases "stops i \<or> pg_until entry \<le> now"; cases "pg_progress entry = Call_queued") (simp_all add: resolve_def)
qed simp

lemma life_ok_monitor_tick:
  assumes "life_ok cx" and "cx_monitor cx = Monitor_running"
  shows "life_ok (monitor_tick stops now cx)"
proof -
  have "cx_started cx" using life_started(3)[OF assms(1)] assms(2) by simp
  then show ?thesis
    using life_ok_ends(3)[OF assms(1)] life_ok_monitor_scan[OF assms(1), of stops now "cx_pending cx"]
      life_ok_ends(3)[OF life_ok_monitor_scan[OF assms(1), of stops now "cx_pending cx"]]
    by (auto simp: monitor_tick_def monitor_scan_fixed case_prod_unfold Let_def)
qed

subsection \<open>Every event keeps the invariant\<close>

definition client_ok :: "connection_state \<Rightarrow> bool" where
  "client_ok cx \<longleftrightarrow> calls_ok cx \<and> life_ok cx"

lemma client_step_ok:
  assumes "client_ok cx"
  shows "\<exists>cx'. client_step cc ev cx = Some cx' \<and> client_ok cx'"
proof -
  have c: "calls_ok cx" and l: "life_ok cx" using assms by (simp_all add: client_ok_def)
  note th = life_okD[OF l]
  have set_only: "client_ok cx'" if "cx_pending cx' = cx_pending cx" "cx_queued cx' = cx_queued cx" "cx_next_id cx' = cx_next_id cx"
    "cx_resolved cx' = cx_resolved cx" "cx_closed cx' = cx_closed cx" "cx_writer cx' = cx_writer cx" "life_ok cx'" for cx'
    using that calls_ok_cong[OF c, of cx'] calls_okD(10)[OF c] by (simp add: client_ok_def)
  show ?thesis
  proof (cases ev)
    case (Ev_connect usable endpoint until s1 s2 now threads)
    have "cx_started cx \<or> cx_writer cx = Writer_none" using th(2) by (auto simp: threads_ok_def)
    then show ?thesis using calls_ok_connect[OF c] life_ok_connect[OF l] Ev_connect by (simp add: client_ok_def)
  next
    case (Ev_call oper until stopped now)
    then show ?thesis using calls_ok_call[OF c] life_ok_call[OF l] by (simp add: client_ok_def)
  next
    case Ev_close
    then show ?thesis using calls_ok_fail[OF c] life_ok_fail[OF l] by (simp add: client_ok_def close_begin_def)
  next
    case Ev_joined
    have "life_ok (close_end cx)" if "cx_closed cx" "joined cx"
    proof -
      have "threads_ended (cx_writer cx) (cx_reader cx) (cx_monitor cx)" using that(2) by (simp add: joined_def threads_ended_def)
      moreover from this have "\<not> uses_channel (cx_writer cx) (cx_reader cx)" "\<And>u. cx_writer cx \<noteq> Writer_opening u"
        by (auto simp: threads_ended_def uses_channel_def)
      ultimately show ?thesis using l that(1) by (auto simp: close_end_def life_ok_def threads_ok_def)
    qed
    then have "client_ok (close_end cx)" if "cx_closed cx" "joined cx"
      by (intro set_only) (use that in \<open>auto simp: close_end_def\<close>)
    then show ?thesis using Ev_joined assms by simp
  next
    case Ev_connect_stop
    have "client_ok (cx\<lparr>cx_stop := True\<rparr>)"
      by (rule set_only) (use l in \<open>auto simp: life_ok_def opening_ok_def\<close>)
    then show ?thesis using Ev_connect_stop assms by (simp split: writer.splits)
  next
    case (Ev_opened stopped opened now)
    then show ?thesis
      using calls_ok_writer_opened[OF c] life_ok_writer_opened[OF l] assms
      by (simp add: client_ok_def split: writer.splits)
  next
    case (Ev_take s1 s2 now)
    then show ?thesis
      using calls_ok_writer_take[OF c, of s1 s2 now] life_ok_writer_take[OF l, of s1 s2 now] assms
      by (auto simp: client_ok_def)
  next
    case (Ev_sent sent)
    then show ?thesis
      using calls_ok_writer_sent[OF c] life_ok_writer_sent[OF l] assms by (simp add: client_ok_def split: writer.splits)
  next
    case Ev_reader_start
    have "client_ok (cx\<lparr>cx_reader := (if cx_closed cx then Reader_done else Reader_head)\<rparr>)"
      if "cx_reader cx = Reader_waiting" "cx_connected cx \<or> cx_closed cx"
    proof -
      have "threads_ok (cx_started cx) (cx_connected cx) (cx_closed cx) (cx_channel cx) (cx_writer cx)
          (if cx_closed cx then Reader_done else Reader_head) (cx_monitor cx)"
        using th(2) that
        by (cases "cx_channel cx") (auto simp: threads_ok_def uses_channel_def threads_ended_def)
      then show ?thesis using th(1) by (intro set_only life_ok_cong[OF l]) simp_all
    qed
    then show ?thesis using Ev_reader_start assms by simp
  next
    case Ev_reader_head
    have "client_ok (cx\<lparr>cx_reader := (if cx_stop cx then Reader_done else Reader_receiving)\<rparr>)"
      if "cx_reader cx = Reader_head"
    proof -
      have "threads_ok (cx_started cx) (cx_connected cx) (cx_closed cx) (cx_channel cx) (cx_writer cx)
          (if cx_stop cx then Reader_done else Reader_receiving) (cx_monitor cx)"
        using th(2) that by (auto simp: threads_ok_def uses_channel_def threads_ended_def)
      then show ?thesis using th(1) by (intro set_only life_ok_cong[OF l]) simp_all
    qed
    then show ?thesis using Ev_reader_head assms by simp
  next
    case (Ev_received payload s1 s2 now)
    then show ?thesis
      using calls_ok_reader_got[OF c] life_ok_reader_got[OF l] assms by (simp add: client_ok_def)
  next
    case Ev_monitor_start
    have "client_ok (cx\<lparr>cx_monitor := (if cx_closed cx then Monitor_done else Monitor_running)\<rparr>)"
      if "cx_monitor cx = Monitor_waiting"
    proof -
      have "threads_ok (cx_started cx) (cx_connected cx) (cx_closed cx) (cx_channel cx) (cx_writer cx)
          (cx_reader cx) (if cx_closed cx then Monitor_done else Monitor_running)"
        using th(2) that by (auto simp: threads_ok_def threads_ended_def)
      then show ?thesis using th(1) by (intro set_only life_ok_cong[OF l]) simp_all
    qed
    then show ?thesis using Ev_monitor_start assms by simp
  next
    case (Ev_monitor_tick stops now)
    then show ?thesis
      using calls_ok_monitor_tick[OF c] life_ok_monitor_tick[OF l] assms by (simp add: client_ok_def)
  qed
qed

lemma client_run_ok:
  assumes "client_ok cx"
  shows "\<exists>cx'. client_run cc evs cx = Some cx' \<and> client_ok cx'"
  using assms
proof (induction evs arbitrary: cx)
  case (Cons ev evs)
  obtain cx1 where "client_step cc ev cx = Some cx1" "client_ok cx1" using client_step_ok[OF Cons.prems] by blast
  then show ?case using Cons.IH by simp
qed simp

lemma client_ok_init: "client_ok connection_init"
  by (simp add: client_ok_def calls_ok_init life_ok_init)

end
