(* ===== verification/Client_Properties.thy ===== *)
theory Client_Properties
  imports Client_Invariant
begin

section \<open>Properties of the client connection\<close>

text \<open>
  What a caller of the client may rely on: every promise is set exactly once, whatever the order in
  which the threads run; \<open>close\<close> settles every promise and returns once the operations its threads are
  blocked in have returned; a response only reaches the call it answers; and the answer a server
  gives to a call is accepted as such.
\<close>

subsection \<open>What a closed connection does\<close>

fun ends_writer :: "client_event \<Rightarrow> writer \<Rightarrow> bool" where
  "ends_writer (Ev_opened stopped opened now) (Writer_opening until) = True"
| "ends_writer (Ev_take s1 s2 now) Writer_idle = True"
| "ends_writer (Ev_sent sent) (Writer_sending i) = True"
| "ends_writer _ _ = False"

fun ends_reader :: "client_event \<Rightarrow> reader \<Rightarrow> bool" where
  "ends_reader Ev_reader_start Reader_waiting = True"
| "ends_reader Ev_reader_head Reader_head = True"
| "ends_reader (Ev_received payload s1 s2 now) Reader_receiving = True"
| "ends_reader _ _ = False"

fun ends_monitor :: "client_event \<Rightarrow> monitor \<Rightarrow> bool" where
  "ends_monitor Ev_monitor_start Monitor_waiting = True"
| "ends_monitor (Ev_monitor_tick stops now) Monitor_running = True"
| "ends_monitor _ _ = False"

text \<open>
  The events let every thread that is still running return from where it is: a channel operation
  completes, a wait wakes up.
\<close>

definition resumed :: "client_event list \<Rightarrow> connection_state \<Rightarrow> bool" where
  "resumed evs cx \<longleftrightarrow>
     (cx_writer cx \<in> {Writer_none, Writer_done} \<or> list_ex (\<lambda>ev. ends_writer ev (cx_writer cx)) evs) \<and>
     (cx_reader cx \<in> {Reader_none, Reader_done} \<or> list_ex (\<lambda>ev. ends_reader ev (cx_reader cx)) evs) \<and>
     (cx_monitor cx \<in> {Monitor_none, Monitor_done} \<or> list_ex (\<lambda>ev. ends_monitor ev (cx_monitor cx)) evs)"

lemma fail_locked_noop: "cx_closed cx \<Longrightarrow> fail_locked a b c cx = cx"
  by (simp add: fail_locked_def)

lemma connect_async_closed: "cx_closed cx \<Longrightarrow> snd (connect_async usable endpoint until s1 s2 now threads cx) = cx"
  by (simp add: connect_async_def)

lemma call_async_closed: "cx_closed cx \<Longrightarrow> snd (call_async utf8 rt oper until stopped now cx) = cx"
  by (simp add: call_async_def)

lemma writer_opened_closed:
  assumes "cx_closed cx"
  shows "cx_writer (writer_opened until opened now cx) = Writer_done" "cx_closed (writer_opened until opened now cx)"
    "cx_stop (writer_opened until opened now cx) = cx_stop cx" "cx_reader (writer_opened until opened now cx) = cx_reader cx"
    "cx_monitor (writer_opened until opened now cx) = cx_monitor cx"
  using assms by (simp_all add: writer_opened_def fail_locked_noop Let_def split: sum.split)

lemma closed_step:
  assumes "cx_closed cx" and "cx_stop cx" and "client_step cc ev cx = Some cx'"
  shows "cx_closed cx' \<and> cx_stop cx' \<and>
    cx_writer cx' = (if ends_writer ev (cx_writer cx) then Writer_done else cx_writer cx) \<and>
    cx_reader cx' = (if ends_reader ev (cx_reader cx) then Reader_done else cx_reader cx) \<and>
    cx_monitor cx' = (if ends_monitor ev (cx_monitor cx) then Monitor_done else cx_monitor cx)"
proof (cases ev)
  case (Ev_opened stopped opened now)
  then show ?thesis
    using assms writer_opened_closed[OF assms(1)] by (cases "cx_writer cx") auto
next
  case (Ev_take s1 s2 now)
  then show ?thesis
    using assms by (cases "cx_writer cx") (auto simp: writer_take_def)
next
  case (Ev_sent sent)
  then show ?thesis
    using assms by (cases "cx_writer cx") (auto simp: writer_sent_def)
next
  case Ev_reader_start
  then show ?thesis using assms by (cases "cx_reader cx") auto
next
  case Ev_reader_head
  then show ?thesis using assms by (cases "cx_reader cx") auto
next
  case (Ev_received payload s1 s2 now)
  then show ?thesis using assms by (cases "cx_reader cx") (auto simp: reader_got_def)
next
  case Ev_monitor_start
  then show ?thesis using assms by (cases "cx_monitor cx") auto
next
  case (Ev_monitor_tick stops now)
  then show ?thesis using assms by (cases "cx_monitor cx") (auto simp: monitor_tick_def)
next
  case (Ev_connect usable endpoint until s1 s2 now threads)
  then show ?thesis using assms connect_async_closed[OF assms(1)] by auto
next
  case (Ev_call oper until stopped now)
  then show ?thesis using assms call_async_closed[OF assms(1)] by auto
next
  case Ev_close
  then show ?thesis using assms by (auto simp: close_begin_def fail_locked_noop)
next
  case Ev_joined
  then show ?thesis using assms by (auto simp: close_end_def)
next
  case Ev_connect_stop
  then show ?thesis using assms by (auto split: writer.splits)
qed

lemma ends_done [simp]: "\<not> ends_writer ev Writer_done" "\<not> ends_reader ev Reader_done" "\<not> ends_monitor ev Monitor_done"
  by (cases ev; simp)+

lemma resumed_Cons:
  assumes "resumed (ev # evs) cx"
    and "cx_writer cx' = (if ends_writer ev (cx_writer cx) then Writer_done else cx_writer cx)"
    and "cx_reader cx' = (if ends_reader ev (cx_reader cx) then Reader_done else cx_reader cx)"
    and "cx_monitor cx' = (if ends_monitor ev (cx_monitor cx) then Monitor_done else cx_monitor cx)"
  shows "resumed evs cx'"
  using assms(1) unfolding resumed_def assms(2-4) by (auto split: if_splits)

lemma closed_run_joins:
  assumes "client_ok cx" and "cx_closed cx" and "resumed evs cx"
  shows "\<exists>cx'. client_run cc evs cx = Some cx' \<and> client_ok cx' \<and> cx_closed cx' \<and> joined cx'"
  using assms
proof (induction evs arbitrary: cx)
  case Nil
  then show ?case by (simp add: resumed_def joined_def)
next
  case (Cons ev evs)
  obtain cx1 where step: "client_step cc ev cx = Some cx1" and ok: "client_ok cx1"
    using client_step_ok[OF Cons.prems(1)] by blast
  have "cx_stop cx" using Cons.prems(1,2) life_okD(1) by (simp add: client_ok_def)
  note c = closed_step[OF Cons.prems(2) this step]
  have "resumed evs cx1" by (rule resumed_Cons[OF Cons.prems(3)]) (use c in simp_all)
  then show ?case using Cons.IH[OF ok] c step by simp
qed

lemma client_run_append:
  "client_run cc (xs @ ys) cx = (case client_run cc xs cx of None \<Rightarrow> None | Some cx \<Rightarrow> client_run cc ys cx)"
  by (induction xs arbitrary: cx) (simp_all split: option.split)

lemma client_run_init: "\<exists>cx. client_run cc evs connection_init = Some cx \<and> client_ok cx"
  by (rule client_run_ok[OF client_ok_init])

lemma client_ok_opening:
  "client_ok cx \<Longrightarrow> length (cx_opening cx) \<le> 1"
  "client_ok cx \<Longrightarrow> cx_closed cx \<Longrightarrow> length (cx_opening cx) = (if cx_started cx then 1 else 0)"
proof -
  assume "client_ok cx"
  then have "opening_ok (cx_opening_done cx) (cx_opening cx) (cx_started cx) (cx_connected cx) (cx_closed cx) (cx_stop cx)"
    by (simp add: client_ok_def life_ok_def)
  then show "length (cx_opening cx) \<le> 1"
    and "cx_closed cx \<Longrightarrow> length (cx_opening cx) = (if cx_started cx then 1 else 0)"
    by (cases "cx_opening cx"; auto simp: opening_ok_def)+
qed

lemma client_ok_settled:
  assumes "client_ok cx" and "cx_closed cx"
  shows "cx_pending cx = []" and "distinct (map fst (cx_resolved cx))"
    and "fst ` set (cx_resolved cx) = {0 <..< cx_next_id cx}"
proof -
  have "calls_ok cx" using assms(1) by (simp add: client_ok_def)
  note c = calls_okD[OF this]
  show p: "cx_pending cx = []" by (rule c(10)[OF assms(2)])
  show "distinct (map fst (cx_resolved cx))" by (rule c(7))
  show "fst ` set (cx_resolved cx) = {0 <..< cx_next_id cx}" using c(9) p by simp
qed

subsection \<open>What is pending was encoded\<close>

definition encoded_ok :: "client_config \<Rightarrow> (u64, pending_call) omap \<Rightarrow> bool" where
  "encoded_ok cc m \<longleftrightarrow>
     (\<forall>i e. om_find m i = Some e \<longrightarrow> encode_request (cc_utf8 cc) (cc_requests cc) (pg_request e) = Inr (pg_encoded e))"

lemma encoded_ok_Nil [simp]: "encoded_ok cc []"
  by (simp add: encoded_ok_def om_find_def)

lemma encoded_ok_erase: "encoded_ok cc m \<Longrightarrow> encoded_ok cc (om_erase i m)"
  by (simp add: encoded_ok_def om_find_erase)

lemma encoded_ok_progress:
  assumes "om_ok m" and "encoded_ok cc m" and "om_find m i = Some e"
  shows "encoded_ok cc (om_assign i (e\<lparr>pg_progress := q\<rparr>) m)"
  using assms by (simp add: encoded_ok_def om_find_assign)

lemma fail_locked_pending:
  "cx_pending (fail_locked a b c cx) = (if cx_closed cx then cx_pending cx else [])"
  by (simp add: fail_locked_def Let_def)

lemma encoded_ok_fail: "encoded_ok cc (cx_pending cx) \<Longrightarrow> encoded_ok cc (cx_pending (fail_locked a b c cx))"
  by (simp add: fail_locked_pending)

lemma encoded_ok_call:
  assumes "om_ok (cx_pending cx)" and "encoded_ok cc (cx_pending cx)"
  shows "encoded_ok cc (cx_pending (snd (call_async (cc_utf8 cc) (cc_requests cc) oper until stopped now cx)))"
proof (cases "encode_request (cc_utf8 cc) (cc_requests cc) \<lparr>rq_id = cx_next_id cx, rq_body = oper, rq_version = protocol_version\<rparr>")
  case (Inr encoded)
  then have "encoded_ok cc (om_emplace (cx_next_id cx)
      \<lparr>pg_request = \<lparr>rq_id = cx_next_id cx, rq_body = oper, rq_version = protocol_version\<rparr>,
       pg_encoded = encoded, pg_until = until, pg_progress = Call_queued\<rparr> (cx_pending cx))"
    using assms by (auto simp: encoded_ok_def om_find_emplace split: if_splits option.splits)
  then show ?thesis using Inr assms(2) by (simp add: call_async_def Let_def)
qed (use assms in \<open>simp add: call_async_def\<close>)

lemma encoded_ok_monitor_scan:
  "encoded_ok cc (cx_pending cx) \<Longrightarrow> encoded_ok cc (cx_pending (snd (monitor_scan stops now es cx)))"
proof (induction stops now es cx rule: monitor_scan.induct)
  case (2 stops now i entry rest cx)
  have "encoded_ok cc (om_erase i (cx_pending cx))" using "2.prems" by (rule encoded_ok_erase)
  then show ?case
    using 2 encoded_ok_fail[OF "2.prems"]
    by (cases "stops i \<or> pg_until entry \<le> now"; cases "pg_progress entry = Call_queued") simp_all
qed simp

lemma encoded_ok_step:
  assumes "om_ok (cx_pending cx)" and "encoded_ok cc (cx_pending cx)" and "client_step cc ev cx = Some cx'"
  shows "encoded_ok cc (cx_pending cx')"
proof (cases ev)
  case (Ev_connect usable endpoint until s1 s2 now threads)
  then show ?thesis using assms
    by (auto simp: connect_async_def fail_locked_pending close_begin_def close_end_def Let_def split: if_splits option.splits)
next
  case (Ev_call oper until stopped now)
  then show ?thesis using assms encoded_ok_call[OF assms(1,2)] by auto
next
  case Ev_close
  then show ?thesis using assms encoded_ok_fail by (auto simp: close_begin_def)
next
  case (Ev_opened stopped opened now)
  then show ?thesis using assms
    by (auto simp: writer_opened_def fail_locked_pending Let_def split: writer.splits sum.splits if_splits)
next
  case (Ev_take s1 s2 now)
  then show ?thesis using assms encoded_ok_erase[OF assms(2)] encoded_ok_progress[OF assms(1,2)]
    by (auto simp: writer_take_def resolve_def Let_def split: if_splits list.splits option.splits)
next
  case (Ev_sent sent)
  then show ?thesis using assms encoded_ok_progress[OF assms(1,2)]
    by (auto simp: writer_sent_def fail_locked_pending split: writer.splits sum.splits if_splits option.splits)
next
  case (Ev_received payload s1 s2 now)
  then show ?thesis using assms encoded_ok_erase[OF assms(2)]
    by (auto simp: reader_got_def resolve_def fail_locked_pending split: if_splits sum.splits option.splits)
next
  case (Ev_monitor_tick stops now)
  then show ?thesis using assms encoded_ok_monitor_scan[OF assms(2), of stops now "cx_pending cx"]
    by (auto simp: monitor_tick_def case_prod_unfold Let_def split: if_splits)
qed (use assms in \<open>auto simp: close_end_def split: if_splits writer.splits\<close>)

lemma encoded_ok_run:
  assumes "client_ok cx" and "encoded_ok cc (cx_pending cx)" and "client_run cc evs cx = Some cx'"
  shows "encoded_ok cc (cx_pending cx')"
  using assms
proof (induction evs arbitrary: cx)
  case (Cons ev evs)
  obtain cx1 where step: "client_step cc ev cx = Some cx1" and ok: "client_ok cx1"
    using client_step_ok[OF Cons.prems(1)] by blast
  have "om_ok (cx_pending cx)" using Cons.prems(1) calls_okD(1) by (simp add: client_ok_def)
  then have "encoded_ok cc (cx_pending cx1)" using Cons.prems(2) step by (rule encoded_ok_step)
  then show ?case using Cons.IH[OF ok] Cons.prems(3) step by simp
qed simp

subsection \<open>Who resolves a call with a response\<close>

lemma answer_fail:
  "(i, Inr res) \<in> set (cx_resolved (fail_locked a b c cx)) \<longleftrightarrow> (i, Inr res) \<in> set (cx_resolved cx)"
  by (auto simp: fail_locked_def Let_def)

lemma answer_monitor_scan:
  "(i, Inr res) \<in> set (cx_resolved (snd (monitor_scan stops now es cx))) \<longleftrightarrow> (i, Inr res) \<in> set (cx_resolved cx)"
proof (induction stops now es cx rule: monitor_scan.induct)
  case (2 stops now j entry rest cx)
  then show ?case
    by (cases "stops j \<or> pg_until entry \<le> now"; cases "pg_progress entry = Call_queued")
      (simp_all add: resolve_def answer_fail)
qed simp

lemma answer_reader_got:
  assumes "(i, Inr res) \<in> set (cx_resolved (reader_got utf8 rt payload s1 s2 now cx))"
    and "(i, Inr res) \<notin> set (cx_resolved cx)"
  shows "\<exists>bs entry. payload = Inr bs \<and> decode_response utf8 rt bs = Inr res \<and> rs_id res = i \<and>
    om_find (cx_pending cx) i = Some entry \<and> pg_progress entry \<noteq> Call_queued \<and>
    matches (rq_body (pg_request entry)) (rs_body res) \<and> \<not> s1 \<and> now < pg_until entry \<and> \<not> cx_closed cx"
  using assms by (auto simp: reader_got_def resolve_def answer_fail split: if_splits sum.splits option.splits)

lemma answer_step:
  assumes "client_step cc ev cx = Some cx'" and "\<And>payload s1 s2 now. ev \<noteq> Ev_received payload s1 s2 now"
  shows "(i, Inr res) \<in> set (cx_resolved cx') \<longleftrightarrow> (i, Inr res) \<in> set (cx_resolved cx)"
proof (cases ev)
  case (Ev_connect usable endpoint until s1 s2 now threads)
  then show ?thesis using assms(1)
    by (auto simp: connect_async_def answer_fail close_begin_def close_end_def Let_def split: if_splits option.splits)
next
  case (Ev_call oper until stopped now)
  then have "cx' = snd (call_async (cc_utf8 cc) (cc_requests cc) oper until stopped now cx)"
    using assms(1) by simp
  then show ?thesis by (cases rule: call_async_cases[of "cc_utf8 cc" "cc_requests cc" oper until stopped now cx]) simp_all
next
  case (Ev_opened stopped opened now)
  then show ?thesis using assms(1)
    by (auto simp: writer_opened_def answer_fail Let_def split: writer.splits sum.splits if_splits)
next
  case (Ev_take s1 s2 now)
  then show ?thesis using assms(1)
    by (auto simp: writer_take_def resolve_def Let_def split: if_splits list.splits option.splits)
next
  case (Ev_sent sent)
  then show ?thesis using assms(1)
    by (auto simp: writer_sent_def answer_fail split: writer.splits sum.splits if_splits option.splits)
next
  case (Ev_monitor_tick stops now)
  then show ?thesis using assms(1)
    by (auto simp: monitor_tick_def answer_monitor_scan case_prod_unfold Let_def split: if_splits)
qed (use assms in \<open>auto simp: close_begin_def close_end_def answer_fail split: if_splits writer.splits\<close>)

subsection \<open>The answers of a server\<close>

lemma double_eq_refl: "isfinite a \<Longrightarrow> double_eq a a"
  by (simp add: double_eq_def is_nan_def)

lemma value_eq_refl: "valid_value utf8 v \<Longrightarrow> value_eq v v"
  by (cases v) (simp_all add: double_eq_refl)

lemma execute_matches:
  assumes "execute env ids st oper = Some (r, ids', st')"
  shows "matches oper r"
proof (cases "ss_closed st")
  case False
  show ?thesis
  proof (cases oper)
    case (List_classes after limit)
    moreover have "matches (List_classes after limit) (widen_classes_page p)" for p by (cases p) simp_all
    ultimately show ?thesis using assms False by (auto simp: execute_def apply_list_classes_def)
  next
    case (Describe_class name)
    then show ?thesis using assms False find_Some_set
      by (fastforce simp: execute_def apply_describe_class_def registry_find_def split: if_splits option.splits)
  next
    case (Put_value v)
    then show ?thesis using assms False value_eq_refl
      by (auto simp: execute_def apply_put_value_def Let_def split: if_splits prod.splits option.splits)
  next
    case (Get_value i)
    then show ?thesis using assms False
      by (auto simp: execute_def apply_get_value_def split: if_splits option.splits)
  next
    case (List_values after limit)
    then show ?thesis using assms False
      by (auto simp: execute_def apply_list_values_def Let_def split: if_splits prod.splits)
  next
    case (Create_object name args)
    then show ?thesis using assms False
      by (auto simp: execute_def apply_create_object_def Let_def split: if_splits prod.splits option.splits sum.splits)
  next
    case (Get_object i)
    then show ?thesis using assms False
      by (auto simp: execute_def apply_get_object_def Let_def split: if_splits option.splits)
  next
    case (Release_object i)
    then show ?thesis using assms False
      by (auto simp: execute_def apply_release_object_def split: if_splits option.splits)
  next
    case (Get_attribute i name)
    then have "apply_get_attribute env st i name = Some r" using assms False by (auto simp: execute_def)
    then show ?thesis using Get_attribute
      by (cases "apply_get_object env st i"; cases r)
        (simp_all add: apply_get_attribute_def split: if_splits option.splits)
  next
    case (Invoke_method i name args)
    then show ?thesis using assms False
      by (auto simp: execute_def apply_invoke_method_def Let_def split: if_splits prod.splits option.splits sum.splits)
  qed
qed (use assms in \<open>auto simp: execute_def\<close>)

subsection \<open>A concrete connection\<close>

abbreviation demo_sent :: request where
  "demo_sent \<equiv> \<lparr>rq_id = 1, rq_body = Put_value (Text ''hi''), rq_version = 1\<rparr>"

abbreviation demo_answer :: response where
  "demo_answer \<equiv> \<lparr>rs_id = 1, rs_body = Value_record \<lparr>vr_id = 3, vr_data = Text ''hi''\<rparr>, rs_version = 1\<rparr>"

definition demo_client :: client_config where
  "demo_client = \<lparr>cc_utf8 = structurally_valid, cc_requests = echo_runtime (request_message demo_sent),
     cc_responses = echo_runtime (response_message demo_answer)\<rparr>"

definition demo_events :: "client_event list" where
  "demo_events =
     [Ev_connect True default_endpoint 10 False False 0 None, Ev_opened False (Inr True) 1, Ev_reader_start,
      Ev_reader_head, Ev_monitor_start, Ev_call (Put_value (Text ''hi'')) 10 False 2, Ev_take False False 3, Ev_sent (Inr 6)]"

definition demo_entry :: pending_call where
  "demo_entry = \<lparr>pg_request = demo_sent, pg_encoded = [1, 2], pg_until = 10, pg_progress = Call_sent\<rparr>"

definition demo_connection :: connection_state where
  "demo_connection =
     \<lparr>cx_pending = [(1, demo_entry)], cx_queued = [], cx_next_id = 2, cx_started = True, cx_connected = True,
      cx_opening_done = True, cx_closed = False, cx_stop = False, cx_channel = Channel_open, cx_opening = [Inr ()],
      cx_resolved = [], cx_log = [], cx_writer = Writer_idle, cx_reader = Reader_receiving, cx_monitor = Monitor_running\<rparr>"

lemma demo_run: "client_run demo_client demo_events connection_init = Some demo_connection"
  by code_simp

subsection \<open>Properties\<close>

text \<open>
  Property C6. Promises are set exactly once. Whatever its owner and its three threads do, in
  whatever order, a connection never uses a call that does not exist; the promise of the
  connection attempt is set at most once; at most \<open>max_pending_calls\<close> calls are pending; and the calls
  admitted so far, whose identifiers are the numbers below \<open>next_id\<close>, are divided into those that are
  pending and those whose promise was set, each of them once. A closed connection has no pending
  call and has set the promise of the attempt; its channel is closed only after the threads ended.
\<close>

theorem promises_set_once:
  "\<exists>cx. client_run cc evs connection_init = Some cx \<and>
     length (cx_opening cx) \<le> 1 \<and> length (cx_pending cx) \<le> max_pending_calls \<and>
     distinct (map fst (cx_resolved cx)) \<and>
     fst ` set (cx_resolved cx) \<inter> fst ` set (cx_pending cx) = {} \<and>
     fst ` set (cx_resolved cx) \<union> fst ` set (cx_pending cx) = {0 <..< cx_next_id cx} \<and>
     (if cx_closed cx then cx_pending cx = [] \<and> length (cx_opening cx) = (if cx_started cx then 1 else 0)
      else cx_channel cx \<noteq> Channel_closed) \<and>
     (if cx_channel cx = Channel_closed then joined cx else True)"
proof -
  obtain cx where run: "client_run cc evs connection_init = Some cx" and ok: "client_ok cx"
    using client_run_init by blast
  then have "calls_ok cx" by (simp add: client_ok_def)
  note c = calls_okD[OF this]
  have th: "threads_ok (cx_started cx) (cx_connected cx) (cx_closed cx) (cx_channel cx) (cx_writer cx) (cx_reader cx) (cx_monitor cx)"
    using ok life_okD(2) by (simp add: client_ok_def)
  have "if cx_closed cx then cx_pending cx = [] \<and> length (cx_opening cx) = (if cx_started cx then 1 else 0)
      else cx_channel cx \<noteq> Channel_closed"
    using client_ok_opening(2)[OF ok] c(10) th by (auto simp: threads_ok_def)
  moreover have "if cx_channel cx = Channel_closed then joined cx else True"
    using th by (auto simp: threads_ok_def threads_ended_def joined_def)
  ultimately show ?thesis using run client_ok_opening(1)[OF ok] c(2,7,8,9) by blast
qed

text \<open>
  Property C8. \<open>close\<close> settles everything and returns. From any state a connection can reach, once
  the operations its threads are blocked in return (the connection attempt, a send, a receive, a
  wait), with whatever result and interleaved with any other events, every thread has ended, the
  channel has been closed if one was opened, and every promise has been set exactly once: those of
  all calls ever admitted, and that of the connection attempt if there was one.
\<close>

theorem close_settles_everything:
  assumes "client_run cc evs connection_init = Some cx" and "resumed evs' cx"
  shows "\<exists>cx'. client_run cc (evs @ Ev_close # evs' @ [Ev_joined]) connection_init = Some cx' \<and>
    joined cx' \<and> cx_channel cx' \<noteq> Channel_open \<and> cx_pending cx' = [] \<and>
    distinct (map fst (cx_resolved cx')) \<and> fst ` set (cx_resolved cx') = {0 <..< cx_next_id cx'} \<and>
    length (cx_opening cx') = (if cx_started cx' then 1 else 0)"
proof -
  have ok: "client_ok cx" using assms(1) client_run_init[of cc evs] by simp
  define cx1 where "cx1 = close_begin cx"
  have ok1: "client_ok cx1" using client_step_ok[OF ok, of cc Ev_close] by (simp add: cx1_def)
  have closed1: "cx_closed cx1" by (simp add: cx1_def close_begin_def)
  have "resumed evs' cx1" using assms(2) by (simp add: resumed_def cx1_def close_begin_def)
  then obtain cx2 where run: "client_run cc evs' cx1 = Some cx2" and ok2: "client_ok cx2" "cx_closed cx2" "joined cx2"
    using closed_run_joins[OF ok1 closed1] by blast
  define cx3 where "cx3 = close_end cx2"
  have step: "client_step cc Ev_joined cx2 = Some cx3" using ok2 by (simp add: cx3_def)
  then have ok3: "client_ok cx3" using client_step_ok[OF ok2(1), of cc Ev_joined] by simp
  have closed3: "cx_closed cx3" using ok2 by (simp add: cx3_def close_end_def)
  have "joined cx3" "cx_channel cx3 \<noteq> Channel_open" using ok2(3) by (simp_all add: cx3_def close_end_def joined_def)
  moreover have "client_run cc (evs @ Ev_close # evs' @ [Ev_joined]) connection_init = Some cx3"
    using assms(1) run ok2 by (simp add: client_run_append cx1_def cx3_def)
  ultimately show ?thesis using client_ok_settled[OF ok3 closed3] client_ok_opening(2)[OF ok3 closed3] by blast
qed

theorem close_settles_everything_witness:
  "\<exists>cx'. client_run demo_client (demo_events @ Ev_close #
      [Ev_take False False 5, Ev_received (Inl (plain_failure TK_cancelled)) False False 5, Ev_monitor_tick (\<lambda>_. False) 5] @
      [Ev_joined]) connection_init = Some cx' \<and> joined cx' \<and> fst ` set (cx_resolved cx') = {0 <..< cx_next_id cx'}"
proof -
  have "resumed [Ev_take False False 5, Ev_received (Inl (plain_failure TK_cancelled)) False False 5,
      Ev_monitor_tick (\<lambda>_. False) 5] demo_connection"
    by (simp add: resumed_def demo_connection_def)
  then show ?thesis using close_settles_everything[OF demo_run] by blast
qed

text \<open>
  Property C37. A response only reaches the call it answers. When a step of a reachable connection
  sets the promise of call \<open>i\<close> to a response, the reader has just received a payload that decodes to
  that response; its identifier is \<open>i\<close>, that of a pending request which the writer has started to
  send, the outcome is of the kind the request asks for, and neither its stop token nor its
  deadline had fired.
\<close>

theorem responses_are_correlated:
  assumes "client_run cc evs connection_init = Some cx" and "client_step cc ev cx = Some cx'"
    and "(i, Inr res) \<in> set (cx_resolved cx')" and "(i, Inr res) \<notin> set (cx_resolved cx)"
  shows "\<exists>bs again now entry. ev = Ev_received (Inr bs) False again now \<and>
    decode_response (cc_utf8 cc) (cc_responses cc) bs = Inr res \<and> rs_id res = i \<and>
    om_find (cx_pending cx) i = Some entry \<and> rq_id (pg_request entry) = i \<and> pg_progress entry \<noteq> Call_queued \<and>
    matches (rq_body (pg_request entry)) (rs_body res) \<and> now < pg_until entry \<and> \<not> cx_closed cx"
proof -
  have "calls_ok cx" using assms(1) client_run_init[of cc evs] by (simp add: client_ok_def)
  note ids = calls_okD(4)[OF this]
  obtain payload s1 s2 now where ev: "ev = Ev_received payload s1 s2 now"
    using answer_step[OF assms(2), of i res] assms(3,4) by blast
  then have "cx' = reader_got (cc_utf8 cc) (cc_responses cc) payload s1 s2 now cx"
    using assms by (auto split: if_splits)
  then show ?thesis
    using answer_reader_got[of i res "cc_utf8 cc" "cc_responses cc" payload s1 s2 now cx] assms(3,4) ev ids by blast
qed

theorem responses_are_correlated_witness:
  "\<exists>cx' entry. client_step demo_client (Ev_received (Inr [1, 2]) False False 5) demo_connection = Some cx' \<and>
     (1, Inr demo_answer) \<in> set (cx_resolved cx') \<and> om_find (cx_pending demo_connection) 1 = Some entry \<and>
     matches (rq_body (pg_request entry)) (rs_body demo_answer)"
proof -
  have "map_option cx_resolved (client_step demo_client (Ev_received (Inr [1, 2]) False False 5) demo_connection) =
      Some [(1, Inr demo_answer)]"
    by code_simp
  then obtain cx' where step: "client_step demo_client (Ev_received (Inr [1, 2]) False False 5) demo_connection = Some cx'"
    and resolved: "(1, Inr demo_answer) \<in> set (cx_resolved cx')" by auto
  have "(1, Inr demo_answer) \<notin> set (cx_resolved demo_connection)" by (simp add: demo_connection_def)
  then show ?thesis using responses_are_correlated[OF demo_run step resolved] step resolved by blast
qed

text \<open>
  Property C2. A call that a server answers completes with that answer. The payload the client
  keeps for a pending call decodes, at the server, to the request of the call; a session in an
  invariant state dispatches it to a response; and once that response is encoded and received
  before the deadline, the reader sets the promise of the call to it and the connection stays open.
  In particular no operation, on no state of the store, makes the client see a protocol violation.
  (The runtime is assumed to parse what it serialised, for the two messages at hand.)
\<close>

theorem answered_calls_complete:
  assumes "utf8_validator (de_utf8 env)" and "registry_ok (de_registry env)" and "store_ok env ids st"
    and "cc_utf8 cc = de_utf8 env"
    and "client_run cc evs connection_init = Some cx" and "\<not> cx_closed cx" and "cx_reader cx = Reader_receiving"
    and "om_find (cx_pending cx) i = Some entry" and "pg_progress entry \<noteq> Call_queued" and "now < pg_until entry"
    and "faithful_on (cc_requests cc) (request_message (pg_request entry))"
  shows "\<exists>res lg ids' st'.
    decode_request (de_utf8 env) (cc_requests cc) (pg_encoded entry) = Inr (pg_request entry) \<and>
    dispatcher_dispatch env diagnostics ids st (pg_request entry) = Some (Inr res, lg, ids', st') \<and>
    (\<forall>bs. encode_response (de_utf8 env) (cc_responses cc) res = Inr bs \<and>
          faithful_on (cc_responses cc) (response_message res) \<longrightarrow>
       (\<exists>cx'. client_step cc (Ev_received (Inr bs) False again now) cx = Some cx' \<and>
          cx_resolved cx' = cx_resolved cx @ [(i, Inr res)] \<and> om_find (cx_pending cx') i = None \<and> \<not> cx_closed cx'))"
proof -
  have ok: "client_ok cx" using assms(5) client_run_init[of cc evs] by simp
  then have c: "calls_ok cx" by (simp add: client_ok_def)
  have "encoded_ok cc (cx_pending cx)"
    by (rule encoded_ok_run[OF client_ok_init _ assms(5)]) (simp add: connection_init_def)
  then have enc: "encode_request (cc_utf8 cc) (cc_requests cc) (pg_request entry) = Inr (pg_encoded entry)"
    using assms(8) by (simp add: encoded_ok_def)
  have dec: "decode_request (de_utf8 env) (cc_requests cc) (pg_encoded entry) = Inr (pg_request entry)"
    using decode_encoded_request[OF enc assms(11)] assms(4) by simp
  have rid: "rq_id (pg_request entry) = i" by (rule calls_okD(4)[OF c assms(8)])
  have "i \<in> {0 <..< cx_next_id cx}" using calls_okD(9)[OF c] known_find[OF calls_okD(1)[OF c], of i] assms(8) by blast
  then have nz: "rq_id (pg_request entry) \<noteq> 0" using rid by auto
  obtain r lg ids' st' where d: "dispatcher_dispatch env diagnostics ids st (pg_request entry) =
      Some (Inr \<lparr>rs_id = rq_id (pg_request entry), rs_body = r, rs_version = protocol_version\<rparr>, lg, ids', st')"
    and ex: "if rq_version (pg_request entry) = protocol_version
         then execute env ids st (rq_body (pg_request entry)) = Some (r, ids', st')
         else r = Remote_error (make_error EC_unsupported_version) \<and> ids' = ids \<and> st' = st"
    by (rule dispatch_defined[OF assms(2,3) nz])
  define res where "res = \<lparr>rs_id = i, rs_body = r, rs_version = protocol_version\<rparr>"
  have m: "matches (rq_body (pg_request entry)) (rs_body res)"
    using ex execute_matches by (cases "rq_version (pg_request entry) = protocol_version") (auto simp: res_def)
  have deliver: "\<exists>cx'. client_step cc (Ev_received (Inr bs) False again now) cx = Some cx' \<and>
      cx_resolved cx' = cx_resolved cx @ [(i, Inr res)] \<and> om_find (cx_pending cx') i = None \<and> \<not> cx_closed cx'"
    if "encode_response (de_utf8 env) (cc_responses cc) res = Inr bs" "faithful_on (cc_responses cc) (response_message res)" for bs
  proof -
    have "decode_response (cc_utf8 cc) (cc_responses cc) bs = Inr res"
      using decode_encoded_response[OF that] assms(4) by simp
    moreover have "rs_id res = i" by (simp add: res_def)
    ultimately show ?thesis
      using assms(6-10) m by (simp add: reader_got_def resolve_def om_find_erase)
  qed
  show ?thesis using dec d deliver unfolding rid res_def[symmetric] by blast
qed

theorem answered_calls_complete_witness:
  "\<exists>cx'. client_step demo_client (Ev_received (Inr [1, 2]) False False 5) demo_connection = Some cx' \<and>
     cx_resolved cx' = [(1, Inr demo_answer)] \<and> \<not> cx_closed cx'"
proof -
  have "\<exists>res lg ids' st'.
    decode_request (de_utf8 demo_env) (cc_requests demo_client) (pg_encoded demo_entry) = Inr (pg_request demo_entry) \<and>
    dispatcher_dispatch demo_env False 3 demo_store (pg_request demo_entry) = Some (Inr res, lg, ids', st') \<and>
    (\<forall>bs. encode_response (de_utf8 demo_env) (cc_responses demo_client) res = Inr bs \<and>
          faithful_on (cc_responses demo_client) (response_message res) \<longrightarrow>
       (\<exists>cx'. client_step demo_client (Ev_received (Inr bs) False False 5) demo_connection = Some cx' \<and>
          cx_resolved cx' = cx_resolved demo_connection @ [(1, Inr res)] \<and> om_find (cx_pending cx') 1 = None \<and>
          \<not> cx_closed cx'))"
  proof (rule answered_calls_complete[OF _ demo_registry_ok demo_store_ok _ demo_run])
    show "utf8_validator (de_utf8 demo_env)" using utf8_table.utf8_validator_axioms by simp
    show "faithful_on (cc_requests demo_client) (request_message (pg_request demo_entry))"
      by (simp add: demo_client_def demo_entry_def faithful_echo)
  qed (simp_all add: demo_client_def demo_connection_def demo_entry_def om_find_def)
  moreover have "fst (the (dispatcher_dispatch demo_env False 3 demo_store (pg_request demo_entry))) = Inr demo_answer"
    by code_simp
  moreover have "encode_response (de_utf8 demo_env) (cc_responses demo_client) demo_answer = Inr [1, 2]"
    by code_simp
  moreover have "faithful_on (cc_responses demo_client) (response_message demo_answer)"
    by (simp add: demo_client_def faithful_echo)
  moreover have "cx_resolved demo_connection = []" by (simp add: demo_connection_def)
  ultimately show ?thesis by fastforce
qed

end
