(* ===== verification/Diagnostics.thy ===== *)
theory Diagnostics
  imports Dispatcher Transport
begin

section \<open>Diagnostics\<close>

text \<open>
  Models \<open>src/diagnostics/diagnostics.cpp\<close> and \<open>include/pipeforge/diagnostics.hpp\<close>: the checks on
  the output paths, the log and trace files of a session, profile scopes, and the deferred end of
  a trace.

  The sinks are those of the logging library. A call of a sink hands it a line, which is collected
  here, and may report an error, which sets \<open>failed_\<close>; every operation takes the errors of its calls as
  an argument. The JSON serialiser is an argument as well, as are the answers of the file system,
  the process, the thread and the clock (in nanoseconds). Every operation holds \<open>mutex_\<close>, so a
  session's life is a sequence of operations. The result \<^term>\<open>None\<close> is a call through the null
  pointer a closed trace leaves behind.
\<close>

definition log_file_bytes :: nat where "log_file_bytes = 5 * 1024 * 1024"
definition rotated_log_files :: nat where "rotated_log_files = 3"
definition trace_thread_limit :: nat where "trace_thread_limit = 128"
definition profile_name_bytes :: nat where "profile_name_bytes = 256"
definition default_trace_event_limit :: nat where "default_trace_event_limit = 100000"

type_synonym path = string

record diagnostic_options =
  dn_log_file :: path
  dn_trace_file :: path
  dn_trace_event_limit :: nat

definition diagnostic_options_init :: diagnostic_options where
  "diagnostic_options_init =
     \<lparr>dn_log_file = [], dn_trace_file = [], dn_trace_event_limit = default_trace_event_limit\<rparr>"

subsection \<open>Paths\<close>

text \<open>
  The file system, as the constructor finds it: the two path functions and \<open>equivalent\<close>, which may
  report an error; the comparison that ignores case; and the message of the exception the logging
  library throws when it cannot open a file.
\<close>

record file_system =
  fs_absolute :: "path \<Rightarrow> path option"
  fs_weakly_canonical :: "path \<Rightarrow> path option"
  fs_same_ordinal :: "path \<Rightarrow> path \<Rightarrow> bool"
  fs_equivalent :: "path \<Rightarrow> path \<Rightarrow> bool option"
  fs_rotating_sink :: "path \<Rightarrow> nat \<Rightarrow> nat \<Rightarrow> string option"
  fs_basic_sink :: "path \<Rightarrow> string option"

type_synonym 'a diagnostic_result = "string + 'a"

definition canonical_output :: "file_system \<Rightarrow> path \<Rightarrow> path diagnostic_result" where
  "canonical_output fs path =
     (case fs_absolute fs path of
        None \<Rightarrow> Inl ''Cannot resolve diagnostic output path''
      | Some absolute \<Rightarrow>
        case fs_weakly_canonical fs absolute of
          None \<Rightarrow> Inl ''Cannot normalize diagnostic output path''
        | Some canonical \<Rightarrow> Inr canonical)"

definition validate_paths :: "file_system \<Rightarrow> diagnostic_options \<Rightarrow> unit diagnostic_result" where
  "validate_paths fs options =
     (if dn_log_file options = [] \<or> dn_trace_file options = [] then Inr ()
      else case canonical_output fs (dn_log_file options) of
        Inl e \<Rightarrow> Inl e
      | Inr log_path \<Rightarrow>
        case canonical_output fs (dn_trace_file options) of
          Inl e \<Rightarrow> Inl e
        | Inr trace_path \<Rightarrow>
          if log_path = trace_path \<or> fs_same_ordinal fs log_path trace_path \<or>
             fs_equivalent fs log_path trace_path = Some True
          then Inl ''Log and trace output must use different files''
          else Inr ())"

datatype level_enum = Level_debug | Level_info | Level_warn | Level_err

fun native_level :: "log_level \<Rightarrow> level_enum" where
  "native_level Log_debug = Level_debug"
| "native_level Log_info = Level_info"
| "native_level Log_warning = Level_warn"
| "native_level Log_error = Level_err"

subsection \<open>The state\<close>

datatype json = Json_string string | Json_number int | Json_object "(string \<times> json) list"

datatype sink_call = Log_write | Log_flush | Trace_write | Trace_flush

type_synonym sink_errors = "sink_call \<Rightarrow> bool"

record diagnostic_state =
  dg_failed :: bool
  dg_log :: bool
  dg_trace :: bool
  dg_origin :: int
  dg_threads :: "(nat, u64) omap"
  dg_event_limit :: nat
  dg_active :: nat
  dg_admitted :: nat
  dg_dropped :: u64
  dg_first_event :: bool
  dg_trace_enabled :: bool
  dg_closing :: bool
  dg_log_lines :: "(level_enum \<times> string) list"
  dg_trace_lines :: "string list"

text \<open>
  A call of a sink may report an error.
\<close>

definition reported :: "bool \<Rightarrow> diagnostic_state \<Rightarrow> diagnostic_state" where
  "reported e dg = dg\<lparr>dg_failed := dg_failed dg \<or> e\<rparr>"

definition trace_line :: "sink_errors \<Rightarrow> string \<Rightarrow> diagnostic_state \<Rightarrow> diagnostic_state" where
  "trace_line err line dg = reported (err Trace_write) (dg\<lparr>dg_trace_lines := dg_trace_lines dg @ [line]\<rparr>)"

definition write_event ::
  "(json \<Rightarrow> string) \<Rightarrow> sink_errors \<Rightarrow> json \<Rightarrow> diagnostic_state \<Rightarrow> diagnostic_state option" where
  "write_event dump err event dg =
     (if \<not> dg_trace dg then None
      else Some ((trace_line err ((if dg_first_event dg then [] else '','') @ dump event) dg)
                   \<lparr>dg_first_event := False\<rparr>))"

definition quoted :: "string \<Rightarrow> string" where
  "quoted s = CHR 0x22 # s @ [CHR 0x22]"

definition trace_header :: string where
  "trace_header = ''{'' @ quoted ''traceEvents'' @ '':[''"

definition trace_footer :: "(json \<Rightarrow> string) \<Rightarrow> u64 \<Rightarrow> string" where
  "trace_footer dump dropped =
     ''],'' @ quoted ''displayTimeUnit'' @ '':'' @ quoted ''ms'' @ '','' @ quoted ''otherData'' @ '':'' @
     dump (Json_object [(''droppedEvents'', Json_number (uint dropped))]) @ ''}''"

definition process_event :: "int \<Rightarrow> string \<Rightarrow> json" where
  "process_event pid application =
     Json_object [(''name'', Json_string ''process_name''), (''ph'', Json_string ''M''), (''pid'', Json_number pid),
       (''tid'', Json_number 0), (''args'', Json_object [(''name'', Json_string application)])]"

definition diagnostic_state_init ::
  "bool \<Rightarrow> file_system \<Rightarrow> (json \<Rightarrow> string) \<Rightarrow> sink_errors \<Rightarrow> int \<Rightarrow> int \<Rightarrow> string \<Rightarrow> diagnostic_options \<Rightarrow>
     diagnostic_state diagnostic_result option" where
  "diagnostic_state_init profiling fs dump err pid now application options =
     (let dg = \<lparr>dg_failed = False, dg_log = False, dg_trace = False,
                dg_origin = (if profiling \<and> dn_trace_file options \<noteq> [] then now else 0),
                dg_threads = [], dg_event_limit = dn_trace_event_limit options, dg_active = 0, dg_admitted = 0,
                dg_dropped = 0, dg_first_event = True, dg_trace_enabled = False, dg_closing = False,
                dg_log_lines = [], dg_trace_lines = []\<rparr> in
      case validate_paths fs options of
        Inl e \<Rightarrow> Some (Inl e)
      | Inr _ \<Rightarrow>
        case (if dn_log_file options = [] then None
              else fs_rotating_sink fs (dn_log_file options) log_file_bytes rotated_log_files) of
          Some e \<Rightarrow> Some (Inl e)
        | None \<Rightarrow>
          let dg = dg\<lparr>dg_log := dn_log_file options \<noteq> []\<rparr> in
          if \<not> profiling \<or> dn_trace_file options = [] then Some (Inr dg)
          else case fs_basic_sink fs (dn_trace_file options) of
            Some e \<Rightarrow> Some (Inl e)
          | None \<Rightarrow>
            map_option (\<lambda>dg. Inr (dg\<lparr>dg_trace_enabled := True\<rparr>))
              (write_event dump err (process_event pid application)
                 (trace_line err trace_header (dg\<lparr>dg_trace := True\<rparr>))))"

subsection \<open>Operations\<close>

definition state_log :: "sink_errors \<Rightarrow> log_level \<Rightarrow> string \<Rightarrow> diagnostic_state \<Rightarrow> diagnostic_state" where
  "state_log err level message dg =
     (if dg_log dg \<and> \<not> dg_closing dg
      then reported (err Log_write) (dg\<lparr>dg_log_lines := dg_log_lines dg @ [(native_level level, message)]\<rparr>)
      else dg)"

definition begin_scope :: "nat \<Rightarrow> diagnostic_state \<Rightarrow> u64 option \<times> diagnostic_state" where
  "begin_scope identifier dg =
     (if \<not> dg_trace dg \<or> dg_closing dg \<or> dg_failed dg then (None, dg)
      else if dg_admitted dg \<ge> dg_event_limit dg then (None, dg\<lparr>dg_dropped := dg_dropped dg + 1\<rparr>)
      else
        let admit = (\<lambda>number dg. (Some number, dg\<lparr>dg_active := dg_active dg + 1, dg_admitted := dg_admitted dg + 1\<rparr>)) in
        case om_find (dg_threads dg) identifier of
          Some number \<Rightarrow> admit number dg
        | None \<Rightarrow>
          if length (dg_threads dg) \<ge> trace_thread_limit then (None, dg\<lparr>dg_dropped := dg_dropped dg + 1\<rparr>)
          else let number = of_nat (length (dg_threads dg) + 1)
               in admit number (dg\<lparr>dg_threads := om_emplace identifier number (dg_threads dg)\<rparr>))"

definition finalize :: "(json \<Rightarrow> string) \<Rightarrow> sink_errors \<Rightarrow> diagnostic_state \<Rightarrow> bool \<times> diagnostic_state" where
  "finalize dump err dg =
     (if dg_active dg \<noteq> 0 then (False, dg)
      else
        let dg = (if dg_trace dg
                  then (reported (err Trace_flush) (trace_line err (trace_footer dump (dg_dropped dg)) dg))\<lparr>dg_trace := False\<rparr>
                  else dg);
            dg = (if dg_log dg then (reported (err Log_flush) dg)\<lparr>dg_log := False\<rparr> else dg)
        in (\<not> dg_failed dg, dg))"

text \<open>
  \<open>duration_cast\<close> to microseconds truncates towards zero.
\<close>

definition microseconds :: "int \<Rightarrow> int" where
  "microseconds d = (if d \<ge> 0 then d div 1000 else - ((- d) div 1000))"

definition scope_event :: "int \<Rightarrow> int \<Rightarrow> string \<Rightarrow> u64 \<Rightarrow> int \<Rightarrow> int \<Rightarrow> json" where
  "scope_event origin pid name thread start stop =
     Json_object [(''name'', Json_string name), (''cat'', Json_string ''pipeforge''), (''ph'', Json_string ''X''),
       (''pid'', Json_number pid), (''tid'', Json_number (uint thread)),
       (''ts'', Json_number (microseconds (start - origin))), (''dur'', Json_number (microseconds (stop - start)))]"

definition end_scope ::
  "(json \<Rightarrow> string) \<Rightarrow> sink_errors \<Rightarrow> int \<Rightarrow> string \<Rightarrow> u64 \<Rightarrow> int \<Rightarrow> int \<Rightarrow> diagnostic_state \<Rightarrow> diagnostic_state option" where
  "end_scope dump err pid name thread start stop dg =
     (case write_event dump err (scope_event (dg_origin dg) pid name thread start stop) dg of
        None \<Rightarrow> None
      | Some dg \<Rightarrow>
        let dg = dg\<lparr>dg_active := dg_active dg - 1\<rparr>
        in Some (if dg_closing dg then snd (finalize dump err dg) else dg))"

definition state_finish :: "(json \<Rightarrow> string) \<Rightarrow> sink_errors \<Rightarrow> diagnostic_state \<Rightarrow> bool \<times> diagnostic_state" where
  "state_finish dump err dg = finalize dump err (dg\<lparr>dg_closing := True\<rparr>)"

subsection \<open>Sessions and scopes\<close>

text \<open>
  A session without files has no state.
\<close>

type_synonym diagnostic_session = "diagnostic_state option"

definition diagnostic_session_init ::
  "bool \<Rightarrow> file_system \<Rightarrow> (json \<Rightarrow> string) \<Rightarrow> sink_errors \<Rightarrow> int \<Rightarrow> int \<Rightarrow> string \<Rightarrow> diagnostic_options \<Rightarrow>
     diagnostic_session diagnostic_result option" where
  "diagnostic_session_init profiling fs dump err pid now application options =
     (if dn_log_file options = [] \<and> dn_trace_file options = [] then Some (Inr None)
      else case diagnostic_state_init profiling fs dump err pid now application options of
        None \<Rightarrow> None
      | Some (Inl e) \<Rightarrow> Some (Inl e)
      | Some (Inr dg) \<Rightarrow> Some (Inr (Some dg)))"

definition session_log :: "sink_errors \<Rightarrow> log_level \<Rightarrow> string \<Rightarrow> diagnostic_session \<Rightarrow> diagnostic_session" where
  "session_log err level message session = map_option (state_log err level message) session"

definition session_finish ::
  "(json \<Rightarrow> string) \<Rightarrow> sink_errors \<Rightarrow> diagnostic_session \<Rightarrow> bool \<times> diagnostic_session" where
  "session_finish dump err session =
     (case session of None \<Rightarrow> (True, None) | Some dg \<Rightarrow> apsnd Some (state_finish dump err dg))"

text \<open>
  The destructor.
\<close>

definition session_destroy :: "(json \<Rightarrow> string) \<Rightarrow> sink_errors \<Rightarrow> diagnostic_session \<Rightarrow> diagnostic_session" where
  "session_destroy dump err session = snd (session_finish dump err session)"

definition session_failed :: "diagnostic_session \<Rightarrow> bool" where
  "session_failed session = (case session of None \<Rightarrow> False | Some dg \<Rightarrow> dg_failed dg)"

record profile_scope =
  pf_name :: string
  pf_thread :: u64
  pf_start :: int

text \<open>
  A scope that was not admitted has no thread number and is \<^term>\<open>None\<close>; nothing happens at its end.
\<close>

definition scope_enter :: "nat \<Rightarrow> int \<Rightarrow> string \<Rightarrow> diagnostic_session \<Rightarrow> profile_scope option \<times> diagnostic_session" where
  "scope_enter identifier now name session =
     (case session of
        None \<Rightarrow> (None, session)
      | Some dg \<Rightarrow>
        if \<not> dg_trace_enabled dg then (None, session)
        else case begin_scope identifier dg of
          (None, dg) \<Rightarrow> (None, Some dg)
        | (Some thread, dg) \<Rightarrow>
            (Some \<lparr>pf_name = take profile_name_bytes name, pf_thread = thread, pf_start = now\<rparr>, Some dg))"

definition scope_leave ::
  "(json \<Rightarrow> string) \<Rightarrow> sink_errors \<Rightarrow> int \<Rightarrow> int \<Rightarrow> profile_scope option \<Rightarrow> diagnostic_session \<Rightarrow> diagnostic_session option" where
  "scope_leave dump err pid stop sc session =
     (case (sc, session) of
        (Some p, Some dg) \<Rightarrow> map_option Some (end_scope dump err pid (pf_name p) (pf_thread p) (pf_start p) stop dg)
      | (Some p, None) \<Rightarrow> None
      | (None, _) \<Rightarrow> Some session)"

end
