(* ===== verification/Application.thy ===== *)
theory Application
  imports Diagnostics Pipe_Server
begin

section \<open>The command line\<close>

text \<open>
  Models \<open>src/cli/application.cpp\<close>, \<open>src/cli/server_commands.cpp\<close>, \<open>include/pipeforge/application.hpp\<close>
  and the entry points under \<open>apps\<close>: parsing the arguments, running one command inside a
  diagnostic session, and the command that serves until it is told to stop.

  A console is what was written to the output and error streams and the lines that can still be
  read; the output device decides which text it still takes, and a stream that failed ignores what
  follows. A command may change a world
  of its own (the operating system), which is threaded through as the last argument. The result
  \<^term>\<open>None\<close> is that of theory \<open>Diagnostics\<close>.
\<close>

datatype application_command = Cmd_help | Cmd_version | Cmd_serve | Cmd_demo_sync | Cmd_demo_async | Cmd_demo_mixed

record invocation =
  iv_command :: application_command
  iv_endpoint :: wstring
  iv_timeout :: int
  iv_sessions :: nat

definition invocation_init :: invocation where
  "invocation_init =
     \<lparr>iv_command = Cmd_help, iv_endpoint = default_endpoint, iv_timeout = default_timeout, iv_sessions = max_sessions\<rparr>"

subsection \<open>Streams\<close>

record console =
  co_output :: string
  co_good :: bool
  co_errors :: string
  co_input :: "string list"

definition put_output :: "(string \<Rightarrow> bool) \<Rightarrow> string \<Rightarrow> console \<Rightarrow> console" where
  "put_output accepts text co =
     (if \<not> co_good co then co
      else if accepts (co_output co @ text) then co\<lparr>co_output := co_output co @ text\<rparr>
      else co\<lparr>co_good := False\<rparr>)"

definition put_error :: "string \<Rightarrow> console \<Rightarrow> console" where
  "put_error text co = co\<lparr>co_errors := co_errors co @ text\<rparr>"

definition ended :: "string \<Rightarrow> string" where
  "ended text = text @ [CHR 0x0A]"

subsection \<open>Parsing\<close>

definition commands :: "(string \<times> application_command) list" where
  "commands =
     [(''--help'', Cmd_help), (''--version'', Cmd_version), (''--serve'', Cmd_serve), (''--demo-sync'', Cmd_demo_sync),
      (''--demo-async'', Cmd_demo_async), (''--demo-mixed'', Cmd_demo_mixed)]"

definition value_options :: "string list" where
  "value_options = [''--log-file'', ''--trace-file'', ''--endpoint'', ''--timeout-ms'', ''--sessions'']"

text \<open>
  \<open>std::from_chars\<close> for an unsigned number: the digits at the beginning, if there are any and their
  value fits, and what follows them.
\<close>

definition is_digit :: "char \<Rightarrow> bool" where
  "is_digit c \<longleftrightarrow> 48 \<le> (of_char c :: nat) \<and> (of_char c :: nat) \<le> 57"

fun digits_from :: "nat \<Rightarrow> string \<Rightarrow> nat" where
  "digits_from n [] = n"
| "digits_from n (c # cs) = digits_from (10 * n + (of_char c - 48)) cs"

definition from_chars :: "string \<Rightarrow> (nat \<times> string) option" where
  "from_chars text =
     (let digits = takeWhile is_digit text in
      if digits = [] \<or> digits_from 0 digits \<ge> 2 ^ 32 then None
      else Some (digits_from 0 digits, dropWhile is_digit text))"

text \<open>
  Assigning a narrow string to a wide one extends the sign of every character.
\<close>

definition widened :: "string \<Rightarrow> wstring" where
  "widened text = map (\<lambda>c. scast (of_nat (of_char c) :: 8 word)) text"

record parsing =
  pa_options :: invocation
  pa_has_command :: bool
  pa_supplied :: "string list"
  pa_diagnostics :: diagnostic_options

definition parsing_init :: parsing where
  "parsing_init =
     \<lparr>pa_options = invocation_init, pa_has_command = False, pa_supplied = [], pa_diagnostics = diagnostic_options_init\<rparr>"

definition parse_option :: "string \<Rightarrow> string \<Rightarrow> parsing \<Rightarrow> string + parsing" where
  "parse_option argument v pa =
     (if argument = ''--log-file'' then Inr (pa\<lparr>pa_diagnostics := (pa_diagnostics pa)\<lparr>dn_log_file := v\<rparr>\<rparr>)
      else if argument = ''--trace-file'' then Inr (pa\<lparr>pa_diagnostics := (pa_diagnostics pa)\<lparr>dn_trace_file := v\<rparr>\<rparr>)
      else if argument = ''--endpoint'' then
        if \<not> valid_endpoint (widened v) then Inl (ended ''Endpoint must be a bounded local named-pipe name.'')
        else Inr (pa\<lparr>pa_options := (pa_options pa)\<lparr>iv_endpoint := widened v\<rparr>\<rparr>)
      else case from_chars v of
        None \<Rightarrow> Inl (ended ''Numeric options require unsigned decimal integers.'')
      | Some (number, rest) \<Rightarrow>
        if rest \<noteq> [] then Inl (ended ''Numeric options require unsigned decimal integers.'')
        else if argument = ''--sessions'' then
          if number = 0 \<or> number > max_sessions then Inl (ended ''Session count is outside the supported bounds.'')
          else Inr (pa\<lparr>pa_options := (pa_options pa)\<lparr>iv_sessions := number\<rparr>\<rparr>)
        else if int number < minimum_timeout \<or> int number > maximum_timeout
          then Inl (ended ''Timeout is outside the supported bounds.'')
          else Inr (pa\<lparr>pa_options := (pa_options pa)\<lparr>iv_timeout := int number\<rparr>\<rparr>))"

fun parse_arguments :: "string list \<Rightarrow> parsing \<Rightarrow> string + parsing" where
  "parse_arguments [] pa = Inr pa"
| "parse_arguments (argument # others) pa =
     (case map_of commands argument of
        Some command \<Rightarrow>
          if pa_has_command pa then Inl (ended ''Exactly one command is required.'')
          else parse_arguments others
                 (pa\<lparr>pa_has_command := True, pa_options := (pa_options pa)\<lparr>iv_command := command\<rparr>\<rparr>)
      | None \<Rightarrow>
        if argument \<notin> set value_options
        then Inl (ended ''Unsupported arguments. Use --help for available options.'')
        else case others of
          [] \<Rightarrow> Inl (ended ''Options require one unique value.'')
        | v # later \<Rightarrow>
          if argument \<in> set (pa_supplied pa) \<or> v = [] \<or> take 2 v = ''--''
          then Inl (ended ''Options require one unique value.'')
          else case parse_option argument v (pa\<lparr>pa_supplied := argument # pa_supplied pa\<rparr>) of
            Inl e \<Rightarrow> Inl e
          | Inr pa \<Rightarrow> parse_arguments later pa)"

definition runtime_command :: "application_command \<Rightarrow> bool" where
  "runtime_command command \<longleftrightarrow> command \<noteq> Cmd_help \<and> command \<noteq> Cmd_version"

definition parse_command_line :: "string \<Rightarrow> string list \<Rightarrow> string + (invocation \<times> diagnostic_options)" where
  "parse_command_line name arguments =
     (case parse_arguments arguments parsing_init of
        Inl e \<Rightarrow> Inl e
      | Inr pa \<Rightarrow>
        let supplied = set (pa_supplied pa); command = iv_command (pa_options pa); runtime = runtime_command command in
        if \<not> pa_has_command pa then Inl (ended ''A command is required. Use --help for available options.'')
        else if \<not> runtime \<and> (''--endpoint'' \<in> supplied \<or> ''--timeout-ms'' \<in> supplied \<or> ''--sessions'' \<in> supplied) \<or>
                runtime \<and> (command = Cmd_serve) \<noteq> (name = ''pipeforge-server'') \<or>
                ''--sessions'' \<in> supplied \<and> command \<noteq> Cmd_serve
        then Inl (ended ''Command/options do not apply to this executable.'')
        else Inr (pa_options pa, pa_diagnostics pa))"

subsection \<open>Running one command\<close>

text \<open>
  The build (whether profiling is compiled in, the version) and the surroundings of a process: the
  diagnostics' arguments, with the clock readings and sink errors in the order of the calls, and
  the output device.
\<close>

record surroundings =
  su_profiling :: bool
  su_version :: string
  su_files :: file_system
  su_dump :: "json \<Rightarrow> string"
  su_pid :: int
  su_thread :: nat
  su_now :: "nat \<Rightarrow> int"
  su_errors :: "nat \<Rightarrow> sink_errors"
  su_accepts :: "string \<Rightarrow> bool"

definition usage_text :: "bool \<Rightarrow> string \<Rightarrow> string" where
  "usage_text profiling name =
     ''Usage: '' @ name @ ended '' [--log-file PATH] [--trace-file PATH] COMMAND [OPTIONS]'' @
     ''Commands: --help, --version, '' @
     ended (if name = ''pipeforge-server'' then ''--serve'' else ''--demo-sync, --demo-async, --demo-mixed'') @
     ended ''Options: --endpoint LOCAL_PIPE --timeout-ms 10..60000; server: --sessions 1..4'' @
     ended ''Server: type stop or close stdin for graceful shutdown.'' @
     ended (''Profiling: '' @ (if profiling then ''enabled'' else ''disabled'')) @
     ended (''Protocol: '' @ decimal (unat supported_version) @ '' (Protobuf)'') @
     ended ''Runtime IPC commands require Windows x64.''"

definition print_command ::
  "surroundings \<Rightarrow> string \<Rightarrow> application_command \<Rightarrow> console \<Rightarrow> diagnostic_session \<Rightarrow>
     (int \<times> console \<times> diagnostic_session) option" where
  "print_command su name command co session =
     (let (sc, session) = scope_enter (su_thread su) (su_now su 3) ''print_command'' session;
          co = put_output (su_accepts su)
                 (if command = Cmd_version then ended (name @ '' '' @ su_version su) else usage_text (su_profiling su) name) co
      in map_option (\<lambda>session. (0, co, session)) (scope_leave (su_dump su) (su_errors su 5) (su_pid su) (su_now su 4) sc session))"

type_synonym 'w command_handler =
  "invocation \<Rightarrow> console \<Rightarrow> diagnostic_session \<Rightarrow> 'w \<Rightarrow> (int \<times> console \<times> diagnostic_session \<times> 'w) option"

definition run_command ::
  "surroundings \<Rightarrow> string \<Rightarrow> 'w command_handler option \<Rightarrow> invocation \<Rightarrow> console \<Rightarrow> diagnostic_session \<Rightarrow> 'w \<Rightarrow>
     (int \<times> console \<times> diagnostic_session \<times> 'w) option" where
  "run_command su name handler iv co session world =
     (if runtime_command (iv_command iv) then the handler iv co session world
      else map_option (\<lambda>(code, co, session). (code, co, session, world)) (print_command su name (iv_command iv) co session))"

definition run_application ::
  "surroundings \<Rightarrow> string \<Rightarrow> string list \<Rightarrow> 'w command_handler option \<Rightarrow> console \<Rightarrow> 'w \<Rightarrow> (int \<times> console \<times> 'w) option" where
  "run_application su name arguments handler co world =
     (case parse_command_line name arguments of
        Inl e \<Rightarrow> Some (2, put_error e co, world)
      | Inr (iv, options) \<Rightarrow>
        if runtime_command (iv_command iv) \<and> handler = None
        then Some (2, put_error (ended ''Runtime IPC commands require Windows x64.'') co, world)
        else if \<not> su_profiling su \<and> dn_trace_file options \<noteq> []
        then Some (2, put_error (ended ''Profiling is disabled in this build.'') co, world)
        else case diagnostic_session_init (su_profiling su) (su_files su) (su_dump su) (su_errors su 0) (su_pid su)
                    (su_now su 0) name options of
          None \<Rightarrow> None
        | Some (Inl e) \<Rightarrow> Some (1, put_error (ended (''Diagnostics I/O error: '' @ e)) co, world)
        | Some (Inr session) \<Rightarrow>
          let (sc, session) = scope_enter (su_thread su) (su_now su 1) ''cli.command'' session;
              session = session_log (su_errors su 1) Log_info ''Command started'' session in
          case run_command su name handler iv co session world of
            None \<Rightarrow> None
          | Some (code, co, session, world) \<Rightarrow>
            let session = session_log (su_errors su 2) Log_info ''Command completed'' session in
            case scope_leave (su_dump su) (su_errors su 3) (su_pid su) (su_now su 2) sc session of
              None \<Rightarrow> None
            | Some session \<Rightarrow>
              let (finished, session) = session_finish (su_dump su) (su_errors su 4) session in
              if \<not> finished
              then Some (1, put_error (ended ''Diagnostics I/O failed while writing output.'') co, world)
              else Some (code, co, world))"

text \<open>
  The entry points pass on the arguments without the program's name; the handler is missing on
  other platforms.
\<close>

definition client_main ::
  "surroundings \<Rightarrow> string list \<Rightarrow> 'w command_handler option \<Rightarrow> console \<Rightarrow> 'w \<Rightarrow> (int \<times> console \<times> 'w) option" where
  "client_main su argv handler co world = run_application su ''pipeforge-client'' (drop 1 argv) handler co world"

definition server_main ::
  "surroundings \<Rightarrow> string list \<Rightarrow> 'w command_handler option \<Rightarrow> console \<Rightarrow> 'w \<Rightarrow> (int \<times> console \<times> 'w) option" where
  "server_main su argv handler co world = run_application su ''pipeforge-server'' (drop 1 argv) handler co world"

subsection \<open>Serving\<close>

text \<open>
  The lines of the standard input until one asks to stop; the rest is not read.
\<close>

fun await_stop :: "string list \<Rightarrow> string list" where
  "await_stop [] = []"
| "await_stop (line # lines) = (if line = ''stop'' \<or> line = [] then lines else await_stop lines)"

text \<open>
  \<open>serve\<close> tells the state the workers have reached when \<open>stop\<close> has joined them, from the registry they
  serve and their pipes; the counters are read from it.
\<close>

definition default_limits :: session_limits where
  "default_limits = \<lparr>lim_values = max_stored_values, lim_objects = max_stored_objects, lim_bytes = max_session_bytes\<rparr>"

definition run_server_command ::
  "(string \<Rightarrow> bool) \<Rightarrow> 'k win32 \<Rightarrow> (string \<Rightarrow> bool) \<Rightarrow> bool \<Rightarrow>
     (builtin_object class_registry \<Rightarrow> unique_handle list \<Rightarrow> (builtin_object, 'k) server) \<Rightarrow>
     invocation \<Rightarrow> console \<Rightarrow> 'k \<Rightarrow> int \<times> console \<times> 'k" where
  "run_server_command utf8 w accepts input_bad serve iv co s =
     (let (registry, e1) = registry_add [] (counter_definition utf8);
          (registry, e2) = (if e1 = None then registry_add registry (text_buffer_definition utf8) else (registry, e1)) in
      if e2 \<noteq> None then (1, put_error (ended ''Built-in class registration failed.'') co, s)
      else case server_start w \<lparr>sp_endpoint = iv_endpoint iv, sp_request_timeout = iv_timeout iv,
                  sp_sessions = iv_sessions iv, sp_storage = default_limits\<rparr> s of
        (Inl e, s) \<Rightarrow>
          (1, put_error (ended (''Server startup failed kind='' @ decimal (kind_number (tf_kind e)) @
                '' native='' @ decimal (unat (tf_native_error e)))) co, s)
      | (Inr pipes, s) \<Rightarrow>
          let co = put_output accepts (ended (''READY '' @ map (\<lambda>c. char_of (unat c)) (iv_endpoint iv))) co in
          if \<not> co_good co then (1, co, server_stop w pipes s)
          else
            let co = co\<lparr>co_input := await_stop (co_input co)\<rparr>;
                s = server_stop w pipes s;
                co = put_output accepts (ended (''STOPPED connections='' @
                       decimal (unat (sn_connections (statistics (serve registry pipes)))))) co
            in (if input_bad \<or> \<not> co_good co then 1 else 0, co, s))"

end
