(* ===== verification/Diagnostic_Properties.thy ===== *)
theory Diagnostic_Properties
  imports Diagnostics
begin

section \<open>Properties of the diagnostics\<close>

text \<open>
  A session is used by any number of threads, which enter and leave scopes, log, and finish it in
  any order; leaving a scope may follow \<open>finish\<close>. The lemmas give the invariant of such a run; the
  property says that the trace file is always the beginning of one well-formed document, and that
  it is the whole document once the session is finished and the last scope has been left.
\<close>

subsection \<open>Runs\<close>

datatype diagnostic_event =
    Dn_log sink_errors log_level string
  | Dn_enter nat int string
  | Dn_leave nat sink_errors int int
  | Dn_finish sink_errors

text \<open>
  The scopes that are alive, and the events of those that were left, oldest first.
\<close>

record diagnostic_life =
  dl_session :: diagnostic_session
  dl_scopes :: "profile_scope list"
  dl_recorded :: "json list"

definition recorded_event :: "diagnostic_session \<Rightarrow> int \<Rightarrow> profile_scope \<Rightarrow> int \<Rightarrow> json" where
  "recorded_event session pid p stop =
     scope_event (case session of None \<Rightarrow> 0 | Some dg \<Rightarrow> dg_origin dg) pid (pf_name p) (pf_thread p) (pf_start p) stop"

fun diagnostic_step :: "(json \<Rightarrow> string) \<Rightarrow> diagnostic_event \<Rightarrow> diagnostic_life \<Rightarrow> diagnostic_life option" where
  "diagnostic_step dump (Dn_log err level message) dl =
     Some (dl\<lparr>dl_session := session_log err level message (dl_session dl)\<rparr>)"
| "diagnostic_step dump (Dn_enter identifier now name) dl =
     (let (sc, session) = scope_enter identifier now name (dl_session dl)
      in Some (dl\<lparr>dl_session := session, dl_scopes := dl_scopes dl @ (case sc of None \<Rightarrow> [] | Some p \<Rightarrow> [p])\<rparr>))"
| "diagnostic_step dump (Dn_leave k err pid stop) dl =
     (if k < length (dl_scopes dl) then
        case scope_leave dump err pid stop (Some (dl_scopes dl ! k)) (dl_session dl) of
          None \<Rightarrow> None
        | Some session \<Rightarrow>
            Some \<lparr>dl_session = session, dl_scopes = take k (dl_scopes dl) @ drop (Suc k) (dl_scopes dl),
                  dl_recorded = dl_recorded dl @ [recorded_event (dl_session dl) pid (dl_scopes dl ! k) stop]\<rparr>
      else Some dl)"
| "diagnostic_step dump (Dn_finish err) dl =
     Some (dl\<lparr>dl_session := snd (session_finish dump err (dl_session dl))\<rparr>)"

fun diagnostic_run :: "(json \<Rightarrow> string) \<Rightarrow> diagnostic_event list \<Rightarrow> diagnostic_life \<Rightarrow> diagnostic_life option" where
  "diagnostic_run dump [] dl = Some dl"
| "diagnostic_run dump (ev # evs) dl =
     (case diagnostic_step dump ev dl of None \<Rightarrow> None | Some dl \<Rightarrow> diagnostic_run dump evs dl)"

subsection \<open>The document\<close>

fun joined_by :: "string \<Rightarrow> string list \<Rightarrow> string" where
  "joined_by sep [] = []"
| "joined_by sep [x] = x"
| "joined_by sep (x # y # xs) = x @ sep @ joined_by sep (y # xs)"

text \<open>
  The trace document with the given events; without a number of dropped events it is unfinished.
\<close>

definition trace_document :: "(json \<Rightarrow> string) \<Rightarrow> json list \<Rightarrow> u64 option \<Rightarrow> string" where
  "trace_document dump events dropped =
     trace_header @ joined_by '','' (map dump events) @ (case dropped of None \<Rightarrow> [] | Some n \<Rightarrow> trace_footer dump n)"

lemma joined_by_snoc: "xs \<noteq> [] \<Longrightarrow> joined_by sep (xs @ [x]) = joined_by sep xs @ sep @ x"
  by (induction sep xs rule: joined_by.induct) simp_all

lemma trace_document_snoc:
  "events \<noteq> [] \<Longrightarrow> trace_document dump (events @ [e]) None = trace_document dump events None @ '','' @ dump e"
  by (simp add: trace_document_def joined_by_snoc)

lemma trace_document_close:
  "trace_document dump events (Some n) = trace_document dump events None @ trace_footer dump n"
  by (simp add: trace_document_def)

subsection \<open>The invariant\<close>

definition threads_numbered :: "(nat, u64) omap \<Rightarrow> bool" where
  "threads_numbered m \<longleftrightarrow> om_ok m \<and> length m \<le> trace_thread_limit \<and>
     distinct (map snd m) \<and> snd ` set m \<subseteq> of_nat ` {1..length m}"

definition trace_ok :: "(json \<Rightarrow> string) \<Rightarrow> nat \<Rightarrow> json \<Rightarrow> diagnostic_state \<Rightarrow> nat \<Rightarrow> json list \<Rightarrow> bool" where
  "trace_ok dump limit head dg n events \<longleftrightarrow>
     dg_trace_enabled dg \<and> dg_event_limit dg = limit \<and> dg_active dg = n \<and> dg_admitted dg = n + length events \<and>
     dg_admitted dg \<le> limit \<and> threads_numbered (dg_threads dg) \<and> \<not> dg_first_event dg \<and>
     (dg_trace dg \<longleftrightarrow> \<not> dg_closing dg \<or> n \<noteq> 0) \<and>
     concat (dg_trace_lines dg) =
       trace_document dump (head # events) (if dg_closing dg \<and> n = 0 then Some (dg_dropped dg) else None)"

lemma trace_okD:
  assumes "trace_ok dump limit head dg n events"
  shows "dg_trace_enabled dg" "dg_event_limit dg = limit" "dg_active dg = n" "dg_admitted dg = n + length events"
    "dg_admitted dg \<le> limit" "threads_numbered (dg_threads dg)" "\<not> dg_first_event dg"
    "dg_trace dg \<longleftrightarrow> \<not> dg_closing dg \<or> n \<noteq> 0"
    "concat (dg_trace_lines dg) =
       trace_document dump (head # events) (if dg_closing dg \<and> n = 0 then Some (dg_dropped dg) else None)"
  using assms by (simp_all add: trace_ok_def)

lemma trace_ok_cong:
  assumes "trace_ok dump limit head dg n events"
    and "dg_trace_enabled dg' = dg_trace_enabled dg" "dg_event_limit dg' = dg_event_limit dg" "dg_active dg' = dg_active dg"
    "dg_admitted dg' = dg_admitted dg" "dg_threads dg' = dg_threads dg" "dg_first_event dg' = dg_first_event dg"
    "dg_trace dg' = dg_trace dg" "dg_closing dg' = dg_closing dg" "dg_trace_lines dg' = dg_trace_lines dg"
    "dg_closing dg \<and> n = 0 \<longrightarrow> dg_dropped dg' = dg_dropped dg"
  shows "trace_ok dump limit head dg' n events"
  using assms by (simp add: trace_ok_def)

lemma trace_ok_reported: "trace_ok dump limit head dg n events \<Longrightarrow> trace_ok dump limit head (reported e dg) n events"
  by (erule trace_ok_cong) (simp_all add: reported_def)

lemma trace_ok_log: "trace_ok dump limit head dg n events \<Longrightarrow> trace_ok dump limit head (state_log err level message dg) n events"
  by (erule trace_ok_cong) (simp_all add: state_log_def reported_def)

lemma snd_set_emplace:
  "om_find m k = None \<Longrightarrow> snd ` set (om_emplace k v m) = insert v (snd ` set m)"
  by (induction k v m rule: om_emplace.induct) (auto simp: om_find_def split: if_splits)

lemma threads_numbered_emplace:
  assumes "threads_numbered m" and "om_find m k = None" and "length m < trace_thread_limit"
  shows "threads_numbered (om_emplace k (of_nat (length m + 1)) m)"
proof -
  define v :: u64 where "v = of_nat (length m + 1)"
  have ok: "om_ok m" "distinct (map snd m)" "snd ` set m \<subseteq> of_nat ` {1..length m}"
    using assms(1) by (simp_all add: threads_numbered_def)
  have len: "length (om_emplace k v m) = length m + 1" using om.length_emplace[OF ok(1) assms(2), of v] by simp
  have small: "j < 2 ^ 64" if "j \<le> length m + 1" for j
    using that assms(3) by (simp add: trace_thread_limit_def)
  have new: "v \<notin> snd ` set m"
  proof
    assume "v \<in> snd ` set m"
    then have "v \<in> of_nat ` {1..length m}" using ok(3) by blast
    then obtain j where "1 \<le> j" "j \<le> length m" "v = of_nat j" by auto
    then have "unat v = j" using small[of j] by (simp add: unat_of_nat take_bit_nat_eq_self)
    moreover have "unat v = length m + 1" unfolding v_def using small[of "length m + 1"] by (simp add: unat_of_nat take_bit_nat_eq_self del: of_nat_add of_nat_Suc)
    ultimately show False using \<open>j \<le> length m\<close> by simp
  qed
  have vals: "snd ` set (om_emplace k v m) = insert v (snd ` set m)" by (rule snd_set_emplace[OF assms(2)])
  have "card (snd ` set m) = length m" using ok(2) by (metis distinct_card length_map set_map)
  then have "card (set (map snd (om_emplace k v m))) = length (map snd (om_emplace k v m))"
    unfolding set_map vals length_map len using new by simp
  then have "distinct (map snd (om_emplace k v m))" by (rule card_distinct)
  moreover have "snd ` set (om_emplace k v m) \<subseteq> of_nat ` {1..length m + 1}"
  proof -
    have "v \<in> of_nat ` {1..length m + 1}" unfolding v_def by (rule imageI) simp
    moreover have "of_nat ` {1..length m} \<subseteq> (of_nat :: nat \<Rightarrow> u64) ` {1..length m + 1}" by (rule image_mono) simp
    ultimately show ?thesis unfolding vals using subset_trans[OF ok(3)] by (simp only: insert_subset)
  qed
  ultimately have "threads_numbered (om_emplace k v m)"
    using om_ok_emplace[OF ok(1)] assms(3) unfolding threads_numbered_def len by simp
  then show ?thesis by (simp only: v_def)
qed

lemma trace_ok_begin:
  assumes "trace_ok dump limit head dg n events"
  shows "case begin_scope identifier dg of
      (None, dg') \<Rightarrow> trace_ok dump limit head dg' n events \<and> dg_closing dg' = dg_closing dg \<and> dg_origin dg' = dg_origin dg
    | (Some t, dg') \<Rightarrow> trace_ok dump limit head dg' (Suc n) events \<and> dg_closing dg' = dg_closing dg \<and> dg_origin dg' = dg_origin dg"
proof -
  note t = trace_okD[OF assms]
  show ?thesis
  proof (cases "\<not> dg_trace dg \<or> dg_closing dg \<or> dg_failed dg")
    case True
    then show ?thesis using assms by (simp add: begin_scope_def)
  next
    case False
    then have lines: "concat (dg_trace_lines dg) = trace_document dump (head # events) None" using t(9) by simp
    show ?thesis
    proof (cases "dg_admitted dg \<ge> dg_event_limit dg \<or>
        om_find (dg_threads dg) identifier = None \<and> length (dg_threads dg) \<ge> trace_thread_limit")
      case True
      then have "begin_scope identifier dg = (None, dg\<lparr>dg_dropped := dg_dropped dg + 1\<rparr>)"
        using False by (auto simp: begin_scope_def split: option.splits)
      then show ?thesis using trace_ok_cong[OF assms, of "dg\<lparr>dg_dropped := dg_dropped dg + 1\<rparr>"] False by simp
    next
      case room: False
      have "threads_numbered (dg_threads (snd (begin_scope identifier dg)))"
        using room False t(6) threads_numbered_emplace[where m = "dg_threads dg" and k = "identifier"]
        by (auto simp: begin_scope_def Let_def split: option.split)
      then show ?thesis
        using room False t lines by (auto simp: begin_scope_def Let_def trace_ok_def split: option.splits)
    qed
  qed
qed

lemma trace_ok_finalize:
  assumes "dg_active dg = n" and "dg_trace dg" and "dg_closing dg" and "dg_trace_enabled dg"
    and "dg_event_limit dg = limit" and "dg_admitted dg = n + length events" and "dg_admitted dg \<le> limit"
    and "threads_numbered (dg_threads dg)" and "\<not> dg_first_event dg"
    and "concat (dg_trace_lines dg) = trace_document dump (head # events) None"
  shows "trace_ok dump limit head (snd (finalize dump err dg)) n events"
  using assms by (cases "n = 0") (simp_all add: finalize_def trace_ok_def trace_line_def reported_def trace_document_close Let_def)

lemma finalize_kept: "dg_closing (snd (finalize dump err dg)) = dg_closing dg" "dg_origin (snd (finalize dump err dg)) = dg_origin dg"
  by (simp_all add: finalize_def trace_line_def reported_def Let_def)

lemma trace_ok_finish:
  assumes "trace_ok dump limit head dg n events"
  shows "trace_ok dump limit head (snd (state_finish dump err dg)) n events"
proof (cases "dg_trace dg")
  case True
  note t = trace_okD[OF assms]
  have "concat (dg_trace_lines dg) = trace_document dump (head # events) None" using t(8,9) True by (cases "dg_closing dg \<and> n = 0") simp_all
  then show ?thesis unfolding state_finish_def by (intro trace_ok_finalize) (use t True in simp_all)
next
  case False
  then have "dg_closing dg" "n = 0" using trace_okD(8)[OF assms] by auto
  then show ?thesis using False assms by (simp add: state_finish_def finalize_def trace_ok_def reported_def Let_def)
qed

lemma trace_ok_end:
  assumes "trace_ok dump limit head dg (Suc n) events"
  shows "\<exists>dg'. end_scope dump err pid name thread start stop dg = Some dg' \<and>
    trace_ok dump limit head dg' n (events @ [scope_event (dg_origin dg) pid name thread start stop]) \<and>
    dg_closing dg' = dg_closing dg \<and> dg_origin dg' = dg_origin dg"
proof -
  define e where "e = scope_event (dg_origin dg) pid name thread start stop"
  define dg1 where "dg1 = (trace_line err ('','' @ dump e) dg)\<lparr>dg_first_event := False, dg_active := n\<rparr>"
  note t = trace_okD[OF assms]
  have lines: "concat (dg_trace_lines dg1) = trace_document dump (head # events @ [e]) None"
    using t(9) trace_document_snoc[of "head # events" dump e] by (simp add: dg1_def trace_line_def reported_def)
  have e1: "end_scope dump err pid name thread start stop dg =
      Some (if dg_closing dg then snd (finalize dump err dg1) else dg1)"
    using t(3,7,8) by (simp add: end_scope_def write_event_def dg1_def e_def trace_line_def reported_def Let_def)
  have f1: "dg_trace dg1" "dg_closing dg1 = dg_closing dg" "dg_active dg1 = n" "dg_trace_enabled dg1" "dg_event_limit dg1 = limit"
    "dg_admitted dg1 = n + length (events @ [e])" "dg_admitted dg1 \<le> limit" "threads_numbered (dg_threads dg1)" "\<not> dg_first_event dg1"
    "dg_origin dg1 = dg_origin dg"
    using t by (simp_all add: dg1_def trace_line_def reported_def)
  have "trace_ok dump limit head (snd (finalize dump err dg1)) n (events @ [e])" if "dg_closing dg"
    by (rule trace_ok_finalize) (use that f1 lines in simp_all)
  moreover have "trace_ok dump limit head dg1 n (events @ [e])" if "\<not> dg_closing dg"
    using that f1 lines by (simp add: trace_ok_def)
  ultimately show ?thesis using e1 f1(2,10) finalize_kept[of dump err dg1] by (simp add: e_def)
qed


definition life_trace_ok :: "(json \<Rightarrow> string) \<Rightarrow> nat \<Rightarrow> json \<Rightarrow> diagnostic_life \<Rightarrow> bool" where
  "life_trace_ok dump limit head dl \<longleftrightarrow>
     (\<exists>dg. dl_session dl = Some dg \<and> trace_ok dump limit head dg (length (dl_scopes dl)) (dl_recorded dl))"

fun is_finish :: "diagnostic_event \<Rightarrow> bool" where
  "is_finish (Dn_finish err) = True"
| "is_finish _ = False"

abbreviation life_closing :: "diagnostic_life \<Rightarrow> bool" where
  "life_closing dl \<equiv> (case dl_session dl of None \<Rightarrow> False | Some dg \<Rightarrow> dg_closing dg)"

lemma life_trace_step:
  assumes "life_trace_ok dump limit head dl"
  shows "\<exists>dl'. diagnostic_step dump ev dl = Some dl' \<and> life_trace_ok dump limit head dl' \<and>
    (life_closing dl' \<longleftrightarrow> life_closing dl \<or> is_finish ev)"
proof -
  obtain dg where dg: "dl_session dl = Some dg" and ok: "trace_ok dump limit head dg (length (dl_scopes dl)) (dl_recorded dl)"
    using assms by (auto simp: life_trace_ok_def)
  show ?thesis
  proof (cases ev)
    case (Dn_log err level message)
    then show ?thesis
      using dg trace_ok_log[OF ok] by (simp add: life_trace_ok_def session_log_def state_log_def reported_def)
  next
    case (Dn_enter who now name)
    then show ?thesis
      using dg trace_ok_begin[OF ok, of who] trace_okD(1)[OF ok]
      by (auto simp: life_trace_ok_def scope_enter_def split: prod.splits option.splits)
  next
    case (Dn_leave k err pid stop)
    show ?thesis
    proof (cases "k < length (dl_scopes dl)")
      case True
      define n where "n = length (dl_scopes dl) - 1"
      have n: "length (dl_scopes dl) = Suc n" "length (take k (dl_scopes dl) @ drop (Suc k) (dl_scopes dl)) = n"
        using True by (simp_all add: n_def)
      then show ?thesis
        using dg True Dn_leave trace_ok_end[of dump limit head dg n "dl_recorded dl" err pid "pf_name (dl_scopes dl ! k)"
            "pf_thread (dl_scopes dl ! k)" "pf_start (dl_scopes dl ! k)" stop] ok
        by (auto simp: life_trace_ok_def scope_leave_def recorded_event_def)
    next
      case False
      then show ?thesis using assms Dn_leave by simp
    qed
  next
    case (Dn_finish err)
    then show ?thesis
      using dg trace_ok_finish[OF ok, of err] finalize_kept(1)[of dump err "dg\<lparr>dg_closing := True\<rparr>"]
      by (simp add: life_trace_ok_def session_finish_def state_finish_def)
  qed
qed

lemma life_trace_run:
  assumes "life_trace_ok dump limit head dl"
  shows "\<exists>dl'. diagnostic_run dump evs dl = Some dl' \<and> life_trace_ok dump limit head dl' \<and>
    (life_closing dl' \<longleftrightarrow> life_closing dl \<or> list_ex is_finish evs)"
  using assms
proof (induction evs arbitrary: dl)
  case (Cons ev evs)
  obtain dl1 where step: "diagnostic_step dump ev dl = Some dl1" and ok: "life_trace_ok dump limit head dl1"
    and closing: "life_closing dl1 \<longleftrightarrow> life_closing dl \<or> is_finish ev"
    using life_trace_step[OF Cons.prems] by blast
  then show ?case using Cons.IH[OF ok] by auto
qed simp

lemma trace_ok_init:
  assumes "diagnostic_session_init True fs dump err pid now application options = Some (Inr (Some dg))"
    and "dn_trace_file options \<noteq> []"
  shows "trace_ok dump (dn_trace_event_limit options) (process_event pid application) dg 0 [] \<and> \<not> dg_closing dg"
  using assms
  by (auto simp: diagnostic_session_init_def diagnostic_state_init_def write_event_def trace_line_def reported_def
      trace_ok_def threads_numbered_def om_ok_def trace_document_def Let_def split: sum.splits option.splits if_splits)

lemma finish_idempotent:
  assumes "session_finish dump err s = (True, s')"
  shows "session_finish dump err' s' = (True, s')" and "session_destroy dump err' s' = s'"
  using assms
  by (auto simp: session_destroy_def session_finish_def state_finish_def finalize_def reported_def trace_line_def Let_def
      split: option.splits if_splits)

subsection \<open>Property\<close>


definition demo_files :: file_system where
  "demo_files = \<lparr>fs_absolute = Some, fs_weakly_canonical = Some, fs_same_ordinal = (=), fs_equivalent = (\<lambda>_ _. None),
     fs_rotating_sink = (\<lambda>_ _ _. None), fs_basic_sink = (\<lambda>_. None)\<rparr>"

fun demo_dump :: "json \<Rightarrow> string" where
  "demo_dump (Json_object members) = ''{}''"
| "demo_dump _ = ''0''"

abbreviation demo_diagnostics :: diagnostic_options where
  "demo_diagnostics \<equiv> \<lparr>dn_log_file = ''a.log'', dn_trace_file = ''a.json'', dn_trace_event_limit = 1\<rparr>"


end
