(* ===== verification/Application_Properties.thy ===== *)
theory Application_Properties
  imports Application Diagnostic_Properties
begin

section \<open>Properties of the command line\<close>

text \<open>
  What a command handler may rely on, what the exit code of a process means, and that every valid
  invocation can be written as a command line.
\<close>

definition valid_invocation :: "string \<Rightarrow> invocation \<Rightarrow> bool" where
  "valid_invocation name iv \<longleftrightarrow>
     valid_endpoint (iv_endpoint iv) \<and> minimum_timeout \<le> iv_timeout iv \<and> iv_timeout iv \<le> maximum_timeout \<and>
     1 \<le> iv_sessions iv \<and> iv_sessions iv \<le> max_sessions \<and>
     (if runtime_command (iv_command iv) then (iv_command iv = Cmd_serve) = (name = ''pipeforge-server'')
      else iv = invocation_init\<lparr>iv_command := iv_command iv\<rparr>) \<and>
     (iv_command iv \<noteq> Cmd_serve \<longrightarrow> iv_sessions iv = max_sessions)"

subsection \<open>Parsing is sound\<close>

definition options_ok :: "parsing \<Rightarrow> bool" where
  "options_ok pa \<longleftrightarrow>
     (let iv = pa_options pa in
      valid_endpoint (iv_endpoint iv) \<and> minimum_timeout \<le> iv_timeout iv \<and> iv_timeout iv \<le> maximum_timeout \<and>
      1 \<le> iv_sessions iv \<and> iv_sessions iv \<le> max_sessions \<and>
      (''--endpoint'' \<notin> set (pa_supplied pa) \<longrightarrow> iv_endpoint iv = default_endpoint) \<and>
      (''--timeout-ms'' \<notin> set (pa_supplied pa) \<longrightarrow> iv_timeout iv = default_timeout) \<and>
      (''--sessions'' \<notin> set (pa_supplied pa) \<longrightarrow> iv_sessions iv = max_sessions))"

lemma default_endpoint_valid: "valid_endpoint default_endpoint"
  by code_simp

lemma options_ok_init: "options_ok parsing_init"
  using default_endpoint_valid
  by (simp add: options_ok_def parsing_init_def invocation_init_def default_timeout_def minimum_timeout_def
      maximum_timeout_def max_sessions_def)

lemma options_ok_option:
  assumes "options_ok pa" and "argument \<in> set value_options"
    and "parse_option argument v (pa\<lparr>pa_supplied := argument # pa_supplied pa\<rparr>) = Inr pa'"
  shows "options_ok pa'"
  using assms
  by (auto simp: options_ok_def parse_option_def value_options_def Let_def split: if_splits option.splits prod.splits)

lemma options_ok_arguments:
  "parse_arguments args pa = Inr pa' \<Longrightarrow> options_ok pa \<Longrightarrow> options_ok pa'"
proof (induction args pa rule: parse_arguments.induct)
  case (2 argument others pa)
  show ?case
  proof (cases "map_of commands argument")
    case (Some command)
    have "options_ok (pa\<lparr>pa_has_command := True, pa_options := (pa_options pa)\<lparr>iv_command := command\<rparr>\<rparr>)"
      using "2.prems"(2) by (simp add: options_ok_def Let_def)
    then show ?thesis using "2.IH"(2)[OF Some] "2.prems"(1) Some by (simp split: if_splits)
  next
    case None
    obtain v later pa1 where "argument \<in> set value_options" "others = v # later"
      "\<not> (argument \<in> set (pa_supplied pa) \<or> v = [] \<or> take 2 v = ''--'')"
      "parse_option argument v (pa\<lparr>pa_supplied := argument # pa_supplied pa\<rparr>) = Inr pa1"
      "parse_arguments later pa1 = Inr pa'"
      using "2.prems"(1) None by (auto split: if_splits list.splits sum.splits)
    then show ?thesis using "2.IH"(1)[OF None] options_ok_option[OF "2.prems"(2)] by auto
  qed
qed simp

lemma parse_valid:
  assumes "parse_command_line name args = Inr (iv, d)"
  shows "valid_invocation name iv"
proof -
  obtain pa where pa: "parse_arguments args parsing_init = Inr pa" and iv: "iv = pa_options pa"
    and role: "\<not> (\<not> runtime_command (iv_command iv) \<and>
        (''--endpoint'' \<in> set (pa_supplied pa) \<or> ''--timeout-ms'' \<in> set (pa_supplied pa) \<or> ''--sessions'' \<in> set (pa_supplied pa)) \<or>
      runtime_command (iv_command iv) \<and> (iv_command iv = Cmd_serve) \<noteq> (name = ''pipeforge-server'') \<or>
      ''--sessions'' \<in> set (pa_supplied pa) \<and> iv_command iv \<noteq> Cmd_serve)"
    using assms by (auto simp: parse_command_line_def Let_def split: sum.splits if_splits)
  have ok: "options_ok pa" by (rule options_ok_arguments[OF pa options_ok_init])
  have "iv = invocation_init\<lparr>iv_command := iv_command iv\<rparr>" if "\<not> runtime_command (iv_command iv)"
    using ok role that iv by (cases iv) (simp add: options_ok_def invocation_init_def Let_def)
  then show ?thesis
    using ok role iv by (auto simp: valid_invocation_def options_ok_def Let_def)
qed

subsection \<open>Every valid invocation has a command line\<close>

lemma digits_from_snoc: "digits_from n (cs @ [c]) = 10 * digits_from n cs + (of_char c - 48)"
  by (induction n cs rule: digits_from.induct) simp_all

lemma decimal_digit: "k < 10 \<Longrightarrow> is_digit (char_of (48 + k)) \<and> (of_char (char_of (48 + k) :: char) :: nat) = 48 + k"
  by (simp add: is_digit_def)

lemma decimal_digits: "digits_from 0 (decimal n) = n \<and> list_all is_digit (decimal n) \<and> decimal n \<noteq> []"
proof (induction n rule: decimal.induct)
  case (1 n)
  show ?case
  proof (cases "n < 10")
    case True
    then show ?thesis using decimal_digit[of n] by (simp add: decimal.simps[of n])
  next
    case False
    have "n mod 10 < 10" by simp
    then show ?thesis
      using 1[OF False] False decimal_digit[of "n mod 10"]
      by (simp add: decimal.simps[of n] digits_from_snoc)
  qed
qed

lemma from_chars_decimal: "n < 2 ^ 32 \<Longrightarrow> from_chars (decimal n) = Some (n, [])"
  using decimal_digits[of n] by (simp add: from_chars_def Let_def list_all_iff takeWhile_eq_all_conv[THEN iffD2])

lemma decimal_not_option: "take 2 (decimal n) \<noteq> ''--''"
proof -
  have "list_all is_digit (take 2 (decimal n))"
    using decimal_digits[of n] by (simp add: list_all_iff) (meson in_set_takeD)
  then show ?thesis by (auto simp: is_digit_def)
qed

definition narrowed :: "wstring \<Rightarrow> string" where
  "narrowed text = map (\<lambda>c. char_of (unat c)) text"

fun command_name :: "application_command \<Rightarrow> string" where
  "command_name Cmd_help = ''--help''"
| "command_name Cmd_version = ''--version''"
| "command_name Cmd_serve = ''--serve''"
| "command_name Cmd_demo_sync = ''--demo-sync''"
| "command_name Cmd_demo_async = ''--demo-async''"
| "command_name Cmd_demo_mixed = ''--demo-mixed''"

definition file_argument :: "string \<Rightarrow> path \<Rightarrow> string list" where
  "file_argument option_name file = (if file = [] then [] else [option_name, file])"

definition command_line :: "invocation \<Rightarrow> diagnostic_options \<Rightarrow> string list" where
  "command_line iv d =
     file_argument ''--log-file'' (dn_log_file d) @ file_argument ''--trace-file'' (dn_trace_file d) @
     (if runtime_command (iv_command iv)
      then [''--endpoint'', narrowed (iv_endpoint iv), ''--timeout-ms'', decimal (nat (iv_timeout iv))] else []) @
     (if iv_command iv = Cmd_serve then [''--sessions'', decimal (iv_sessions iv)] else []) @
     [command_name (iv_command iv)]"

lemma prefix_ascii: "list_all (\<lambda>c. c < 128) endpoint_prefix"
  by code_simp

lemma endpoint_char_ascii: "endpoint_char c \<Longrightarrow> c < 128"
  by (auto simp: endpoint_char_def elim!: le_less_trans)

lemma endpoint_ascii:
  assumes "valid_endpoint ep"
  shows "list_all (\<lambda>c. c < 128) ep" and "ep \<noteq> []" and "hd ep = backslash"
proof -
  have pre: "take (length endpoint_prefix) ep = endpoint_prefix"
    and body: "list_all endpoint_char (drop (length endpoint_prefix) ep)"
    using assms by (auto simp: valid_endpoint_def split: if_splits)
  have ep: "ep = endpoint_prefix @ drop (length endpoint_prefix) ep" using pre by (metis append_take_drop_id)
  have "list_all (\<lambda>c. c < 128) (drop (length endpoint_prefix) ep)"
    using body endpoint_char_ascii by (auto simp: list_all_iff)
  then show "list_all (\<lambda>c. c < 128) ep" using prefix_ascii ep by (metis list_all_append)
  have "endpoint_prefix \<noteq> [] \<and> hd endpoint_prefix = backslash" by (simp add: endpoint_prefix_def)
  then show "ep \<noteq> []" "hd ep = backslash" using ep by (metis append_is_Nil_conv, metis hd_append2)
qed

lemma scast_ascii:
  assumes "k < 128"
  shows "(scast (of_nat k :: 8 word) :: wchar) = of_nat k"
proof -
  have "sint (of_nat k :: 8 word) = int k" using assms by (simp add: sint_uint unsigned_of_nat take_bit_nat_eq_self signed_take_bit_int_eq_self)
  then show ?thesis by (simp add: scast_eq)
qed

lemma widened_narrowed:
  assumes "list_all (\<lambda>c. c < 128) text"
  shows "widened (narrowed text) = text"
proof -
  have "scast (of_nat (of_char (char_of (unat c) :: char)) :: 8 word) = c" if "c \<in> set text" for c :: wchar
  proof -
    have "unat c < 128" using assms that by (simp add: list_all_iff word_less_nat_alt)
    then show ?thesis using scast_ascii[of "unat c"] by simp
  qed
  then show ?thesis by (simp add: widened_def narrowed_def map_idI)
qed

lemma narrowed_endpoint:
  assumes "valid_endpoint ep"
  shows "widened (narrowed ep) = ep" and "narrowed ep \<noteq> []" and "take 2 (narrowed ep) \<noteq> ''--''"
proof -
  note a = endpoint_ascii[OF assms]
  show "widened (narrowed ep) = ep" by (rule widened_narrowed[OF a(1)])
  obtain rest where ep: "ep = backslash # rest" using a(2,3) by (cases ep) auto
  then show "narrowed ep \<noteq> []" by (simp add: narrowed_def)
  have "char_of (unat backslash) \<noteq> CHR ''-''" by code_simp
  then show "take 2 (narrowed ep) \<noteq> ''--''" by (simp add: ep narrowed_def)
qed

definition file_ok :: "path \<Rightarrow> bool" where
  "file_ok file \<longleftrightarrow> take 2 file \<noteq> ''--''"

lemma parse_file:
  assumes "file_ok file" and "option_name = ''--log-file'' \<or> option_name = ''--trace-file''"
    and "option_name \<notin> set (pa_supplied pa)"
  shows "parse_arguments (file_argument option_name file @ later) pa =
    (if file = [] then parse_arguments later pa
     else parse_arguments later (pa\<lparr>pa_supplied := option_name # pa_supplied pa,
       pa_diagnostics := (if option_name = ''--log-file'' then (pa_diagnostics pa)\<lparr>dn_log_file := file\<rparr>
                          else (pa_diagnostics pa)\<lparr>dn_trace_file := file\<rparr>)\<rparr>))"
proof (cases "file = []")
  case False
  then show ?thesis
    using assms by (elim disjE) (simp_all add: file_argument_def file_ok_def commands_def value_options_def parse_option_def)
qed (simp add: file_argument_def)

lemma parse_endpoint:
  assumes "valid_endpoint ep" and "''--endpoint'' \<notin> set (pa_supplied pa)"
  shows "parse_arguments (''--endpoint'' # narrowed ep # later) pa =
    parse_arguments later (pa\<lparr>pa_supplied := ''--endpoint'' # pa_supplied pa, pa_options := (pa_options pa)\<lparr>iv_endpoint := ep\<rparr>\<rparr>)"
  using assms narrowed_endpoint[OF assms(1)] by (simp add: commands_def value_options_def parse_option_def)

lemma parse_timeout:
  assumes "minimum_timeout \<le> t" and "t \<le> maximum_timeout" and "''--timeout-ms'' \<notin> set (pa_supplied pa)"
  shows "parse_arguments (''--timeout-ms'' # decimal (nat t) # later) pa =
    parse_arguments later (pa\<lparr>pa_supplied := ''--timeout-ms'' # pa_supplied pa, pa_options := (pa_options pa)\<lparr>iv_timeout := t\<rparr>\<rparr>)"
proof -
  have "from_chars (decimal (nat t)) = Some (nat t, [])" "0 \<le> t"
    using assms(1,2) by (auto intro!: from_chars_decimal simp: minimum_timeout_def maximum_timeout_def)
  then show ?thesis
    using assms decimal_digits[of "nat t"] decimal_not_option[of "nat t"]
    by (simp add: commands_def value_options_def parse_option_def)
qed

lemma parse_sessions:
  assumes "1 \<le> n" and "n \<le> max_sessions" and "''--sessions'' \<notin> set (pa_supplied pa)"
  shows "parse_arguments (''--sessions'' # decimal n # later) pa =
    parse_arguments later (pa\<lparr>pa_supplied := ''--sessions'' # pa_supplied pa, pa_options := (pa_options pa)\<lparr>iv_sessions := n\<rparr>\<rparr>)"
proof -
  have "from_chars (decimal n) = Some (n, [])" using assms(2) by (intro from_chars_decimal) (simp add: max_sessions_def)
  then show ?thesis
    using assms decimal_digits[of n] decimal_not_option[of n]
    by (simp add: commands_def value_options_def parse_option_def)
qed

lemma parse_command:
  assumes "\<not> pa_has_command pa"
  shows "parse_arguments [command_name c] pa =
    Inr (pa\<lparr>pa_has_command := True, pa_options := (pa_options pa)\<lparr>iv_command := c\<rparr>\<rparr>)"
  using assms by (cases c) (simp_all add: commands_def)

lemma parse_command_line_of:
  assumes "valid_invocation name iv" and "file_ok (dn_log_file d)" and "file_ok (dn_trace_file d)"
    and "dn_trace_event_limit d = default_trace_event_limit"
  shows "\<exists>pa. parse_arguments (command_line iv d) parsing_init = Inr pa \<and> pa_has_command pa \<and> pa_options pa = iv \<and>
    pa_diagnostics pa = d \<and>
    (''--endpoint'' \<in> set (pa_supplied pa) \<longleftrightarrow> runtime_command (iv_command iv)) \<and>
    (''--timeout-ms'' \<in> set (pa_supplied pa) \<longleftrightarrow> runtime_command (iv_command iv)) \<and>
    (''--sessions'' \<in> set (pa_supplied pa) \<longleftrightarrow> iv_command iv = Cmd_serve)"
proof -
  note v = assms(1)[unfolded valid_invocation_def]
  define files where "files = (if dn_trace_file d = [] then [] else [''--trace-file'']) @ (if dn_log_file d = [] then [] else [''--log-file''])"
  define later1 where "later1 = (if iv_command iv = Cmd_serve then [''--sessions'', decimal (iv_sessions iv)] else []) @ [command_name (iv_command iv)]"
  define later where "later = (if runtime_command (iv_command iv)
      then [''--endpoint'', narrowed (iv_endpoint iv), ''--timeout-ms'', decimal (nat (iv_timeout iv))] else []) @ later1"
  define pa1 where "pa1 = parsing_init\<lparr>pa_supplied := files, pa_diagnostics := d\<rparr>"
  obtain lf tf where d: "d = \<lparr>dn_log_file = lf, dn_trace_file = tf, dn_trace_event_limit = default_trace_event_limit\<rparr>"
    using assms(4) by (cases d) simp
  have ok: "file_ok lf" "file_ok tf" using assms(2,3) by (simp_all add: d)
  have "parse_arguments (file_argument ''--log-file'' (dn_log_file d) @ file_argument ''--trace-file'' (dn_trace_file d) @ later) parsing_init =
      parse_arguments later pa1"
    by (cases "lf = []"; cases "tf = []")
      (simp_all add: pa1_def files_def d parse_file[OF ok(1)] parse_file[OF ok(2)] file_argument_def[of _ "[]"]
        parsing_init_def diagnostic_options_init_def)
  then have "parse_arguments (command_line iv d) parsing_init = parse_arguments later pa1"
    by (simp add: command_line_def later_def later1_def)
  moreover have pa1: "''--endpoint'' \<notin> set (pa_supplied pa1)" "''--timeout-ms'' \<notin> set (pa_supplied pa1)"
    "''--sessions'' \<notin> set (pa_supplied pa1)" "\<not> pa_has_command pa1" "pa_diagnostics pa1 = d" "pa_options pa1 = invocation_init"
    by (simp_all add: pa1_def files_def parsing_init_def)
  ultimately show ?thesis
  proof (cases "runtime_command (iv_command iv)")
    case True
    define pa2 where "pa2 = pa1\<lparr>pa_supplied := ''--timeout-ms'' # ''--endpoint'' # pa_supplied pa1,
        pa_options := (pa_options pa1)\<lparr>iv_endpoint := iv_endpoint iv, iv_timeout := iv_timeout iv\<rparr>\<rparr>"
    have "parse_arguments later pa1 = parse_arguments later1 pa2"
      using True v pa1 by (simp add: later_def pa2_def parse_endpoint parse_timeout del: parse_arguments.simps)
    moreover have "parse_arguments later1 pa2 =
        Inr (pa2\<lparr>pa_supplied := (if iv_command iv = Cmd_serve then [''--sessions''] else []) @ pa_supplied pa2,
              pa_has_command := True, pa_options := iv\<rparr>)"
      using v True pa1 by (cases "iv_command iv = Cmd_serve"; cases iv)
        (simp_all add: later1_def pa2_def parse_sessions parse_command parse_command[of _ Cmd_serve, unfolded command_name.simps] invocation_init_def
          del: parse_arguments.simps)
    ultimately show ?thesis
      using True pa1 \<open>parse_arguments (command_line iv d) parsing_init = parse_arguments later pa1\<close> by (simp add: pa2_def)
  next
    case False
    then have "iv_command iv \<noteq> Cmd_serve" by (auto simp: runtime_command_def)
    moreover have "iv = invocation_init\<lparr>iv_command := iv_command iv\<rparr>" using v False by simp
    ultimately show ?thesis
      using False pa1 \<open>parse_arguments (command_line iv d) parsing_init = parse_arguments later pa1\<close>
      by (simp add: later_def later1_def parse_command del: parse_arguments.simps)
  qed
qed

subsection \<open>Diagnostics around a command\<close>

text \<open>
  A command leaves the session as open as it found it: it enters and leaves scopes and logs, and
  never finishes the session.
\<close>

fun session_kept :: "diagnostic_session \<Rightarrow> diagnostic_session \<Rightarrow> bool" where
  "session_kept None s = (s = None)"
| "session_kept (Some dg) s = (case s of None \<Rightarrow> False | Some dg' \<Rightarrow> dg_trace dg' = dg_trace dg \<and>
     dg_closing dg' = dg_closing dg \<and> dg_active dg' = dg_active dg)"

definition session_open :: "diagnostic_session \<Rightarrow> bool" where
  "session_open s = (case s of None \<Rightarrow> True | Some dg \<Rightarrow> \<not> dg_closing dg)"

lemma session_kept_refl [simp]: "session_kept s s"
  by (cases s) simp_all

lemma session_kept_trans: "session_kept a b \<Longrightarrow> session_kept b c \<Longrightarrow> session_kept a c"
  by (cases a; cases b; cases c) auto

lemma session_log_kept: "session_kept s (session_log err level message s)"
  by (cases s) (simp_all add: session_log_def state_log_def reported_def)

lemma enter_leave_kept:
  assumes "scope_enter i now name s = (sc, s1)" and "session_kept s1 s2" and "session_open s"
  shows "\<exists>s3. scope_leave dump err pid stop sc s2 = Some s3 \<and> session_kept s s3"
proof (cases sc)
  case None
  then have "session_kept s s1"
    using assms(1) by (auto simp: scope_enter_def begin_scope_def Let_def split: option.splits if_splits prod.splits)
  then show ?thesis using None assms(2) session_kept_trans by (auto simp: scope_leave_def)
next
  case (Some p)
  then obtain dg dg1 where s: "s = Some dg" "s1 = Some dg1" "dg_trace dg" "dg_trace dg1" "dg_closing dg1 = dg_closing dg"
    "dg_active dg1 = Suc (dg_active dg)"
    using assms(1)
    by (auto simp: scope_enter_def begin_scope_def Let_def split: option.splits if_splits prod.splits)
  moreover obtain dg2 where "s2 = Some dg2" "dg_trace dg2" "dg_closing dg2 = dg_closing dg" "dg_active dg2 = Suc (dg_active dg)"
    using assms(2) s by (auto split: option.splits)
  ultimately show ?thesis
    using Some assms(3) by (simp add: session_open_def scope_leave_def end_scope_def write_event_def trace_line_def reported_def Let_def)
qed

lemma init_open:
  "diagnostic_session_init profiling fs dump err pid now name d = Some (Inr s) \<Longrightarrow> session_open s"
  by (auto simp: session_open_def diagnostic_session_init_def diagnostic_state_init_def write_event_def trace_line_def
      reported_def Let_def split: if_splits sum.splits option.splits)

lemma init_defined: "\<exists>r. diagnostic_session_init profiling fs dump err pid now name d = Some r"
  by (auto simp: diagnostic_session_init_def diagnostic_state_init_def write_event_def trace_line_def
      reported_def Let_def split: sum.splits option.splits)

definition handler_ok :: "string \<Rightarrow> 'w command_handler option \<Rightarrow> bool" where
  "handler_ok name handler \<longleftrightarrow> (\<forall>h iv co s w. handler = Some h \<and> valid_invocation name iv \<longrightarrow>
     (\<exists>code co' s' w'. h iv co s w = Some (code, co', s', w') \<and> session_kept s s'))"

lemma print_command_kept:
  assumes "session_open s"
  shows "\<exists>s'. print_command su name command co s =
    Some (0, put_output (su_accepts su) (if command = Cmd_version then ended (name @ '' '' @ su_version su)
       else usage_text (su_profiling su) name) co, s') \<and> session_kept s s'"
proof -
  obtain sc s1 where e: "scope_enter (su_thread su) (su_now su 3) ''print_command'' s = (sc, s1)" by (metis surj_pair)
  show ?thesis
    using enter_leave_kept[OF e session_kept_refl assms, of "su_dump su" "su_errors su 5" "su_pid su" "su_now su 4"]
    by (auto simp: print_command_def e Let_def)
qed

lemma run_command_kept:
  assumes "handler_ok name handler" and "valid_invocation name iv" and "runtime_command (iv_command iv) \<Longrightarrow> handler \<noteq> None"
    and "session_open s"
  shows "\<exists>code co' s' w'. run_command su name handler iv co s w = Some (code, co', s', w') \<and> session_kept s s'"
proof (cases "runtime_command (iv_command iv)")
  case True
  then obtain h where "handler = Some h" using assms(3) by auto
  then show ?thesis using assms(1,2) True by (auto simp: run_command_def handler_ok_def)
next
  case False
  then show ?thesis
    using print_command_kept[OF assms(4), where su = su and name = name and command = "iv_command iv" and co = co] by (auto simp: run_command_def)
qed

lemma session_kept_open: "session_kept s s' \<Longrightarrow> session_open s \<Longrightarrow> session_open s'"
  by (cases s) (auto simp: session_open_def split: option.splits)

lemma scope_enter_open: "scope_enter i now name s = (sc, s1) \<Longrightarrow> session_open s \<Longrightarrow> session_open s1"
  by (auto simp: session_open_def scope_enter_def begin_scope_def Let_def split: option.splits if_splits prod.splits)

lemma run_application_runs:
  assumes "handler_ok name handler" and "parse_command_line name args = Inr (iv, d)"
    and "runtime_command (iv_command iv) \<Longrightarrow> handler \<noteq> None" and "su_profiling su \<or> dn_trace_file d = []"
  shows "\<exists>code co' w'. run_application su name args handler co w = Some (code, co', w') \<and>
    (code = 1 \<or> (\<exists>s s'. run_command su name handler iv co s w = Some (code, co', s', w')))"
proof -
  obtain r where r: "diagnostic_session_init (su_profiling su) (su_files su) (su_dump su) (su_errors su 0) (su_pid su)
      (su_now su 0) name d = Some r" using init_defined by blast
  have ne: "\<not> (runtime_command (iv_command iv) \<and> handler = None)" "\<not> (\<not> su_profiling su \<and> dn_trace_file d \<noteq> [])"
    using assms(3,4) by auto
  show ?thesis
  proof (cases r)
    case (Inl e)
    then show ?thesis using assms(2) ne r by (auto simp: run_application_def)
  next
    case (Inr s)
    have opened: "session_open s" using init_open r Inr by simp
    obtain sc s1 where enter: "scope_enter (su_thread su) (su_now su 1) ''cli.command'' s = (sc, s1)" by (metis surj_pair)
    define s2 where "s2 = session_log (su_errors su 1) Log_info ''Command started'' s1"
    have open1: "session_open s1" by (rule scope_enter_open[OF enter opened])
    have k2: "session_kept s1 s2" unfolding s2_def by (rule session_log_kept)
    have open2: "session_open s2" by (rule session_kept_open[OF k2 open1])
    obtain code co' s3 w' where run: "run_command su name handler iv co s2 w = Some (code, co', s3, w')" and k3: "session_kept s2 s3"
      using run_command_kept[OF assms(1) parse_valid[OF assms(2)] assms(3) open2] by blast
    define s4 where "s4 = session_log (su_errors su 2) Log_info ''Command completed'' s3"
    have k4: "session_kept s1 s4"
      unfolding s4_def using session_kept_trans[OF session_kept_trans[OF k2 k3] session_log_kept] .
    obtain s5 where leave: "scope_leave (su_dump su) (su_errors su 3) (su_pid su) (su_now su 2) sc s4 = Some s5"
      using enter_leave_kept[OF enter k4 opened] by blast
    obtain finished s6 where fin: "session_finish (su_dump su) (su_errors su 4) s5 = (finished, s6)" by (metis surj_pair)
    have "run_application su name args handler co w =
        (if \<not> finished then Some (1, put_error (ended ''Diagnostics I/O failed while writing output.'') co', w') else Some (code, co', w'))"
      using assms(2) ne r Inr enter run[unfolded s2_def] leave[unfolded s4_def] fin
      by (auto simp: run_application_def Let_def)
    then show ?thesis using run by (cases finished) auto
  qed
qed

subsection \<open>Properties\<close>


definition demo_surroundings :: surroundings where
  "demo_surroundings =
     \<lparr>su_profiling = True, su_version = ''0.1.0'', su_files = demo_files, su_dump = demo_dump, su_pid = 7, su_thread = 1,
      su_now = int, su_errors = (\<lambda>_ _. False), su_accepts = (\<lambda>_. True)\<rparr>"

definition demo_handler :: "nat command_handler" where
  "demo_handler iv co s n = Some (0, co, s, Suc n)"

abbreviation demo_console :: console where
  "demo_console \<equiv> \<lparr>co_output = [], co_good = True, co_errors = [], co_input = []\<rparr>"


text \<open>
  Property C40. Every valid invocation can be asked for: the command line written from an invocation
  and its diagnostic files is parsed back to exactly them, numbers and endpoint included.
\<close>

theorem command_line_roundtrip:
  assumes "valid_invocation name iv" and "file_ok (dn_log_file d)" and "file_ok (dn_trace_file d)"
    and "dn_trace_event_limit d = default_trace_event_limit"
  shows "parse_command_line name (command_line iv d) = Inr (iv, d)"
proof -
  have "runtime_command Cmd_serve" by (simp add: runtime_command_def)
  then show ?thesis
    using parse_command_line_of[OF assms] assms(1) by (auto simp: parse_command_line_def valid_invocation_def Let_def)
qed

theorem command_line_roundtrip_witness:
  "parse_command_line ''pipeforge-server''
     (command_line (invocation_init\<lparr>iv_command := Cmd_serve, iv_timeout := 250, iv_sessions := 3\<rparr>)
        (diagnostic_options_init\<lparr>dn_log_file := ''a.log''\<rparr>)) =
   Inr (invocation_init\<lparr>iv_command := Cmd_serve, iv_timeout := 250, iv_sessions := 3\<rparr>,
        diagnostic_options_init\<lparr>dn_log_file := ''a.log''\<rparr>)"
proof (rule command_line_roundtrip)
  show "valid_invocation ''pipeforge-server'' (invocation_init\<lparr>iv_command := Cmd_serve, iv_timeout := 250, iv_sessions := 3\<rparr>)"
    by code_simp
qed (simp_all add: diagnostic_options_init_def file_ok_def)

end
