(* ===== verification/Scenario.thy ===== *)
theory Scenario
  imports Client Application
begin

section \<open>The demonstration client\<close>

text \<open>
  Models \<open>src/cli/client_commands.cpp\<close>: the scenario that stores, reads and pages values, runs into
  the quota, uses objects of both built-in classes, and checks that sessions are isolated and end
  with their connection.

  The scenario uses connections only through their public operations, which are a record here:
  creating a connection, \<open>connect_async\<close> and \<open>call_async\<close>, waiting for a future, \<open>close\<close> (also what the
  destructor does), and the clock. A connection and a future are numbers, and the world is passed
  on. \<open>connect\<close> and \<open>call\<close> wait for the future of their asynchronous counterparts.
\<close>

record 'w client_api =
  ca_now :: "'w \<Rightarrow> int \<times> 'w"
  ca_create :: "'w \<Rightarrow> nat \<times> 'w"
  ca_connect_async :: "nat \<Rightarrow> wstring \<Rightarrow> deadline \<Rightarrow> 'w \<Rightarrow> nat \<times> 'w"
  ca_connected :: "nat \<Rightarrow> 'w \<Rightarrow> connect_result \<times> 'w"
  ca_call_async :: "nat \<Rightarrow> operation \<Rightarrow> deadline \<Rightarrow> 'w \<Rightarrow> nat \<times> 'w"
  ca_result :: "nat \<Rightarrow> 'w \<Rightarrow> call_result \<times> 'w"
  ca_close :: "nat \<Rightarrow> 'w \<Rightarrow> 'w"

definition connection_connect :: "'w client_api \<Rightarrow> nat \<Rightarrow> wstring \<Rightarrow> deadline \<Rightarrow> 'w \<Rightarrow> connect_result \<times> 'w" where
  "connection_connect api c endpoint until w =
     (let (f, w) = ca_connect_async api c endpoint until w in ca_connected api f w)"

definition connection_call :: "'w client_api \<Rightarrow> nat \<Rightarrow> operation \<Rightarrow> deadline \<Rightarrow> 'w \<Rightarrow> call_result \<times> 'w" where
  "connection_call api c oper until w = (let (f, w) = ca_call_async api c oper until w in ca_result api f w)"

definition initial_counter :: i64 where "initial_counter = 7"
definition other_counter :: i64 where "other_counter = 42"
definition increment :: i64 where "increment = 5"
definition demo_page_size :: u32 where "demo_page_size = 2"
definition quota_probe_limit :: nat where "quota_probe_limit = 128"

record scenario =
  sx_client :: nat
  sx_calls :: nat
  sx_retained_object :: u64
  sx_stored_value :: u64

definition scenario_init :: "nat \<Rightarrow> scenario" where
  "scenario_init client = \<lparr>sx_client = client, sx_calls = 0, sx_retained_object = 0, sx_stored_value = 0\<rparr>"

definition scenario_until :: "'w client_api \<Rightarrow> invocation \<Rightarrow> 'w \<Rightarrow> deadline \<times> 'w" where
  "scenario_until api iv w = (let (now, w) = ca_now api w in (now + iv_timeout iv * 1000000, w))"

definition scenario_execute ::
  "'w client_api \<Rightarrow> invocation \<Rightarrow> operation \<Rightarrow> scenario \<Rightarrow> 'w \<Rightarrow> call_result \<times> scenario \<times> 'w" where
  "scenario_execute api iv oper sc w =
     (let sc = sc\<lparr>sx_calls := sx_calls sc + 1\<rparr>;
          blocking = (iv_command iv = Cmd_demo_sync \<or> iv_command iv = Cmd_demo_mixed \<and> sx_calls sc mod unat demo_page_size = 0);
          (until, w) = scenario_until api iv w;
          (r, w) = (if blocking then connection_call api (sx_client sc) oper until w
                    else let (f, w) = ca_call_async api (sx_client sc) oper until w in ca_result api f w)
      in (r, sc, w))"

subsection \<open>Reading an answer\<close>

definition extract_outcome :: "(outcome \<Rightarrow> 'a option) \<Rightarrow> call_result \<Rightarrow> 'a option" where
  "extract_outcome select r = (case r of Inl _ \<Rightarrow> None | Inr res \<Rightarrow> select (rs_body res))"

fun as_value_record :: "outcome \<Rightarrow> value_record option" where
  "as_value_record (Value_record r) = Some r"
| "as_value_record _ = None"

fun as_values_page :: "outcome \<Rightarrow> values_page option" where
  "as_values_page (Values_page p) = Some p"
| "as_values_page _ = None"

fun as_classes_page :: "outcome \<Rightarrow> classes_page option" where
  "as_classes_page (Classes_page p) = Some p"
| "as_classes_page _ = None"

fun as_class_description :: "outcome \<Rightarrow> class_description option" where
  "as_class_description (Class_description d) = Some d"
| "as_class_description _ = None"

fun as_object_snapshot :: "outcome \<Rightarrow> object_snapshot option" where
  "as_object_snapshot (Object_snapshot x) = Some x"
| "as_object_snapshot _ = None"

fun as_value :: "outcome \<Rightarrow> value_t option" where
  "as_value (Value v) = Some v"
| "as_value _ = None"

fun as_released :: "outcome \<Rightarrow> unit option" where
  "as_released Released = Some ()"
| "as_released _ = None"

fun as_remote_error :: "outcome \<Rightarrow> remote_error option" where
  "as_remote_error (Remote_error e) = Some e"
| "as_remote_error _ = None"


definition ask ::
  "'w client_api \<Rightarrow> invocation \<Rightarrow> (outcome \<Rightarrow> 'a option) \<Rightarrow> operation \<Rightarrow> scenario \<Rightarrow> 'w \<Rightarrow> 'a option \<times> scenario \<times> 'w" where
  "ask api iv select oper sc w =
     (let (r, sc, w) = scenario_execute api iv oper sc w in (extract_outcome select r, sc, w))"

definition expect_error ::
  "'w client_api \<Rightarrow> invocation \<Rightarrow> operation \<Rightarrow> error_code \<Rightarrow> scenario \<Rightarrow> 'w \<Rightarrow> bool \<times> scenario \<times> 'w" where
  "expect_error api iv oper expected sc w =
     (let (r, sc, w) = ask api iv as_remote_error oper sc w
      in (case r of None \<Rightarrow> False | Some e \<Rightarrow> re_code e = expected, sc, w))"

text \<open>
  Equality of the records the scenario compares, with the equality of doubles.
\<close>

definition record_eq :: "value_record \<Rightarrow> value_record \<Rightarrow> bool" where
  "record_eq a b \<longleftrightarrow> vr_id a = vr_id b \<and> value_eq (vr_data a) (vr_data b)"

definition named_eq :: "named_value \<Rightarrow> named_value \<Rightarrow> bool" where
  "named_eq a b \<longleftrightarrow> nv_name a = nv_name b \<and> value_eq (nv_data a) (nv_data b)"

subsection \<open>Values\<close>

definition demo_inputs :: "value_t list" where
  "demo_inputs =
     [Text [], Text (''caf'' @ [CHR 0xC3, CHR 0xA9]), Integer 0x8000000000000000, Integer 0x7FFFFFFFFFFFFFFF,
      Real 0, Real 0x3FF4000000000000]"

fun store_each ::
  "'w client_api \<Rightarrow> invocation \<Rightarrow> value_t list \<Rightarrow> value_record list \<Rightarrow> scenario \<Rightarrow> 'w \<Rightarrow>
     value_record list option \<times> scenario \<times> 'w" where
  "store_each api iv [] saved sc w = (Some saved, sc, w)"
| "store_each api iv (input # inputs) saved sc w =
     (case ask api iv as_value_record (Put_value input) sc w of
        (None, sc, w) \<Rightarrow> (None, sc, w)
      | (Some r, sc, w) \<Rightarrow> store_each api iv inputs (saved @ [r]) sc w)"

fun submit_all :: "'w client_api \<Rightarrow> invocation \<Rightarrow> nat \<Rightarrow> value_t list \<Rightarrow> nat list \<Rightarrow> 'w \<Rightarrow> nat list \<times> 'w" where
  "submit_all api iv client [] pending w = (pending, w)"
| "submit_all api iv client (input # inputs) pending w =
     (let (until, w) = scenario_until api iv w; (f, w) = ca_call_async api client (Put_value input) until w
      in submit_all api iv client inputs (pending @ [f]) w)"

fun collect_all :: "'w client_api \<Rightarrow> nat list \<Rightarrow> value_record list \<Rightarrow> 'w \<Rightarrow> value_record list option \<times> 'w" where
  "collect_all api [] saved w = (Some saved, w)"
| "collect_all api (f # pending) saved w =
     (let (r, w) = ca_result api f w in
      case extract_outcome as_value_record r of
        None \<Rightarrow> (None, w)
      | Some x \<Rightarrow> collect_all api pending (saved @ [x]) w)"

definition store_inputs ::
  "'w client_api \<Rightarrow> invocation \<Rightarrow> scenario \<Rightarrow> 'w \<Rightarrow> value_record list option \<times> scenario \<times> 'w" where
  "store_inputs api iv sc w =
     (if iv_command iv = Cmd_demo_sync then store_each api iv demo_inputs [] sc w
      else let (pending, w) = submit_all api iv (sx_client sc) demo_inputs [] w; (saved, w) = collect_all api pending [] w
           in (saved, sc, w))"

fun read_back ::
  "'w client_api \<Rightarrow> invocation \<Rightarrow> (value_record \<times> value_t) list \<Rightarrow> scenario \<Rightarrow> 'w \<Rightarrow> bool \<times> scenario \<times> 'w" where
  "read_back api iv [] sc w = (True, sc, w)"
| "read_back api iv ((saved, input) # rest) sc w =
     (case ask api iv as_value_record (Get_value (vr_id saved)) sc w of
        (None, sc, w) \<Rightarrow> (False, sc, w)
      | (Some r, sc, w) \<Rightarrow> if \<not> value_eq (vr_data r) input then (False, sc, w) else read_back api iv rest sc w)"

text \<open>
  The loop over the pages ends because a page that is not the last adds a value, and no more values
  than there are inputs are accepted.
\<close>

function list_pages ::
  "'w client_api \<Rightarrow> invocation \<Rightarrow> nat \<Rightarrow> value_record list \<Rightarrow> u64 \<Rightarrow> scenario \<Rightarrow> 'w \<Rightarrow>
     value_record list option \<times> scenario \<times> 'w" where
  "list_pages api iv bound listed cursor sc w =
     (case ask api iv as_values_page (List_values cursor demo_page_size) sc w of
        (None, sc, w) \<Rightarrow> (None, sc, w)
      | (Some page, sc, w) \<Rightarrow>
        if length listed + length (vp_values page) > bound then (None, sc, w)
        else if vp_next page = 0 then (Some (listed @ vp_values page), sc, w)
        else if vp_values page = [] \<or> vp_next page \<le> cursor then (None, sc, w)
        else list_pages api iv bound (listed @ vp_values page) (vp_next page) sc w)"
  by pat_completeness auto

termination list_pages
proof (relation "measure (\<lambda>(api, iv, bound, listed, cursor, sc, w). bound - length listed)", goal_cases)
  case (2 api iv bound listed cursor sc w a b page sc' w')
  then show ?case by (cases "vp_values page") auto
qed simp

fun probe_quota :: "'w client_api \<Rightarrow> invocation \<Rightarrow> nat \<Rightarrow> scenario \<Rightarrow> 'w \<Rightarrow> bool \<times> scenario \<times> 'w" where
  "probe_quota api iv 0 sc w = (False, sc, w)"
| "probe_quota api iv (Suc n) sc w =
     (case scenario_execute api iv (Put_value (Integer 0)) sc w of
        (Inl _, sc, w) \<Rightarrow> (False, sc, w)
      | (Inr res, sc, w) \<Rightarrow>
        case rs_body res of
          Remote_error e \<Rightarrow> (re_code e = EC_quota_exceeded, sc, w)
        | Value_record _ \<Rightarrow> probe_quota api iv n sc w
        | _ \<Rightarrow> (False, sc, w))"

definition scenario_values :: "'w client_api \<Rightarrow> invocation \<Rightarrow> scenario \<Rightarrow> 'w \<Rightarrow> bool \<times> scenario \<times> 'w" where
  "scenario_values api iv sc w =
     (case store_inputs api iv sc w of
        (None, sc, w) \<Rightarrow> (False, sc, w)
      | (Some saved, sc, w) \<Rightarrow>
        let (same, sc, w) = read_back api iv (zip saved demo_inputs) sc w in
        if \<not> same then (False, sc, w)
        else case list_pages api iv (length demo_inputs) [] 0 sc w of
          (None, sc, w) \<Rightarrow> (False, sc, w)
        | (Some listed, sc, w) \<Rightarrow>
          if \<not> list_all2 record_eq listed saved then (False, sc, w)
          else probe_quota api iv quota_probe_limit (sc\<lparr>sx_stored_value := vr_id (hd saved)\<rparr>) w)"

subsection \<open>Objects\<close>

text \<open>
  \<open>std::ranges::binary_search\<close> on a sorted list of names.
\<close>

definition binary_search :: "string list \<Rightarrow> string \<Rightarrow> bool" where
  "binary_search names name = (case dropWhile (\<lambda>x. x < name) names of [] \<Rightarrow> False | x # _ \<Rightarrow> \<not> name < x)"

definition describe_classes :: "'w client_api \<Rightarrow> invocation \<Rightarrow> scenario \<Rightarrow> 'w \<Rightarrow> bool \<times> scenario \<times> 'w" where
  "describe_classes api iv sc w =
     (case ask api iv as_classes_page (List_classes [] default_page_size) sc w of
        (None, sc, w) \<Rightarrow> (False, sc, w)
      | (Some classes, sc, w) \<Rightarrow>
        if \<not> binary_search (cp_names classes) ''Counter'' \<or> \<not> binary_search (cp_names classes) ''TextBuffer''
        then (False, sc, w)
        else case ask api iv as_class_description (Describe_class ''TextBuffer'') sc w of
          (None, sc, w) \<Rightarrow> (False, sc, w)
        | (Some metadata, sc, w) \<Rightarrow> (cd_constructor_parameters metadata \<noteq> [] \<and> cd_methods metadata \<noteq> [], sc, w))"

text \<open>
  The identifiers of the two counters, if they behave.
\<close>

definition use_counters ::
  "'w client_api \<Rightarrow> invocation \<Rightarrow> scenario \<Rightarrow> 'w \<Rightarrow> (u64 \<times> u64) option \<times> scenario \<times> 'w" where
  "use_counters api iv sc w =
     (let (first, sc, w) = ask api iv as_object_snapshot
            (Create_object ''Counter'' [\<lparr>nv_name = ''initial'', nv_data = Integer initial_counter\<rparr>]) sc w;
          (second, sc, w) = ask api iv as_object_snapshot
            (Create_object ''Counter'' [\<lparr>nv_name = ''initial'', nv_data = Integer other_counter\<rparr>]) sc w in
      case (first, second) of
        (Some first, Some second) \<Rightarrow>
          if os_id first = os_id second then (None, sc, w)
          else
            let sc = sc\<lparr>sx_retained_object := os_id second\<rparr>;
                (changed, sc, w) = ask api iv as_value
                  (Invoke_method (os_id first) ''increment'' [\<lparr>nv_name = ''delta'', nv_data = Integer increment\<rparr>]) sc w;
                (attr, sc, w) = ask api iv as_value (Get_attribute (os_id first) ''value'') sc w;
                (retained, sc, w) = ask api iv as_object_snapshot (Get_object (os_id first)) sc w;
                (independent, sc, w) = ask api iv as_value (Get_attribute (os_id second) ''value'') sc w;
                expected = Integer (initial_counter + increment)
            in (case (changed, attr, retained, independent) of
                  (Some changed, Some attr, Some retained, Some independent) \<Rightarrow>
                    if \<not> value_eq changed expected \<or> \<not> value_eq attr expected \<or>
                       \<not> value_eq independent (Integer other_counter) \<or>
                       \<not> list_all2 named_eq (os_state retained) [\<lparr>nv_name = ''value'', nv_data = expected\<rparr>]
                    then (None, sc, w) else (Some (os_id first, os_id second), sc, w)
                | _ \<Rightarrow> (None, sc, w))
      | _ \<Rightarrow> (None, sc, w))"

definition use_text :: "'w client_api \<Rightarrow> invocation \<Rightarrow> scenario \<Rightarrow> 'w \<Rightarrow> bool \<times> scenario \<times> 'w" where
  "use_text api iv sc w =
     (case ask api iv as_object_snapshot
             (Create_object ''TextBuffer'' [\<lparr>nv_name = ''initial'', nv_data = Text ''hello''\<rparr>]) sc w of
        (None, sc, w) \<Rightarrow> (False, sc, w)
      | (Some buffer, sc, w) \<Rightarrow>
        let (appended, sc, w) = ask api iv as_value
              (Invoke_method (os_id buffer) ''append'' [\<lparr>nv_name = ''suffix'', nv_data = Text '' world''\<rparr>]) sc w
        in (case appended of None \<Rightarrow> False | Some v \<Rightarrow> value_eq v (Text ''hello world''), sc, w))"

definition provoke_errors :: "'w client_api \<Rightarrow> invocation \<Rightarrow> u64 \<Rightarrow> scenario \<Rightarrow> 'w \<Rightarrow> bool \<times> scenario \<times> 'w" where
  "provoke_errors api iv first sc w =
     (let (ok, sc, w) = expect_error api iv
            (Invoke_method first ''increment'' [\<lparr>nv_name = ''delta'', nv_data = Text ''wrong''\<rparr>]) EC_invalid_request sc w in
      if \<not> ok then (False, sc, w)
      else let (ok, sc, w) = expect_error api iv (Get_attribute first ''missing'') EC_not_found sc w in
        if \<not> ok then (False, sc, w)
        else expect_error api iv (Create_object ''MissingClass'' []) EC_not_found sc w)"

definition release_first :: "'w client_api \<Rightarrow> invocation \<Rightarrow> u64 \<Rightarrow> scenario \<Rightarrow> 'w \<Rightarrow> bool \<times> scenario \<times> 'w" where
  "release_first api iv first sc w =
     (case ask api iv as_released (Release_object first) sc w of
        (None, sc, w) \<Rightarrow> (False, sc, w)
      | (Some _, sc, w) \<Rightarrow> expect_error api iv (Get_object first) EC_not_found sc w)"

text \<open>
  A scenario of another connection must not find the object and the value.
\<close>

definition both_unknown :: "'w client_api \<Rightarrow> invocation \<Rightarrow> nat \<Rightarrow> u64 \<Rightarrow> u64 \<Rightarrow> 'w \<Rightarrow> bool \<times> 'w" where
  "both_unknown api iv c obj v w =
     (let (ok, sc, w) = expect_error api iv (Get_object obj) EC_not_found (scenario_init c) w in
      if \<not> ok then (False, w)
      else let (ok, sc, w) = expect_error api iv (Get_value v) EC_not_found sc w in (ok, w))"

definition check_isolation :: "'w client_api \<Rightarrow> invocation \<Rightarrow> u64 \<Rightarrow> scenario \<Rightarrow> 'w \<Rightarrow> bool \<times> scenario \<times> 'w" where
  "check_isolation api iv second sc w =
     (let (c, w) = ca_create api w; (until, w) = scenario_until api iv w;
          (f, w) = ca_connect_async api c (iv_endpoint iv) until w; (opened, w) = ca_connected api f w in
      case opened of
        Inl _ \<Rightarrow> (False, sc, ca_close api c w)
      | Inr _ \<Rightarrow> let (ok, w) = both_unknown api iv c second (sx_stored_value sc) w in (ok, sc, ca_close api c w))"

definition scenario_objects :: "'w client_api \<Rightarrow> invocation \<Rightarrow> scenario \<Rightarrow> 'w \<Rightarrow> bool \<times> scenario \<times> 'w" where
  "scenario_objects api iv sc w =
     (let (ok, sc, w) = describe_classes api iv sc w in
      if \<not> ok then (False, sc, w)
      else case use_counters api iv sc w of
        (None, sc, w) \<Rightarrow> (False, sc, w)
      | (Some (first, second), sc, w) \<Rightarrow>
        let (ok, sc, w) = use_text api iv sc w in
        if \<not> ok then (False, sc, w)
        else let (ok, sc, w) = provoke_errors api iv first sc w in
          if \<not> ok then (False, sc, w)
          else let (ok, sc, w) = release_first api iv first sc w in
            if \<not> ok then (False, sc, w)
            else check_isolation api iv second sc w)"

definition scenario_reconnect :: "'w client_api \<Rightarrow> invocation \<Rightarrow> scenario \<Rightarrow> 'w \<Rightarrow> bool \<times> scenario \<times> 'w" where
  "scenario_reconnect api iv sc w =
     (let w = ca_close api (sx_client sc) w; (c, w) = ca_create api w; (until, w) = scenario_until api iv w;
          (opened, w) = connection_connect api c (iv_endpoint iv) until w in
      case opened of
        Inl _ \<Rightarrow> (False, sc, ca_close api c w)
      | Inr _ \<Rightarrow>
          let (ok, w) = both_unknown api iv c (sx_retained_object sc) (sx_stored_value sc) w in (ok, sc, ca_close api c w))"

subsection \<open>The command\<close>

fun client_kind_number :: "client_failure_kind \<Rightarrow> nat" where
  "client_kind_number CK_invalid_request = 0"
| "client_kind_number CK_not_connected = 1"
| "client_kind_number CK_quota_exceeded = 2"
| "client_kind_number CK_timeout = 3"
| "client_kind_number CK_cancelled = 4"
| "client_kind_number CK_disconnected = 5"
| "client_kind_number CK_access_denied = 6"
| "client_kind_number CK_protocol_violation = 7"
| "client_kind_number CK_transport_failure = 8"
| "client_kind_number CK_internal_failure = 9"

definition mode_name :: "application_command \<Rightarrow> string" where
  "mode_name command =
     (if command = Cmd_demo_sync then ''sync'' else if command = Cmd_demo_async then ''async'' else ''mixed'')"

definition run_scenario :: "'w client_api \<Rightarrow> invocation \<Rightarrow> nat \<Rightarrow> 'w \<Rightarrow> bool \<times> 'w" where
  "run_scenario api iv client w =
     (let (ok, sc, w) = scenario_values api iv (scenario_init client) w in
      if \<not> ok then (False, w)
      else let (ok, sc, w) = scenario_objects api iv sc w in
        if \<not> ok then (False, w)
        else let (ok, sc, w) = scenario_reconnect api iv sc w in (ok, w))"

definition run_client_command ::
  "'w client_api \<Rightarrow> (string \<Rightarrow> bool) \<Rightarrow> invocation \<Rightarrow> console \<Rightarrow> 'w \<Rightarrow> int \<times> console \<times> 'w" where
  "run_client_command api accepts iv co w =
     (let (client, w) = ca_create api w; (until, w) = scenario_until api iv w;
          (opened, w) = (if iv_command iv = Cmd_demo_sync then connection_connect api client (iv_endpoint iv) until w
                         else let (f, w) = ca_connect_async api client (iv_endpoint iv) until w in ca_connected api f w) in
      case opened of
        Inl e \<Rightarrow>
          (1, put_error (ended (''Client connection failed kind='' @ decimal (client_kind_number (cl_kind e)) @
                '' native='' @ decimal (unat (cl_native_error e)))) co, ca_close api client w)
      | Inr _ \<Rightarrow>
          let (ok, w) = run_scenario api iv client w in
          if \<not> ok then (1, put_error (ended ''R1-R8 scenario failed; no operation was replayed.'') co, ca_close api client w)
          else let co = put_output accepts (ended (''R1-R8 scenario passed mode='' @ mode_name (iv_command iv))) co
               in (if co_good co then 0 else 1, co, ca_close api client w))"

end
