(* ===== verification/Demo_Store.thy ===== *)
theory Demo_Store
  imports Scenario
begin

section \<open>The store the demonstration works on\<close>

text \<open>
  The operations of a session store over the built-in classes, evaluated for the requests of the
  demonstration: a store whose values have consecutive identifiers, and the counters and text
  buffers in it. The identifiers start anywhere below the end of their range.
\<close>

definition ample :: "u64 \<Rightarrow> bool" where
  "ample n \<longleftrightarrow> n \<noteq> 0 \<and> unat n + 2000 < 2 ^ 64"

lemma unat_ample:
  assumes "ample n" and "i \<le> 1000"
  shows "unat (n + of_nat i) = unat n + i"
proof -
  have "unat (of_nat i :: u64) = i" using assms(2) by (simp add: unat_of_nat take_bit_nat_eq_self)
  then show ?thesis using assms by (simp add: ample_def unat_word_ariths)
qed

lemma ample_order:
  assumes "ample n" and "i \<le> 1000" and "j \<le> 1000"
  shows "n + of_nat i < n + of_nat j \<longleftrightarrow> i < j" and "n + of_nat i \<le> n + of_nat j \<longleftrightarrow> i \<le> j"
    and "n + of_nat i = n + of_nat j \<longleftrightarrow> i = j" and "n + of_nat i \<noteq> 0" and "n + of_nat i \<noteq> max_u64"
proof -
  note u = unat_ample[OF assms(1)]
  show "n + of_nat i < n + of_nat j \<longleftrightarrow> i < j" using u assms by (simp add: word_less_nat_alt)
  show "n + of_nat i \<le> n + of_nat j \<longleftrightarrow> i \<le> j" using u assms by (simp add: word_le_nat_alt)
  show "n + of_nat i = n + of_nat j \<longleftrightarrow> i = j" using u assms by (metis add_left_cancel)
  have "unat (n + of_nat i) \<noteq> 0" using u[OF assms(2)] assms(1) by (simp add: ample_def unat_eq_zero)
  then show "n + of_nat i \<noteq> 0" by auto
  have "unat (n + of_nat i) \<noteq> unat max_u64" using u[OF assms(2)] assms(1,2) by (auto simp: ample_def unat_max_u64)
  then show "n + of_nat i \<noteq> max_u64" by auto
qed

subsection \<open>Values with consecutive identifiers\<close>

definition stored_values :: "u64 \<Rightarrow> value_t list \<Rightarrow> (u64, value_t) omap" where
  "stored_values n vs = map (\<lambda>i. (n + of_nat i, vs ! i)) [0..<length vs]"

lemma length_stored_values [simp]: "length (stored_values n vs) = length vs"
  by (simp add: stored_values_def)

lemma stored_values_Nil [simp]: "stored_values n [] = []"
  by (simp add: stored_values_def)

lemma stored_values_snoc: "stored_values n (vs @ [v]) = stored_values n vs @ [(n + of_nat (length vs), v)]"
  by (simp add: stored_values_def nth_append)

lemma emplace_last: "(\<forall>e \<in> set m. fst e < k) \<Longrightarrow> om_emplace k v m = m @ [(k, v)]"
  by (induction k v m rule: om_emplace.induct) auto

lemma emplace_stored_values:
  assumes "ample n" and "length vs \<le> 1000"
  shows "om_emplace (n + of_nat (length vs)) v (stored_values n vs) = stored_values n (vs @ [v])"
  unfolding stored_values_snoc
  by (rule emplace_last) (use assms ample_order(1)[OF assms(1)] in \<open>auto simp: stored_values_def\<close>)

lemma om_ok_stored_values:
  assumes "ample n" and "length vs \<le> 1000"
  shows "om_ok (stored_values n vs)"
  using assms(2)
proof (induction vs rule: rev_induct)
  case (snoc v vs)
  then show ?case
    using om_ok_emplace[of "stored_values n vs" "n + of_nat (length vs)" v] emplace_stored_values[OF assms(1), of vs v] by simp
qed (simp add: om_ok_def)

lemma find_stored_values:
  assumes "ample n" and "length vs \<le> 1000" and "i < length vs"
  shows "om_find (stored_values n vs) (n + of_nat i) = Some (vs ! i)"
  using assms(3) om.find_Some_iff[OF om_ok_stored_values[OF assms(1,2)]] by (auto simp: stored_values_def)

lemma upper_bound_stored_values:
  assumes "ample n" and "length vs \<le> 1000" and "i \<le> length vs" and "after = (if i = 0 then 0 else n + of_nat (i - 1))"
  shows "om_upper_bound after (stored_values n vs) = drop i (stored_values n vs)"
proof -
  have le: "n + of_nat j \<le> after \<longleftrightarrow> j < i" if "j < length vs" for j
    using ample_order(2)[OF assms(1), of j "i - 1"] ample_order(4)[OF assms(1), of j] that assms
    by (cases i) (auto simp: word_le_nat_alt unat_eq_zero)
  have "dropWhile (\<lambda>e. fst e \<le> after) (stored_values n vs) = drop i (stored_values n vs)"
  proof -
    have "takeWhile (\<lambda>e. fst e \<le> after) (stored_values n vs) = take i (stored_values n vs)"
      by (rule takeWhile_eq_take_P_nth) (use le assms(3) in \<open>auto simp: stored_values_def\<close>)
    then show ?thesis using assms(3) by (simp add: dropWhile_eq_drop)
  qed
  then show ?thesis by (simp add: om_upper_bound_def case_prod_unfold)
qed


subsection \<open>Requests on values\<close>

definition values_store :: "u64 \<Rightarrow> value_t list \<Rightarrow> builtin_object session_store" where
  "values_store n vs =
     \<lparr>ss_limits = default_limits, ss_values = stored_values n vs, ss_objects = [],
      ss_used = sum_list (map (\<lambda>v. record_charge + value_bytes v) vs), ss_closed = False\<rparr>"

definition short_values :: "value_t list \<Rightarrow> bool" where
  "short_values vs \<longleftrightarrow> length vs \<le> max_stored_values \<and> (\<forall>v \<in> set vs. value_bytes v \<le> 8)"

lemma values_store_init: "session_store_init default_limits = values_store n []"
  by (simp add: session_store_init_def values_store_def default_limits_def)

lemma short_values_used:
  assumes "short_values vs"
  shows "sum_list (map (\<lambda>v. record_charge + value_bytes v) vs) \<le> 13600"
proof -
  have "sum_list (map (\<lambda>v. record_charge + value_bytes v) vs) \<le> sum_list (map (\<lambda>v. 136) vs)"
    using assms by (intro sum_list_mono) (auto simp: short_values_def record_charge_def)
  then show ?thesis using assms by (simp add: short_values_def max_stored_values_def sum_list_triv)
qed

lemma put_accepted:
  assumes "ample n" and "short_values (vs @ [v])" and "valid_value utf8 v"
  shows "execute (builtin_env utf8) (n + of_nat (length vs)) (values_store n vs) (Put_value v) =
    Some (Value_record \<lparr>vr_id = n + of_nat (length vs), vr_data = v\<rparr>, n + of_nat (length (vs @ [v])), values_store n (vs @ [v]))"
proof -
  have vs: "short_values vs" "length vs < 100" "value_bytes v \<le> 8"
    using assms(2) by (auto simp: short_values_def max_stored_values_def)
  have o: "n + of_nat (length vs) \<noteq> 0" "n + of_nat (length vs) \<noteq> max_u64"
    using ample_order(4,5)[OF assms(1), of "length vs" 0] vs(2) by simp_all
  have "sum_list (map (\<lambda>v. record_charge + value_bytes v) vs) \<le> 13600" by (rule short_values_used[OF vs(1)])
  then have "\<not> record_charge + value_bytes v > size_sub max_session_bytes (sum_list (map (\<lambda>v. record_charge + value_bytes v) vs))"
    using vs(3) by (simp add: size_sub_def max_session_bytes_def record_charge_def)
  then show ?thesis
    using assms(3) vs o emplace_stored_values[OF assms(1), of vs v]
    by (simp add: execute_def apply_put_value_def values_store_def default_limits_def max_stored_values_def identifier_next_def
        algebra_simps)
qed

lemma put_refused:
  assumes "length vs = max_stored_values" and "valid_value utf8 v"
  shows "execute (builtin_env utf8) ids (values_store n vs) (Put_value v) =
    Some (Remote_error (make_error EC_quota_exceeded), ids, values_store n vs)"
  using assms by (simp add: execute_def apply_put_value_def values_store_def default_limits_def)

lemma get_stored:
  assumes "ample n" and "short_values vs" and "i < length vs"
  shows "execute (builtin_env utf8) ids (values_store n vs) (Get_value (n + of_nat i)) =
    Some (Value_record \<lparr>vr_id = n + of_nat i, vr_data = vs ! i\<rparr>, ids, values_store n vs)"
proof -
  have "length vs \<le> 1000" using assms(2) by (simp add: short_values_def max_stored_values_def)
  then show ?thesis
    using find_stored_values[OF assms(1) _ assms(3)] ample_order(4)[OF assms(1), of i] assms(3)
    by (simp add: execute_def apply_get_value_def values_store_def)
qed

lemma page_full: "length page \<ge> limit \<Longrightarrow> page_values limit page bytes items = (page, items)"
  by (cases items) auto

lemma page_of_two:
  assumes "\<forall>e \<in> set items. value_bytes (snd e) \<le> 8"
  shows "page_values 2 [] 0 items = (map (\<lambda>e. \<lparr>vr_id = fst e, vr_data = snd e\<rparr>) (take 2 items), drop 2 items)"
proof -
  have small: "\<not> record_charge + b > size_sub page_byte_budget 0"
    "b \<le> 8 \<Longrightarrow> \<not> record_charge + c > size_sub page_byte_budget (record_charge + b)" if "b \<le> 8" "c \<le> 8" for b c
    using that by (simp_all add: size_sub_def page_byte_budget_def max_payload_bytes_def record_charge_def)
  show ?thesis
  proof (cases items)
    case (Cons a rest)
    then show ?thesis
      using assms small by (cases rest; cases a) (auto simp: Let_def numeral_2_eq_2 page_full split: prod.splits)
  qed simp
qed

text \<open>
  A page of two starting after the first \<open>i\<close> values.
\<close>

lemma list_page:
  assumes "ample n" and "short_values vs" and "i < length vs" and "after = (if i = 0 then 0 else n + of_nat (i - 1))"
  shows "execute (builtin_env utf8) ids (values_store n vs) (List_values after demo_page_size) =
    Some (Values_page
      \<lparr>vp_values = map (\<lambda>j. \<lparr>vr_id = n + of_nat j, vr_data = vs ! j\<rparr>) [i..<min (i + 2) (length vs)],
       vp_next = (if length vs \<le> i + 2 then 0 else n + of_nat (i + 1))\<rparr>, ids, values_store n vs)"
proof -
  have len: "length vs \<le> 1000" using assms(2) by (simp add: short_values_def max_stored_values_def)
  define items where "items = drop i (stored_values n vs)"
  have ub: "om_upper_bound after (stored_values n vs) = items"
    unfolding items_def using upper_bound_stored_values[OF assms(1) len _ assms(4)] assms(3) by simp
  have "\<forall>e \<in> set items. value_bytes (snd e) \<le> 8"
    using assms(2) by (auto simp: items_def stored_values_def short_values_def dest!: in_set_dropD)
  note page = page_of_two[OF this]
  have "take 2 items = map (\<lambda>j. (n + of_nat j, vs ! j)) [i..<min (i + 2) (length vs)]"
    using assms(3) by (simp add: items_def stored_values_def drop_map take_map flip: map_append) (simp add: min_def take_upt)
  then have recs: "map (\<lambda>e. \<lparr>vr_id = fst e, vr_data = snd e\<rparr>) (take 2 items) =
      map (\<lambda>j. \<lparr>vr_id = n + of_nat j, vr_data = vs ! j\<rparr>) [i..<min (i + 2) (length vs)]" by simp
  have rest: "drop 2 items = [] \<longleftrightarrow> length vs \<le> i + 2" by (auto simp: items_def)
  have "valid_page_size demo_page_size" "unat demo_page_size = 2"
    by (simp_all add: valid_page_size_def demo_page_size_def max_entries_def)
  then show ?thesis
    using ub page recs rest assms(3)
    by (auto simp: execute_def apply_list_values_def values_store_def Let_def vector_back_def last_map min_def)
qed


subsection \<open>Requests on objects\<close>

lemma demo_names [simp]:
  "valid_name ''Counter'' False" "valid_name ''TextBuffer'' False" "valid_name ''MissingClass'' False"
  "valid_name ''initial'' False" "valid_name ''value'' False" "valid_name ''text'' False" "valid_name ''missing'' False"
  "valid_name ''increment'' False" "valid_name ''delta'' False" "valid_name ''append'' False" "valid_name ''suffix'' False"
  by code_simp+

declare valid_name.simps [simp del]

lemma find_builtin [simp]:
  "registry_find (builtin_registry utf8) ''Counter'' = Some (counter_definition utf8)"
  "registry_find (builtin_registry utf8) ''TextBuffer'' = Some (text_buffer_definition utf8)"
  "registry_find (builtin_registry utf8) ''MissingClass'' = None"
  by (simp_all add: registry_find_def builtin_registry_def)

definition counter_entry :: "(string \<Rightarrow> bool) \<Rightarrow> i64 \<Rightarrow> builtin_object stored_object" where
  "counter_entry utf8 k =
     \<lparr>so_definition = counter_definition utf8, so_instance = Counter_object k, so_charge = 276\<rparr>"

definition text_entry :: "(string \<Rightarrow> bool) \<Rightarrow> string \<Rightarrow> builtin_object stored_object" where
  "text_entry utf8 t =
     \<lparr>so_definition = text_buffer_definition utf8, so_instance = Text_buffer_object t,
      so_charge = 270 + length t\<rparr>"

lemma counter_matches [simp]: "state_matches utf8 (counter_definition utf8) [\<lparr>nv_name = ''value'', nv_data = Integer k\<rparr>]"
  by (simp add: state_matches_def counter_description_def valid_named_values_def valid_names_iff state_charge_def
      max_entries_def max_object_state_bytes_def max_payload_bytes_def record_charge_def)

lemma text_matches:
  assumes "valid_value utf8 (Text t)"
  shows "state_matches utf8 (text_buffer_definition utf8) [\<lparr>nv_name = ''text'', nv_data = Text t\<rparr>]"
  using assms
  by (simp add: state_matches_def text_buffer_description_def valid_named_values_def valid_names_iff state_charge_def
      max_entries_def max_object_state_bytes_def max_payload_bytes_def record_charge_def max_string_bytes_def)

text \<open>
  A store with room for a few more objects.
\<close>

definition roomy :: "builtin_object session_store \<Rightarrow> bool" where
  "roomy st \<longleftrightarrow> \<not> ss_closed st \<and> ss_limits st = default_limits \<and> length (ss_objects st) < 10 \<and> ss_used st \<le> 1000000"

lemma roomy_fits:
  assumes "roomy st" and "c \<le> 10000"
  shows "\<not> c > size_sub max_session_bytes (ss_used st)" and "\<not> c > size_sub max_session_bytes (size_sub (ss_used st) d) \<or> d > ss_used st"
  using assms by (auto simp: roomy_def size_sub_def max_session_bytes_def)

lemma create_counter:
  assumes "roomy st" and "ids \<noteq> 0" and "ids \<noteq> max_u64"
  shows "execute (builtin_env utf8) ids st (Create_object ''Counter'' [\<lparr>nv_name = ''initial'', nv_data = Integer k\<rparr>]) =
    Some (Object_snapshot \<lparr>os_id = ids, os_class_name = ''Counter'', os_state = builtin_state (Counter_object k)\<rparr>, ids + 1,
      st\<lparr>ss_objects := om_emplace ids (counter_entry utf8 k) (ss_objects st), ss_used := ss_used st + (276)\<rparr>)"
proof -
  have fits: "\<not> 276 > size_sub max_session_bytes (ss_used st)"
    by (rule roomy_fits(1)[OF assms(1)]) simp
  show ?thesis
    using assms fits
    by (simp add: execute_def apply_create_object_def roomy_def default_limits_def max_stored_objects_def valid_arguments_def
        counter_description_def valid_named_values_def valid_names_iff max_entries_def counter_create_def single_argument_def
        state_charge_def identifier_next_def counter_entry_def record_charge_def Let_def)
qed

lemma create_text:
  assumes "roomy st" and "ids \<noteq> 0" and "ids \<noteq> max_u64" and "valid_value utf8 (Text t)" and "length t \<le> 100"
  shows "execute (builtin_env utf8) ids st (Create_object ''TextBuffer'' [\<lparr>nv_name = ''initial'', nv_data = Text t\<rparr>]) =
    Some (Object_snapshot \<lparr>os_id = ids, os_class_name = ''TextBuffer'', os_state = builtin_state (Text_buffer_object t)\<rparr>, ids + 1,
      st\<lparr>ss_objects := om_emplace ids (text_entry utf8 t) (ss_objects st),
         ss_used := ss_used st + (270 + length t)\<rparr>)"
proof -
  have fits: "\<not> 270 + length t > size_sub max_session_bytes (ss_used st)"
    by (rule roomy_fits(1)[OF assms(1)]) (use assms(5) in simp)
  show ?thesis
    using assms fits text_matches[OF assms(4)]
    by (simp add: execute_def apply_create_object_def roomy_def default_limits_def max_stored_objects_def valid_arguments_def
        text_buffer_description_def valid_named_values_def valid_names_iff max_entries_def text_buffer_create_def single_argument_def
        state_charge_def identifier_next_def text_entry_def record_charge_def Let_def add.commute)
qed

lemma create_missing:
  assumes "\<not> ss_closed st"
  shows "execute (builtin_env utf8) ids st (Create_object ''MissingClass'' args) =
    Some (Remote_error (make_error EC_not_found), ids, st)"
  using assms by (simp add: execute_def apply_create_object_def)

lemma get_counter:
  assumes "\<not> ss_closed st" and "i \<noteq> 0" and "om_find (ss_objects st) i = Some (counter_entry utf8 k)"
  shows "execute (builtin_env utf8) ids st (Get_object i) =
      Some (Object_snapshot \<lparr>os_id = i, os_class_name = ''Counter'', os_state = builtin_state (Counter_object k)\<rparr>, ids, st)"
    and "execute (builtin_env utf8) ids st (Get_attribute i ''value'') = Some (Value (Integer k), ids, st)"
    and "execute (builtin_env utf8) ids st (Get_attribute i ''missing'') = Some (Remote_error (make_error EC_not_found), ids, st)"
  using assms by (simp_all add: execute_def apply_get_attribute_def apply_get_object_def counter_entry_def)

lemma increment_counter:
  assumes "roomy st" and "i \<noteq> 0" and "om_find (ss_objects st) i = Some (counter_entry utf8 k)"
    and "276 \<le> ss_used st" and "\<not> (0 <s d \<and> int64_max - d <s k \<or> d <s 0 \<and> k <s int64_min - d)"
  shows "execute (builtin_env utf8) ids st (Invoke_method i ''increment'' [\<lparr>nv_name = ''delta'', nv_data = Integer d\<rparr>]) =
    Some (Value (Integer (k + d)), ids, st\<lparr>ss_objects := om_assign i (counter_entry utf8 (k + d)) (ss_objects st)\<rparr>)"
proof -
  have "\<not> 276 > size_sub max_session_bytes (size_sub (ss_used st) (276))"
    using roomy_fits(2)[OF assms(1), of "276" "276"] assms(4) by simp
  moreover have "size_sub (ss_used st) (276) + (276) = ss_used st"
    using assms(4) by (simp add: size_sub_def)
  ultimately show ?thesis
    using assms
    by (simp add: execute_def apply_invoke_method_def roomy_def default_limits_def counter_entry_def valid_arguments_def
        counter_description_def valid_named_values_def valid_names_iff max_entries_def counter_invoke_def single_argument_def
        state_charge_def record_charge_def Let_def)
qed

lemma increment_wrong:
  assumes "\<not> ss_closed st" and "i \<noteq> 0" and "om_find (ss_objects st) i = Some (counter_entry utf8 k)"
  shows "execute (builtin_env utf8) ids st (Invoke_method i ''increment'' [\<lparr>nv_name = ''delta'', nv_data = Text t\<rparr>]) =
    Some (Remote_error (make_error EC_invalid_request), ids, st)"
  using assms
  by (simp add: execute_def apply_invoke_method_def counter_entry_def valid_arguments_def counter_description_def Let_def)

lemma append_text:
  assumes "roomy st" and "i \<noteq> 0" and "om_find (ss_objects st) i = Some (text_entry utf8 t)"
    and "270 + length t \<le> ss_used st" and "valid_value utf8 (Text u)" and "valid_value utf8 (Text (t @ u))"
    and "length t + length u \<le> 100"
  shows "\<exists>st'. execute (builtin_env utf8) ids st (Invoke_method i ''append'' [\<lparr>nv_name = ''suffix'', nv_data = Text u\<rparr>]) =
      Some (Value (Text (t @ u)), ids, st') \<and> st' = st\<lparr>ss_objects := om_assign i (text_entry utf8 (t @ u)) (ss_objects st),
      ss_used := ss_used st + length u\<rparr>"
proof -
  have "\<not> 270 + length (t @ u) > size_sub max_session_bytes (size_sub (ss_used st) (270 + length t))"
    using roomy_fits(2)[OF assms(1), of "270 + length (t @ u)" "270 + length t"] assms(4,7)
    by simp
  moreover have "size_sub (ss_used st) (270 + length t) + (270 + length (t @ u)) = ss_used st + length u"
    using assms(4) by (simp add: size_sub_def)
  moreover have "\<not> length u > size_sub max_string_bytes (length t)"
    using assms(7) by (simp add: size_sub_def max_string_bytes_def)
  ultimately show ?thesis
    using assms text_matches[OF assms(6)]
    by (simp add: execute_def apply_invoke_method_def roomy_def default_limits_def text_entry_def valid_arguments_def
        text_buffer_description_def valid_named_values_def valid_names_iff max_entries_def text_buffer_invoke_def single_argument_def
        state_charge_def record_charge_def Let_def add.commute)
qed

lemma release_counter:
  assumes "\<not> ss_closed st" and "i \<noteq> 0" and "om_find (ss_objects st) i = Some entry"
  shows "execute env ids st (Release_object i) =
    Some (Released, ids, st\<lparr>ss_used := size_sub (ss_used st) (so_charge entry), ss_objects := om_erase i (ss_objects st)\<rparr>)"
  using assms by (simp add: execute_def apply_release_object_def)

lemma get_unknown:
  assumes "\<not> ss_closed st" and "i \<noteq> 0"
  shows "om_find (ss_objects st) i = None \<Longrightarrow>
      execute env ids st (Get_object i) = Some (Remote_error (make_error EC_not_found), ids, st)"
    and "om_find (ss_values st) i = None \<Longrightarrow>
      execute env ids st (Get_value i) = Some (Remote_error (make_error EC_not_found), ids, st)"
  using assms by (simp_all add: execute_def apply_get_object_def apply_get_value_def)

lemma list_builtin:
  assumes "\<not> ss_closed st"
  shows "execute (builtin_env utf8) ids st (List_classes [] default_page_size) =
    Some (Classes_page \<lparr>cp_names = [''Counter'', ''TextBuffer''], cp_next = []\<rparr>, ids, st)"
proof -
  have "map_option widen_classes_page (registry_list (builtin_registry structurally_valid) [] default_page_size) =
      Some (Classes_page \<lparr>cp_names = [''Counter'', ''TextBuffer''], cp_next = []\<rparr>)"
    by code_simp
  moreover have "registry_list (builtin_registry utf8) [] default_page_size = registry_list (builtin_registry structurally_valid) [] default_page_size"
    by (simp add: registry_list_def builtin_registry_def Let_def)
  ultimately show ?thesis using assms by (simp add: execute_def apply_list_classes_def)
qed

lemma describe_text:
  assumes "\<not> ss_closed st"
  shows "execute (builtin_env utf8) ids st (Describe_class ''TextBuffer'') = Some (Class_description text_buffer_description, ids, st)"
  using assms by (simp add: execute_def apply_describe_class_def)

end
