(* ===== verification/Scenario_Properties.thy ===== *)
theory Scenario_Properties
  imports Demo_Store
begin

section \<open>The demonstration passes\<close>

text \<open>
  The locale \<open>answering_server\<close> is what the demonstration relies on: connections whose calls a server
  answers as the sessions of theory \<open>Sessions\<close> do, with a session per connection that ends with it.
  In it every step of the scenario succeeds, from any state of the server that still has enough
  identifiers, in all three modes.
\<close>

definition records :: "u64 \<Rightarrow> value_t list \<Rightarrow> value_record list" where
  "records n vs = map (\<lambda>j. \<lparr>vr_id = n + of_nat j, vr_data = vs ! j\<rparr>) [0..<length vs]"

lemma records_snoc: "records n (vs @ [v]) = records n vs @ [\<lparr>vr_id = n + of_nat (length vs), vr_data = v\<rparr>]"
  by (simp add: records_def nth_append)

lemma length_records [simp]: "length (records n vs) = length vs"
  by (simp add: records_def)

locale answering_server = utf8_validator +
  fixes api :: "'w client_api" and host :: "'w \<Rightarrow> builtin_object host" and answer :: "'w \<Rightarrow> nat \<Rightarrow> outcome option"
  assumes now: "ca_now api w = (t, w') \<Longrightarrow> host w' = host w \<and> answer w' = answer w"
    and call: "host_step (builtin_env utf8) default_limits (host w) (Request c oper) = Some (Some r, h) \<Longrightarrow>
      ca_call_async api c oper until w = (f, w') \<Longrightarrow> host w' = h \<and> answer w f = None \<and> answer w' = (answer w)(f \<mapsto> r)"
    and result: "answer w f = Some r \<Longrightarrow> ca_result api f w = (x, w') \<Longrightarrow>
      (\<exists>res. x = Inr res \<and> rs_body res = r) \<and> host w' = host w \<and> answer w' = answer w"
    and create: "ca_create api w = (c, w') \<Longrightarrow> c = length (ho_sessions (host w)) \<and> host w' = host w"
    and connect: "ca_connect_async api (length (ho_sessions (host w))) endpoint until w = (f, w1) \<Longrightarrow>
      ca_connected api f w1 = (y, w2) \<Longrightarrow>
      y = Inr () \<and> host_step (builtin_env utf8) default_limits (host w) Connect = Some (None, host w2)"
    and close: "host_step (builtin_env utf8) default_limits (host w) (Disconnect c) = Some (None, host (ca_close api c w))"
    and accented: "utf8 (''caf'' @ [CHR 0xC3, CHR 0xA9])"
begin

text \<open>
  The scenario and its session: who it is, the identifier source and the store it will meet, and all
  other sessions.
\<close>

abbreviation empty_session :: "builtin_object session_store" where
  "empty_session \<equiv> session_store_init default_limits"

definition ready ::
  "builtin_object session_store list \<Rightarrow> nat \<Rightarrow> u64 \<Rightarrow> u64 \<Rightarrow> scenario \<Rightarrow> 'w \<Rightarrow> u64 \<Rightarrow> builtin_object session_store \<Rightarrow> bool" where
  "ready rest c obj v sc w ids st \<longleftrightarrow> sx_client sc = c \<and> sx_retained_object sc = obj \<and> sx_stored_value sc = v \<and>
     c < length (ho_sessions (host w)) \<and> ho_ids (host w) = ids \<and> ho_sessions (host w) ! c = st \<and>
     (ho_sessions (host w))[c := empty_session] = rest"

lemma request_step:
  assumes "c < length (ho_sessions (host w))" and "ho_ids (host w) = ids" and "ho_sessions (host w) ! c = st"
    and "execute (builtin_env utf8) ids st oper = Some (r, ids', st')"
  shows "host_step (builtin_env utf8) default_limits (host w) (Request c oper) =
    Some (Some r, \<lparr>ho_ids = ids', ho_sessions = (ho_sessions (host w))[c := st']\<rparr>)"
  using assms by simp

lemma execute_answer:
  assumes "ready rest c obj v sc w ids st" and "execute (builtin_env utf8) ids st oper = Some (r, ids', st')"
  obtains res sc' w' where "scenario_execute api iv oper sc w = (Inr res, sc', w')" and "rs_body res = r"
    and "ready rest c obj v sc' w' ids' st'"
proof -
  define sc' where "sc' = sc\<lparr>sx_calls := Suc (sx_calls sc)\<rparr>"
  obtain t w1 where n: "ca_now api w = (t, w1)" by (metis surj_pair)
  have w1: "host w1 = host w" using now[OF n] by simp
  define until where "until = t + iv_timeout iv * 1000000"
  obtain f w2 where c: "ca_call_async api c oper until w1 = (f, w2)" by (metis surj_pair)
  obtain x w3 where x: "ca_result api f w2 = (x, w3)" by (metis surj_pair)
  have st: "c < length (ho_sessions (host w1))" "ho_ids (host w1) = ids" "ho_sessions (host w1) ! c = st"
    using assms(1) w1 by (simp_all add: ready_def)
  note w2 = call[OF request_step[OF st assms(2)] c]
  have "answer w2 f = Some r" using w2 by simp
  from result[OF this x] obtain res where res: "x = Inr res" "rs_body res = r" and w3: "host w3 = host w2" by blast
  have "sx_client sc' = c" using assms(1) by (simp add: ready_def sc'_def)
  then have "scenario_execute api iv oper sc w = (Inr res, sc', w3)"
    using n c x res(1) by (simp add: scenario_execute_def scenario_until_def connection_call_def Let_def flip: sc'_def until_def)
  moreover have "ready rest c obj v sc' w3 ids' st'"
    using assms(1) w1 w2 w3 by (auto simp: ready_def sc'_def)
  ultimately show thesis using that res(2) by blast
qed

lemma ask_answer:
  assumes "ready rest c obj v sc w ids st" and "execute (builtin_env utf8) ids st oper = Some (r, ids', st')"
  obtains sc' w' where "ask api iv select oper sc w = (select r, sc', w')" and "ready rest c obj v sc' w' ids' st'"
proof -
  obtain res sc' w' where "scenario_execute api iv oper sc w = (Inr res, sc', w')" "rs_body res = r" "ready rest c obj v sc' w' ids' st'"
    using execute_answer[OF assms] by blast
  then show thesis using that by (simp add: ask_def extract_outcome_def)
qed

lemma expect_answer:
  assumes "ready rest c obj v sc w ids st" and "execute (builtin_env utf8) ids st oper = Some (Remote_error (make_error code), ids', st')"
    and "re_code (make_error code) = code"
  obtains sc' w' where "expect_error api iv oper code sc w = (True, sc', w')" and "ready rest c obj v sc' w' ids' st'"
proof -
  obtain sc' w' where "ask api iv as_remote_error oper sc w = (as_remote_error (Remote_error (make_error code)), sc', w')"
    "ready rest c obj v sc' w' ids' st'"
    using ask_answer[OF assms(1,2)] by blast
  then show thesis using that assms(3) by (simp add: expect_error_def)
qed

subsection \<open>Values\<close>

lemma store_each_answers:
  assumes "ample n" and "short_values (vs @ inputs)" and "\<forall>x \<in> set inputs. valid_value utf8 x"
    and "ready rest c obj v sc w (n + of_nat (length vs)) (values_store n vs)"
  shows "\<exists>sc' w'. store_each api iv inputs (records n vs) sc w = (Some (records n (vs @ inputs)), sc', w') \<and>
    ready rest c obj v sc' w' (n + of_nat (length (vs @ inputs))) (values_store n (vs @ inputs))"
  using assms(2-4)
proof (induction inputs arbitrary: vs sc w)
  case (Cons x inputs)
  have short: "short_values (vs @ [x])" using Cons.prems(1) by (auto simp: short_values_def)
  obtain sc1 w1 where a: "ask api iv as_value_record (Put_value x) sc w =
      (Some \<lparr>vr_id = n + of_nat (length vs), vr_data = x\<rparr>, sc1, w1)"
    "ready rest c obj v sc1 w1 (n + of_nat (length (vs @ [x]))) (values_store n (vs @ [x]))"
    using ask_answer[OF Cons.prems(3) put_accepted[OF assms(1) short], of iv as_value_record] Cons.prems(2) by auto
  then show ?case
    using Cons.IH[of "vs @ [x]" sc1 w1] Cons.prems(1,2) by (simp add: records_snoc)
qed simp

abbreviation promised :: "'w \<Rightarrow> nat list \<Rightarrow> value_record list \<Rightarrow> bool" where
  "promised w pending rs \<equiv> list_all2 (\<lambda>f x. answer w f = Some (Value_record x)) pending rs"

lemma submit_all_answers:
  assumes "ample n" and "short_values (vs @ inputs)" and "\<forall>x \<in> set inputs. valid_value utf8 x"
    and "ready rest c obj v sc w (n + of_nat (length vs)) (values_store n vs)" and "promised w pending (records n vs)"
  shows "\<exists>pending' w'. submit_all api iv c inputs pending w = (pending', w') \<and>
    promised w' pending' (records n (vs @ inputs)) \<and>
    ready rest c obj v sc w' (n + of_nat (length (vs @ inputs))) (values_store n (vs @ inputs))"
  using assms(2-5)
proof (induction inputs arbitrary: vs w pending)
  case (Cons x inputs)
  have short: "short_values (vs @ [x])" using Cons.prems(1) by (auto simp: short_values_def)
  obtain t w1 where n: "ca_now api w = (t, w1)" by (metis surj_pair)
  have w1: "host w1 = host w" "answer w1 = answer w" using now[OF n] by simp_all
  define until where "until = t + iv_timeout iv * 1000000"
  obtain f w2 where c: "ca_call_async api c (Put_value x) until w1 = (f, w2)" by (metis surj_pair)
  have st: "c < length (ho_sessions (host w1))" "ho_ids (host w1) = n + of_nat (length vs)" "ho_sessions (host w1) ! c = values_store n vs"
    using Cons.prems(3) w1 by (simp_all add: ready_def)
  have "valid_value utf8 x" using Cons.prems(2) by simp
  note w2 = call[OF request_step[OF st put_accepted[OF assms(1) short this]] c]
  have "list_all2 (\<lambda>f x. answer w2 f = Some (Value_record x)) pending (records n vs)"
    using Cons.prems(4) w1 w2 by (auto elim!: list_all2_mono)
  then have p: "promised w2 (pending @ [f]) (records n (vs @ [x]))"
    using w2 by (simp add: records_snoc list_all2_appendI)
  have r: "ready rest c obj v sc w2 (n + of_nat (length (vs @ [x]))) (values_store n (vs @ [x]))"
    using Cons.prems(3) w1 w2 by (auto simp: ready_def)
  show ?case
    using Cons.IH[OF _ _ r p] Cons.prems(1,2) n c
    by (simp add: scenario_until_def flip: until_def)
qed simp

lemma collect_all_answers:
  assumes "promised w pending rs"
  shows "\<exists>w'. collect_all api pending saved w = (Some (saved @ rs), w') \<and> host w' = host w"
  using assms
proof (induction pending arbitrary: rs saved w)
  case (Cons f pending)
  then obtain x rs' where rs: "rs = x # rs'" "answer w f = Some (Value_record x)" "promised w pending rs'"
    by (auto simp: list_all2_Cons1)
  obtain y w1 where y: "ca_result api f w = (y, w1)" by (metis surj_pair)
  then obtain res where res: "y = Inr res" "rs_body res = Value_record x" "host w1 = host w" "answer w1 = answer w"
    using result[OF rs(2)] by blast
  then show ?case
    using Cons.IH[of w1 rs' "saved @ [x]"] rs y by (simp add: extract_outcome_def)
qed simp

lemma store_inputs_answers:
  assumes "ample n" and "short_values inputs" and "\<forall>x \<in> set inputs. valid_value utf8 x" and "inputs = demo_inputs"
    and "ready rest c obj v sc w n (values_store n [])"
  shows "\<exists>sc' w'. store_inputs api iv sc w = (Some (records n inputs), sc', w') \<and>
    ready rest c obj v sc' w' (n + of_nat (length inputs)) (values_store n inputs)"
proof (cases "iv_command iv = Cmd_demo_sync")
  case True
  then show ?thesis
    using store_each_answers[of n "[]" inputs rest c obj v sc w iv] assms by (simp add: store_inputs_def records_def)
next
  case False
  have c: "sx_client sc = c" using assms(5) by (simp add: ready_def)
  obtain pending w1 where s: "submit_all api iv c inputs [] w = (pending, w1)" "promised w1 pending (records n inputs)"
    "ready rest c obj v sc w1 (n + of_nat (length inputs)) (values_store n inputs)"
    using submit_all_answers[of n "[]" inputs rest c obj v sc w "[]" iv] assms by (auto simp: records_def)
  obtain w2 where "collect_all api pending [] w1 = (Some (records n inputs), w2)" "host w2 = host w1"
    using collect_all_answers[OF s(2), of "[]"] by auto
  then show ?thesis
    using False s c assms(4) by (auto simp: store_inputs_def ready_def)
qed

lemma read_back_answers:
  assumes "ample n" and "short_values vs" and "\<forall>x \<in> set vs. value_eq x x" and "i \<le> length vs"
    and "ready rest c obj v sc w ids (values_store n vs)"
  shows "\<exists>sc' w'. read_back api iv (zip (drop i (records n vs)) (drop i vs)) sc w = (True, sc', w') \<and>
    ready rest c obj v sc' w' ids (values_store n vs)"
  using assms(4,5)
proof (induction "length vs - i" arbitrary: i sc w)
  case 0
  then show ?case by simp
next
  case (Suc k)
  then have i: "i < length vs" by simp
  have d: "drop i (records n vs) = \<lparr>vr_id = n + of_nat i, vr_data = vs ! i\<rparr> # drop (Suc i) (records n vs)"
    "drop i vs = vs ! i # drop (Suc i) vs"
    using i by (simp_all add: records_def Cons_nth_drop_Suc[symmetric])
  obtain sc1 w1 where a: "ask api iv as_value_record (Get_value (n + of_nat i)) sc w =
      (Some \<lparr>vr_id = n + of_nat i, vr_data = vs ! i\<rparr>, sc1, w1)" "ready rest c obj v sc1 w1 ids (values_store n vs)"
    using ask_answer[OF Suc.prems(2) get_stored[OF assms(1,2) i], of iv as_value_record] by auto
  have "value_eq (vs ! i) (vs ! i)" using assms(3) i by simp
  then show ?case using Suc.hyps(1)[of "Suc i" sc1 w1] Suc.hyps(2) Suc.prems a d by simp
qed

lemma list_pages_answers:
  assumes "ample n" and "short_values vs" and "i < length vs" and "cursor = (if i = 0 then 0 else n + of_nat (i - 1))"
    and "ready rest c obj v sc w ids (values_store n vs)"
  shows "\<exists>sc' w'. list_pages api iv (length vs) (take i (records n vs)) cursor sc w = (Some (records n vs), sc', w') \<and>
    ready rest c obj v sc' w' ids (values_store n vs)"
  using assms(3-5)
proof (induction "length vs - i" arbitrary: i cursor sc w rule: less_induct)
  case less
  define page where "page = \<lparr>vp_values = map (\<lambda>j. \<lparr>vr_id = n + of_nat j, vr_data = vs ! j\<rparr>) [i..<min (i + 2) (length vs)],
       vp_next = (if length vs \<le> i + 2 then 0 else n + of_nat (i + 1))\<rparr>"
  obtain sc1 w1 where a: "ask api iv as_values_page (List_values cursor demo_page_size) sc w = (Some page, sc1, w1)"
    "ready rest c obj v sc1 w1 ids (values_store n vs)"
    using ask_answer[OF less.prems(3) list_page[OF assms(1,2) less.prems(1,2)], of iv as_values_page] by (auto simp: page_def)
  have len: "length vs \<le> 1000" using assms(2) by (simp add: short_values_def max_stored_values_def)
  have taken: "take i (records n vs) @ vp_values page = take (i + 2) (records n vs)"
    using less.prems(1) upt_add_eq_append[of 0 i "min 2 (length vs - i)"]
    by (simp add: records_def page_def take_map min_def flip: map_append) (auto simp: le_diff_conv2 add.commute)
  have fits: "\<not> length (take i (records n vs)) + length (vp_values page) > length vs"
    using less.prems(1) by (simp add: page_def)
  show ?case
  proof (cases "length vs \<le> i + 2")
    case True
    then show ?thesis
      using a fits taken by (subst list_pages.simps) (simp add: page_def)
  next
    case False
    have nz: "vp_next page \<noteq> 0" "\<not> (vp_values page = [] \<or> vp_next page \<le> cursor)"
    proof -
      show "vp_next page \<noteq> 0" using False ample_order(4)[OF assms(1), of "i + 1" 0] len by (simp add: page_def)
      have "\<not> n + of_nat (i + 1) \<le> cursor"
        using less.prems(2) ample_order(2)[OF assms(1), of "i + 1" "i - 1"] ample_order(4)[OF assms(1), of "i + 1" 0] False len
        by (cases i) (auto simp: word_le_nat_alt unat_eq_zero)
      then show "\<not> (vp_values page = [] \<or> vp_next page \<le> cursor)" using False by (simp add: page_def)
    qed
    have "\<exists>sc' w'. list_pages api iv (length vs) (take (i + 2) (records n vs)) (n + of_nat (i + 1)) sc1 w1 =
        (Some (records n vs), sc', w') \<and> ready rest c obj v sc' w' ids (values_store n vs)"
      using less.hyps[of "i + 2" "n + of_nat (i + 1)" sc1 w1] False a(2) less.prems(1) by simp
    then show ?thesis
      using a fits taken nz False by (subst list_pages.simps) (simp add: page_def)
  qed
qed

lemma probe_answers:
  assumes "ample n" and "short_values vs" and "max_stored_values - length vs < k"
    and "ready rest c obj v sc w (n + of_nat (length vs)) (values_store n vs)"
  shows "\<exists>vs' sc' w'. probe_quota api iv k sc w = (True, sc', w') \<and> short_values vs' \<and> length vs' = max_stored_values \<and>
    ready rest c obj v sc' w' (n + of_nat max_stored_values) (values_store n vs')"
  using assms(2-4)
proof (induction k arbitrary: vs sc w)
  case (Suc k)
  show ?case
  proof (cases "length vs = max_stored_values")
    case True
    obtain res sc1 w1 where "scenario_execute api iv (Put_value (Integer 0)) sc w = (Inr res, sc1, w1)"
      "rs_body res = Remote_error (make_error EC_quota_exceeded)" "ready rest c obj v sc1 w1 (n + of_nat (length vs)) (values_store n vs)"
      using execute_answer[OF Suc.prems(3) put_refused[OF True], of "Integer 0" iv] by auto
    then show ?thesis using True Suc.prems(1) by (auto simp: make_error_def)
  next
    case False
    then have "short_values (vs @ [Integer 0])" using Suc.prems(1) by (auto simp: short_values_def)
    note put = put_accepted[OF assms(1) this]
    obtain res sc1 w1 where e: "scenario_execute api iv (Put_value (Integer 0)) sc w = (Inr res, sc1, w1)"
      "rs_body res = Value_record \<lparr>vr_id = n + of_nat (length vs), vr_data = Integer 0\<rparr>"
      "ready rest c obj v sc1 w1 (n + of_nat (length (vs @ [Integer 0]))) (values_store n (vs @ [Integer 0]))"
      using execute_answer[OF Suc.prems(3) put, of iv] by auto
    have "length vs < max_stored_values" using False Suc.prems(1) by (simp add: short_values_def)
    then show ?thesis
      using Suc.IH[OF \<open>short_values (vs @ [Integer 0])\<close> _ e(3)] Suc.prems(2) e by auto
  qed
qed simp

lemma demo_inputs_valid: "\<forall>x \<in> set demo_inputs. valid_value utf8 x" "short_values demo_inputs" "\<forall>x \<in> set demo_inputs. value_eq x x"
proof -
  have "utf8 []" using utf8_ascii[of "[]"] by simp
  then show "\<forall>x \<in> set demo_inputs. valid_value utf8 x"
    using accented by (simp add: demo_inputs_def max_string_bytes_def isfinite_def)
  show "short_values demo_inputs" by (simp add: demo_inputs_def short_values_def max_stored_values_def)
  show "\<forall>x \<in> set demo_inputs. value_eq x x" by code_simp
qed

lemma records_eq: "\<forall>x \<in> set vs. value_eq x x \<Longrightarrow> list_all2 record_eq (records n vs) (records n vs)"
  by (auto simp: list_all2_conv_all_nth record_eq_def records_def)

lemma values_answers:
  assumes "ample n" and "ready rest c obj v sc w n (values_store n [])"
  obtains vs sc' w' where "scenario_values api iv sc w = (True, sc', w')" and "short_values vs" and "length vs = max_stored_values"
    and "ready rest c obj n sc' w' (n + of_nat max_stored_values) (values_store n vs)"
proof -
  note inputs = demo_inputs_valid
  have six: "length demo_inputs = 6" by (simp add: demo_inputs_def)
  obtain sc1 w1 where a: "store_inputs api iv sc w = (Some (records n demo_inputs), sc1, w1)"
    "ready rest c obj v sc1 w1 (n + of_nat (length demo_inputs)) (values_store n demo_inputs)"
    using store_inputs_answers[OF assms(1) inputs(2,1) refl assms(2)] by blast
  obtain sc2 w2 where b: "read_back api iv (zip (records n demo_inputs) demo_inputs) sc1 w1 = (True, sc2, w2)"
    "ready rest c obj v sc2 w2 (n + of_nat (length demo_inputs)) (values_store n demo_inputs)"
    using read_back_answers[OF assms(1) inputs(2,3) _ a(2), where i = 0 and iv = iv] by auto
  obtain sc3 w3 where l: "list_pages api iv (length demo_inputs) [] 0 sc2 w2 = (Some (records n demo_inputs), sc3, w3)"
    "ready rest c obj v sc3 w3 (n + of_nat (length demo_inputs)) (values_store n demo_inputs)"
    using list_pages_answers[OF assms(1) inputs(2) _ _ b(2), where i = 0 and iv = iv and cursor = 0] six by auto
  have hd: "vr_id (hd (records n demo_inputs)) = n" by (simp add: records_def demo_inputs_def upt_rec)
  have r: "ready rest c obj n (sc3\<lparr>sx_stored_value := n\<rparr>) w3 (n + of_nat (length demo_inputs)) (values_store n demo_inputs)"
    using l(2) by (simp add: ready_def)
  have k: "max_stored_values - length demo_inputs < quota_probe_limit"
    using six by (simp add: max_stored_values_def quota_probe_limit_def)
  obtain vs sc4 w4 where q: "probe_quota api iv quota_probe_limit (sc3\<lparr>sx_stored_value := n\<rparr>) w3 = (True, sc4, w4)"
    "short_values vs" "length vs = max_stored_values" "ready rest c obj n sc4 w4 (n + of_nat max_stored_values) (values_store n vs)"
    using probe_answers[OF assms(1) inputs(2) k r] by blast
  show thesis
    using that[of sc4 w4 vs] a(1) b(1) l(1) q hd records_eq[OF inputs(3)] by (simp add: scenario_values_def)
qed

subsection \<open>Objects\<close>

text \<open>
  A store without objects, and three identifiers that follow each other.
\<close>

definition spare :: "u64 \<Rightarrow> builtin_object session_store \<Rightarrow> bool" where
  "spare a st \<longleftrightarrow> \<not> ss_closed st \<and> ss_limits st = default_limits \<and> ss_objects st = [] \<and> ss_used st \<le> 13600 \<and>
     a \<noteq> 0 \<and> a < a + 1 \<and> a + 1 < a + 2 \<and> a + 2 < a + 3"

definition holding :: "builtin_object session_store \<Rightarrow> (u64 \<times> builtin_object stored_object) list \<Rightarrow> nat \<Rightarrow> builtin_object session_store" where
  "holding st objs extra = st\<lparr>ss_objects := objs, ss_used := ss_used st + extra\<rparr>"

lemma holding_simps [simp]:
  "ss_objects (holding st objs extra) = objs" "ss_used (holding st objs extra) = ss_used st + extra"
  "ss_closed (holding st objs extra) = ss_closed st" "ss_limits (holding st objs extra) = ss_limits st"
  "holding st objs extra\<lparr>ss_objects := objs'\<rparr> = holding st objs' extra"
  "holding st objs extra\<lparr>ss_used := ss_used st + extra'\<rparr> = holding st objs extra'"
  "holding st objs extra\<lparr>ss_used := extra' + ss_used st\<rparr> = holding st objs extra'"
  by (simp_all add: holding_def)

lemma spare_ids:
  assumes "spare a st"
  shows "a \<noteq> 0" "a + 1 \<noteq> 0" "a + 2 \<noteq> 0" "a \<noteq> max_u64" "a + 1 \<noteq> max_u64" "a + 2 \<noteq> max_u64"
    "a < a + 1" "a < a + 2" "a + 1 < a + 2" "a + 1 + 1 = a + 2" "a + 2 + 1 = a + 3"
    "\<not> a + 1 < a" "\<not> a + 2 < a" "\<not> a + 2 < a + 1" "a + 1 \<noteq> a" "a + 2 \<noteq> a" "a + 2 \<noteq> a + 1"
  using assms by (auto simp: spare_def max_u64_def word_less_nat_alt)

lemma spare_roomy: "spare a st \<Longrightarrow> length objs < 10 \<Longrightarrow> extra \<le> 10000 \<Longrightarrow> roomy (holding st objs extra)"
  by (simp add: spare_def roomy_def)

lemma spare_empty: "spare a st \<Longrightarrow> holding st [] 0 = st"
  by (simp add: spare_def holding_def)

lemma describe_classes_answers:
  assumes "ready rest c obj v sc w ids st" and "\<not> ss_closed st"
  obtains sc' w' where "describe_classes api iv sc w = (True, sc', w')" and "ready rest c obj v sc' w' ids st"
proof -
  obtain sc1 w1 where a: "ask api iv as_classes_page (List_classes [] default_page_size) sc w =
      (as_classes_page (Classes_page \<lparr>cp_names = [''Counter'', ''TextBuffer''], cp_next = []\<rparr>), sc1, w1)" "ready rest c obj v sc1 w1 ids st"
    using ask_answer[OF assms(1) list_builtin[OF assms(2)]] by blast
  obtain sc2 w2 where b: "ask api iv as_class_description (Describe_class ''TextBuffer'') sc1 w1 =
      (as_class_description (Class_description text_buffer_description), sc2, w2)" "ready rest c obj v sc2 w2 ids st"
    using ask_answer[OF a(2) describe_text[OF assms(2)]] by blast
  have "binary_search [''Counter'', ''TextBuffer''] ''Counter''" "binary_search [''Counter'', ''TextBuffer''] ''TextBuffer''"
    by code_simp+
  then show thesis using that[of sc2 w2] a b by (simp add: describe_classes_def text_buffer_description_def)
qed

lemma use_counters_answers:
  assumes "spare a st" and "ready rest c obj v sc w a st"
  obtains sc' w' where "use_counters api iv sc w = (Some (a, a + 1), sc', w')"
    and "ready rest c (a + 1) v sc' w' (a + 2) (holding st [(a, counter_entry utf8 12), (a + 1, counter_entry utf8 42)] 552)"
proof -
  note ids = spare_ids[OF assms(1)] and room = spare_roomy[OF assms(1)]
  let ?one = "[(a, counter_entry utf8 7)]"
  let ?two = "[(a, counter_entry utf8 7), (a + 1, counter_entry utf8 42)]"
  let ?three = "[(a, counter_entry utf8 12), (a + 1, counter_entry utf8 42)]"
  have "ready rest c obj v sc w a (holding st [] 0)" using assms by (simp add: spare_empty)
  then obtain sc1 w1 where a: "ask api iv as_object_snapshot
      (Create_object ''Counter'' [\<lparr>nv_name = ''initial'', nv_data = Integer initial_counter\<rparr>]) sc w =
      (Some \<lparr>os_id = a, os_class_name = ''Counter'', os_state = builtin_state (Counter_object 7)\<rparr>, sc1, w1)"
    "ready rest c obj v sc1 w1 (a + 1) (holding st ?one 276)"
    using ask_answer[OF _ create_counter[OF room[of "[]" 0] ids(1,4), of utf8 7], of rest c obj v sc w iv as_object_snapshot] by (auto simp: initial_counter_def)
  obtain sc2 w2 where b: "ask api iv as_object_snapshot
      (Create_object ''Counter'' [\<lparr>nv_name = ''initial'', nv_data = Integer other_counter\<rparr>]) sc1 w1 =
      (Some \<lparr>os_id = a + 1, os_class_name = ''Counter'', os_state = builtin_state (Counter_object 42)\<rparr>, sc2, w2)"
    "ready rest c obj v sc2 w2 (a + 2) (holding st ?two 552)"
    using ask_answer[OF a(2) create_counter[OF room[of ?one 276] ids(2,5), of utf8 42], of iv as_object_snapshot] ids
    by (auto simp: other_counter_def add.assoc)
  define sc3 where "sc3 = sc2\<lparr>sx_retained_object := a + 1\<rparr>"
  have r3: "ready rest c (a + 1) v sc3 w2 (a + 2) (holding st ?two 552)" using b(2) by (simp add: ready_def sc3_def)
  obtain sc4 w4 where d: "ask api iv as_value
      (Invoke_method a ''increment'' [\<lparr>nv_name = ''delta'', nv_data = Integer increment\<rparr>]) sc3 w2 = (Some (Integer 12), sc4, w4)"
    "ready rest c (a + 1) v sc4 w4 (a + 2) (holding st ?three 552)"
    using ask_answer[OF r3 increment_counter[OF room[of ?two 552] ids(1), of utf8 7 5], of iv as_value] ids
    by (auto simp: increment_def om_find_def om_assign_def int64_max_def int64_min_def word_sless_alt)
  have find: "om_find (ss_objects (holding st ?three 552)) a = Some (counter_entry utf8 12)"
    "om_find (ss_objects (holding st ?three 552)) (a + 1) = Some (counter_entry utf8 42)" "\<not> ss_closed (holding st ?three 552)"
    using ids assms(1) by (auto simp: om_find_def spare_def)
  obtain sc5 w5 where e: "ask api iv as_value (Get_attribute a ''value'') sc4 w4 = (Some (Integer 12), sc5, w5)"
    "ready rest c (a + 1) v sc5 w5 (a + 2) (holding st ?three 552)"
    using ask_answer[OF d(2) get_counter(2)[OF find(3) ids(1) find(1)], of iv as_value] by auto
  obtain sc6 w6 where f: "ask api iv as_object_snapshot (Get_object a) sc5 w5 =
      (Some \<lparr>os_id = a, os_class_name = ''Counter'', os_state = builtin_state (Counter_object 12)\<rparr>, sc6, w6)"
    "ready rest c (a + 1) v sc6 w6 (a + 2) (holding st ?three 552)"
    using ask_answer[OF e(2) get_counter(1)[OF find(3) ids(1) find(1)], of iv as_object_snapshot] by auto
  obtain sc7 w7 where g: "ask api iv as_value (Get_attribute (a + 1) ''value'') sc6 w6 = (Some (Integer 42), sc7, w7)"
    "ready rest c (a + 1) v sc7 w7 (a + 2) (holding st ?three 552)"
    using ask_answer[OF f(2) get_counter(2)[OF find(3) ids(2) find(2)], of iv as_value] by auto
  show thesis
    using that[OF _ g(2)] a(1) b(1) d(1) e(1) f(1) g(1) ids
    by (simp add: use_counters_def Let_def sc3_def initial_counter_def other_counter_def increment_def named_eq_def)
qed

lemma use_text_answers:
  assumes "spare a st" and "ready rest c obj v sc w (a + 2) (holding st [(a, counter_entry utf8 12), (a + 1, counter_entry utf8 42)] 552)"
  obtains sc' w' where "use_text api iv sc w = (True, sc', w')"
    and "ready rest c obj v sc' w' (a + 3) (holding st
      [(a, counter_entry utf8 12), (a + 1, counter_entry utf8 42), (a + 2, text_entry utf8 ''hello world'')] 833)"
proof -
  note ids = spare_ids[OF assms(1)] and room = spare_roomy[OF assms(1)]
  let ?two = "[(a, counter_entry utf8 12), (a + 1, counter_entry utf8 42)]"
  have texts: "valid_value utf8 (Text ''hello'')" "valid_value utf8 (Text '' world'')" "valid_value utf8 (Text (''hello'' @ '' world''))"
    using utf8_ascii by (simp_all add: max_string_bytes_def)
  obtain sc1 w1 where a: "ask api iv as_object_snapshot
      (Create_object ''TextBuffer'' [\<lparr>nv_name = ''initial'', nv_data = Text ''hello''\<rparr>]) sc w =
      (Some \<lparr>os_id = a + 2, os_class_name = ''TextBuffer'', os_state = builtin_state (Text_buffer_object ''hello'')\<rparr>, sc1, w1)"
    "ready rest c obj v sc1 w1 (a + 3) (holding st (?two @ [(a + 2, text_entry utf8 ''hello'')]) 827)"
    using ask_answer[OF assms(2) create_text[OF room[of ?two 552] ids(3,6) texts(1)], of iv as_object_snapshot] ids
    by (auto simp: emplace_last add.assoc)
  have r: "roomy (holding st (?two @ [(a + 2, text_entry utf8 ''hello'')]) 827)" by (rule room) simp_all
  have find: "om_find (ss_objects (holding st (?two @ [(a + 2, text_entry utf8 ''hello'')]) 827)) (a + 2) = Some (text_entry utf8 ''hello'')"
    using ids by (auto simp: om_find_def)
  obtain st' where e: "execute (builtin_env utf8) (a + 3) (holding st (?two @ [(a + 2, text_entry utf8 ''hello'')]) 827)
      (Invoke_method (a + 2) ''append'' [\<lparr>nv_name = ''suffix'', nv_data = Text '' world''\<rparr>]) = Some (Value (Text ''hello world''), a + 3, st')"
    "st' = holding st (?two @ [(a + 2, text_entry utf8 ''hello world'')]) 833"
    using append_text[OF r ids(3) find _ texts(2,3), of "a + 3"] ids by (auto simp: om_assign_def)
  obtain sc2 w2 where b: "ask api iv as_value
      (Invoke_method (a + 2) ''append'' [\<lparr>nv_name = ''suffix'', nv_data = Text '' world''\<rparr>]) sc1 w1 =
      (Some (Text ''hello world''), sc2, w2)" "ready rest c obj v sc2 w2 (a + 3) st'"
    using ask_answer[OF a(2) e(1), of iv as_value] by auto
  show thesis using that[of sc2 w2] a(1) b e(2) by (simp add: use_text_def)
qed

lemma answer_codes: "re_code (make_error EC_not_found) = EC_not_found" "re_code (make_error EC_invalid_request) = EC_invalid_request"
  by (simp_all add: make_error_def)

lemma provoke_errors_answers:
  assumes "ready rest c obj v sc w ids st" and "\<not> ss_closed st" and "i \<noteq> 0" and "om_find (ss_objects st) i = Some (counter_entry utf8 k)"
  obtains sc' w' where "provoke_errors api iv i sc w = (True, sc', w')" and "ready rest c obj v sc' w' ids st"
proof -
  obtain sc1 w1 where a: "expect_error api iv (Invoke_method i ''increment'' [\<lparr>nv_name = ''delta'', nv_data = Text ''wrong''\<rparr>])
      EC_invalid_request sc w = (True, sc1, w1)" "ready rest c obj v sc1 w1 ids st"
    using expect_answer[OF assms(1) increment_wrong[OF assms(2-4)] answer_codes(2)] by blast
  obtain sc2 w2 where b: "expect_error api iv (Get_attribute i ''missing'') EC_not_found sc1 w1 = (True, sc2, w2)"
    "ready rest c obj v sc2 w2 ids st"
    using expect_answer[OF a(2) get_counter(3)[OF assms(2-4)] answer_codes(1)] by blast
  obtain sc3 w3 where d: "expect_error api iv (Create_object ''MissingClass'' []) EC_not_found sc2 w2 = (True, sc3, w3)"
    "ready rest c obj v sc3 w3 ids st"
    using expect_answer[OF b(2) create_missing[OF assms(2)] answer_codes(1)] by blast
  show thesis using that[of sc3 w3] a b d by (simp add: provoke_errors_def)
qed

lemma release_first_answers:
  assumes "ready rest c obj v sc w ids st" and "\<not> ss_closed st" and "i \<noteq> 0" and "om_find (ss_objects st) i = Some entry"
    and "om_find (om_erase i (ss_objects st)) i = None"
  obtains sc' w' st' where "release_first api iv i sc w = (True, sc', w')" and "ready rest c obj v sc' w' ids st'"
    and "ss_limits st' = ss_limits st"
proof -
  define st' where "st' = st\<lparr>ss_used := size_sub (ss_used st) (so_charge entry), ss_objects := om_erase i (ss_objects st)\<rparr>"
  obtain sc1 w1 where a: "ask api iv as_released (Release_object i) sc w = (as_released Released, sc1, w1)" "ready rest c obj v sc1 w1 ids st'"
    using ask_answer[OF assms(1) release_counter[OF assms(2-4)]] unfolding st'_def by blast
  have st': "\<not> ss_closed st'" "om_find (ss_objects st') i = None" using assms(2,5) by (simp_all add: st'_def)
  obtain sc2 w2 where b: "expect_error api iv (Get_object i) EC_not_found sc1 w1 = (True, sc2, w2)" "ready rest c obj v sc2 w2 ids st'"
    using expect_answer[OF a(2) get_unknown(1)[OF st'(1) assms(3) st'(2)] answer_codes(1)] by blast
  show thesis using that[of sc2 w2 st'] a b by (simp add: release_first_def st'_def)
qed

subsection \<open>Other connections\<close>

lemma connect_answers:
  assumes "ca_create api w = (c, w1)" and "scenario_until api iv w1 = (until, w2)"
    and "ca_connect_async api c endpoint until w2 = (f, w3)" and "ca_connected api f w3 = (opened, w4)"
  shows "opened = Inr ()" and "c = length (ho_sessions (host w))"
    and "host w4 = (host w)\<lparr>ho_sessions := ho_sessions (host w) @ [empty_session]\<rparr>"
proof -
  obtain t where "ca_now api w1 = (t, w2)" using assms(2) by (auto simp: scenario_until_def Let_def split: prod.splits)
  then have "host w2 = host w" using now create[OF assms(1)] by simp
  then show "opened = Inr ()" and "c = length (ho_sessions (host w))"
    and "host w4 = (host w)\<lparr>ho_sessions := ho_sessions (host w) @ [empty_session]\<rparr>"
    using connect[of w2 endpoint until f w3 opened w4] create[OF assms(1)] assms(3,4) by auto
qed

lemma both_unknown_answers:
  assumes "ho_sessions (host w) = sessions @ [empty_session]" and "c = length sessions" and "obj \<noteq> 0" and "v \<noteq> 0"
  obtains w' where "both_unknown api iv c obj v w = (True, w')" and "host w' = host w"
proof -
  define rest where "rest = sessions @ [empty_session]"
  have st: "\<not> ss_closed empty_session" "om_find (ss_objects empty_session) obj = None" "om_find (ss_values empty_session) v = None"
    by (simp_all add: session_store_init_def om_find_def)
  have r: "ready rest c 0 0 (scenario_init c) w (ho_ids (host w)) empty_session"
    using assms(1,2) by (simp add: ready_def scenario_init_def rest_def)
  obtain sc1 w1 where a: "expect_error api iv (Get_object obj) EC_not_found (scenario_init c) w = (True, sc1, w1)"
    "ready rest c 0 0 sc1 w1 (ho_ids (host w)) empty_session"
    using expect_answer[OF r get_unknown(1)[OF st(1) assms(3) st(2)] answer_codes(1)] by blast
  obtain sc2 w2 where b: "expect_error api iv (Get_value v) EC_not_found sc1 w1 = (True, sc2, w2)"
    "ready rest c 0 0 sc2 w2 (ho_ids (host w)) empty_session"
    using expect_answer[OF a(2) get_unknown(2)[OF st(1) assms(4) st(3)] answer_codes(1)] by blast
  have "ho_sessions (host w2) = rest" using b(2) by (metis ready_def list_update_id)
  then have "host w2 = host w" using b(2) assms(1) by (simp add: rest_def ready_def)
  then show thesis using that[of w2] a b by (simp add: both_unknown_def)
qed

text \<open>
  What a session leaves behind when its connection is closed.
\<close>

abbreviation ended_session :: "builtin_object session_store" where
  "ended_session \<equiv> store_close empty_session"

lemma close_session:
  "c < length (ho_sessions (host w)) \<Longrightarrow>
     host (ca_close api c w) = (host w)\<lparr>ho_sessions := (ho_sessions (host w))[c := store_close (ho_sessions (host w) ! c)]\<rparr>"
  using close[of w c] by simp

lemma new_connection_answers:
  assumes "obj \<noteq> 0" and "v \<noteq> 0"
  obtains c w1 until w2 f w3 w4 w5 where "ca_create api w = (c, w1)" and "scenario_until api iv w1 = (until, w2)"
    and "ca_connect_async api c (iv_endpoint iv) until w2 = (f, w3)" and "ca_connected api f w3 = (Inr (), w4)"
    and "both_unknown api iv c obj v w4 = (True, w5)"
    and "host (ca_close api c w5) = (host w)\<lparr>ho_sessions := ho_sessions (host w) @ [ended_session]\<rparr>"
proof -
  obtain c w1 where a: "ca_create api w = (c, w1)" by (metis surj_pair)
  obtain until w2 where b: "scenario_until api iv w1 = (until, w2)" by (metis surj_pair)
  obtain f w3 where d: "ca_connect_async api c (iv_endpoint iv) until w2 = (f, w3)" by (metis surj_pair)
  obtain opened w4 where e: "ca_connected api f w3 = (opened, w4)" by (metis surj_pair)
  note co = connect_answers[OF a b d e]
  have "ho_sessions (host w4) = ho_sessions (host w) @ [empty_session]" using co(3) by simp
  then obtain w5 where u: "both_unknown api iv c obj v w4 = (True, w5)" "host w5 = host w4"
    using both_unknown_answers[OF _ co(2) assms] by blast
  have "host (ca_close api c w5) = (host w)\<lparr>ho_sessions := ho_sessions (host w) @ [ended_session]\<rparr>"
    using close_session[of c w5] u(2) co(2,3) by simp
  then show thesis using that a b d e co(1) u(1) by blast
qed

lemma check_isolation_answers:
  assumes "i \<noteq> 0" and "sx_stored_value sc \<noteq> 0"
  obtains w' where "check_isolation api iv i sc w = (True, sc, w')"
    and "host w' = (host w)\<lparr>ho_sessions := ho_sessions (host w) @ [ended_session]\<rparr>"
proof -
  obtain c w1 until w2 f w3 w4 w5 where "ca_create api w = (c, w1)" "scenario_until api iv w1 = (until, w2)"
    "ca_connect_async api c (iv_endpoint iv) until w2 = (f, w3)" "ca_connected api f w3 = (Inr (), w4)"
    "both_unknown api iv c i (sx_stored_value sc) w4 = (True, w5)"
    "host (ca_close api c w5) = (host w)\<lparr>ho_sessions := ho_sessions (host w) @ [ended_session]\<rparr>"
    by (rule new_connection_answers[OF assms, of w iv])
  then show thesis using that by (simp add: check_isolation_def)
qed

lemma reconnect_answers:
  assumes "sx_retained_object sc \<noteq> 0" and "sx_stored_value sc \<noteq> 0"
  obtains w' where "scenario_reconnect api iv sc w = (True, sc, w')"
    and "host w' = (host (ca_close api (sx_client sc) w))\<lparr>ho_sessions := ho_sessions (host (ca_close api (sx_client sc) w)) @ [ended_session]\<rparr>"
proof -
  define w0 where "w0 = ca_close api (sx_client sc) w"
  obtain c w1 until w2 f w3 w4 w5 where "ca_create api w0 = (c, w1)" "scenario_until api iv w1 = (until, w2)"
    "ca_connect_async api c (iv_endpoint iv) until w2 = (f, w3)" "ca_connected api f w3 = (Inr (), w4)"
    "both_unknown api iv c (sx_retained_object sc) (sx_stored_value sc) w4 = (True, w5)"
    "host (ca_close api c w5) = (host w0)\<lparr>ho_sessions := ho_sessions (host w0) @ [ended_session]\<rparr>"
    by (rule new_connection_answers[OF assms, of w0 iv])
  then show thesis using that by (simp add: scenario_reconnect_def connection_connect_def flip: w0_def)
qed

lemma objects_answers:
  assumes "spare a st" and "ready rest c obj v sc w a st" and "v \<noteq> 0"
  obtains sc' w' st' where "scenario_objects api iv sc w = (True, sc', w')" and "ss_limits st' = default_limits"
    and "ready (rest @ [ended_session]) c (a + 1) v sc' w' (a + 3) st'"
proof -
  note ids = spare_ids[OF assms(1)]
  have open_st: "\<not> ss_closed st" using assms(1) by (simp add: spare_def)
  define full where "full = holding st
    [(a, counter_entry utf8 12), (a + 1, counter_entry utf8 42), (a + 2, text_entry utf8 ''hello world'')] 833"
  have f: "\<not> ss_closed full" "om_find (ss_objects full) a = Some (counter_entry utf8 12)" "om_find (om_erase a (ss_objects full)) a = None"
    "ss_limits full = default_limits"
    using open_st ids assms(1) by (auto simp: full_def om_find_def om_erase_def spare_def)
  obtain sc1 w1 where 1: "describe_classes api iv sc w = (True, sc1, w1)" "ready rest c obj v sc1 w1 a st"
    using describe_classes_answers[OF assms(2) open_st] by blast
  obtain sc2 w2 where 2: "use_counters api iv sc1 w1 = (Some (a, a + 1), sc2, w2)"
    "ready rest c (a + 1) v sc2 w2 (a + 2) (holding st [(a, counter_entry utf8 12), (a + 1, counter_entry utf8 42)] 552)"
    using use_counters_answers[OF assms(1) 1(2)] by blast
  obtain sc3 w3 where 3: "use_text api iv sc2 w2 = (True, sc3, w3)" "ready rest c (a + 1) v sc3 w3 (a + 3) full"
    using use_text_answers[OF assms(1) 2(2)] unfolding full_def by blast
  obtain sc4 w4 where 4: "provoke_errors api iv a sc3 w3 = (True, sc4, w4)" "ready rest c (a + 1) v sc4 w4 (a + 3) full"
    using provoke_errors_answers[OF 3(2) f(1) ids(1) f(2)] by blast
  obtain sc5 w5 st' where 5: "release_first api iv a sc4 w4 = (True, sc5, w5)" "ready rest c (a + 1) v sc5 w5 (a + 3) st'"
    "ss_limits st' = default_limits"
    using release_first_answers[OF 4(2) f(1) ids(1) f(2,3)] f(4) by metis
  have sc5: "sx_stored_value sc5 \<noteq> 0" using 5(2) assms(3) by (simp add: ready_def)
  obtain w6 where 6: "check_isolation api iv (a + 1) sc5 w5 = (True, sc5, w6)"
    "host w6 = (host w5)\<lparr>ho_sessions := ho_sessions (host w5) @ [ended_session]\<rparr>"
    using check_isolation_answers[OF ids(2) sc5] by blast
  have "ready (rest @ [ended_session]) c (a + 1) v sc5 w6 (a + 3) st'"
    using 5(2) 6(2) by (auto simp: ready_def nth_append list_update_append)
  then show thesis using that[OF _ 5(3)] 1(1) 2(1) 3(1) 4(1) 5(1) 6(1) by (simp add: scenario_objects_def)
qed

lemma spare_after_values:
  assumes "ample n" and "short_values vs"
  shows "spare (n + of_nat max_stored_values) (values_store n vs)"
proof -
  have "n + of_nat 100 < n + of_nat 101" "n + of_nat 101 < n + of_nat 102" "n + of_nat 102 < n + of_nat 103" "n + of_nat 100 \<noteq> 0"
    using ample_order(1)[OF assms(1), of 100 101] ample_order(1)[OF assms(1), of 101 102] ample_order(1)[OF assms(1), of 102 103]
      ample_order(4)[OF assms(1), of 100 0] by simp_all
  then show ?thesis
    using short_values_used[OF assms(2)]
    by (simp add: spare_def values_store_def max_stored_values_def add.assoc)
qed

lemma run_scenario_answers:
  assumes "ho_ids (host w) = n" and "ample n" and "ho_sessions (host w) = sessions @ [empty_session]" and "c = length sessions"
  obtains w' where "run_scenario api iv c w = (True, w')"
    and "host w' = \<lparr>ho_ids = n + 103, ho_sessions = sessions @ replicate 3 ended_session\<rparr>"
proof -
  define rest where "rest = sessions @ [empty_session]"
  have n: "n \<noteq> 0" using assms(2) by (simp add: ample_def)
  have "ready rest c 0 0 (scenario_init c) w n (values_store n [])"
    using assms by (simp add: ready_def scenario_init_def rest_def flip: values_store_init)
  then obtain vs sc1 w1 where 1: "scenario_values api iv (scenario_init c) w = (True, sc1, w1)" "short_values vs"
    "ready rest c 0 n sc1 w1 (n + of_nat max_stored_values) (values_store n vs)"
    using values_answers[OF assms(2)] by blast
  define a where "a = n + of_nat max_stored_values"
  have spare: "spare a (values_store n vs)" unfolding a_def by (rule spare_after_values[OF assms(2) 1(2)])
  obtain sc2 w2 st where 2: "scenario_objects api iv sc1 w1 = (True, sc2, w2)" "ss_limits st = default_limits"
    "ready (rest @ [ended_session]) c (a + 1) n sc2 w2 (a + 3) st"
    using objects_answers[OF spare _ n] 1(3) unfolding a_def by blast
  have sc2: "sx_retained_object sc2 \<noteq> 0" "sx_stored_value sc2 \<noteq> 0" "sx_client sc2 = c"
    using 2(3) n spare_ids(2)[OF spare] by (simp_all add: ready_def)
  obtain w3 where 3: "scenario_reconnect api iv sc2 w2 = (True, sc2, w3)"
    "host w3 = (host (ca_close api c w2))\<lparr>ho_sessions := ho_sessions (host (ca_close api c w2)) @ [ended_session]\<rparr>"
    using reconnect_answers[OF sc2(1,2), of iv w2] sc2(3) by metis
  have st: "store_close st = ended_session"
    using 2(2) by (simp add: store_close_def session_store_init_def default_limits_def)
  have "host (ca_close api c w2) = (host w2)\<lparr>ho_sessions := (ho_sessions (host w2))[c := store_close st]\<rparr>"
    using 2(3) close_session[of c w2] by (simp add: ready_def)
  moreover have "(ho_sessions (host w2))[c := store_close st] = (rest @ [ended_session])[c := ended_session]"
    using 2(3) st by (metis ready_def list_update_overwrite)
  ultimately have "host w3 = \<lparr>ho_ids = n + 103, ho_sessions = sessions @ replicate 3 ended_session\<rparr>"
    using 2(3) 3(2) assms(4) by (simp add: ready_def rest_def a_def max_stored_values_def list_update_append numeral_3_eq_3)
  then show thesis using that[of w3] 1(1) 2(1) 3(1) by (simp add: run_scenario_def)
qed

lemma command_passes:
  assumes "ample (ho_ids (host w))"
  shows "\<exists>w'. run_client_command api accepts iv co w =
      (let co' = put_output accepts (ended (''R1-R8 scenario passed mode='' @ mode_name (iv_command iv))) co
       in (if co_good co' then 0 else 1, co', w')) \<and>
    host w' = \<lparr>ho_ids = ho_ids (host w) + 103, ho_sessions = ho_sessions (host w) @ replicate 3 ended_session\<rparr>"
proof -
  obtain c w1 where a: "ca_create api w = (c, w1)" by (metis surj_pair)
  obtain until w2 where b: "scenario_until api iv w1 = (until, w2)" by (metis surj_pair)
  obtain f w3 where d: "ca_connect_async api c (iv_endpoint iv) until w2 = (f, w3)" by (metis surj_pair)
  obtain opened w4 where e: "ca_connected api f w3 = (opened, w4)" by (metis surj_pair)
  note co = connect_answers[OF a b d e]
  obtain w5 where s: "run_scenario api iv c w4 = (True, w5)"
    "host w5 = \<lparr>ho_ids = ho_ids (host w) + 103, ho_sessions = ho_sessions (host w) @ replicate 3 ended_session\<rparr>"
    using run_scenario_answers[of w4 "ho_ids (host w)" "ho_sessions (host w)" c iv] assms co(2,3) by auto
  have "host (ca_close api c w5) = host w5"
    using close_session[of c w5] s(2) co(2) by (simp add: numeral_3_eq_3 store_close_def)
  then show ?thesis
    using a b d e co(1) s by (auto simp: run_client_command_def connection_connect_def Let_def)
qed

end

subsection \<open>A served connection\<close>

text \<open>
  Connections to a server that answers a call before the next one is made: the host of theory
  \<open>Sessions\<close>, and the results of the calls so far.
\<close>

record served =
  sd_host :: "builtin_object host"
  sd_results :: "call_result list"

definition served_event :: "(string \<Rightarrow> bool) \<Rightarrow> event \<Rightarrow> served \<Rightarrow> served" where
  "served_event utf8 ev w =
     (case host_step (builtin_env utf8) default_limits (sd_host w) ev of None \<Rightarrow> w | Some (_, h) \<Rightarrow> w\<lparr>sd_host := h\<rparr>)"

definition served_call :: "(string \<Rightarrow> bool) \<Rightarrow> nat \<Rightarrow> operation \<Rightarrow> served \<Rightarrow> nat \<times> served" where
  "served_call utf8 c oper w =
     (length (sd_results w),
      case host_step (builtin_env utf8) default_limits (sd_host w) (Request c oper) of
        Some (Some r, h) \<Rightarrow>
          \<lparr>sd_host = h,
           sd_results = sd_results w @ [Inr \<lparr>rs_id = of_nat (Suc (length (sd_results w))), rs_body = r, rs_version = protocol_version\<rparr>]\<rparr>
      | _ \<Rightarrow> w\<lparr>sd_results := sd_results w @ [Inl (local_failure CK_not_connected)]\<rparr>)"

definition served_api :: "(string \<Rightarrow> bool) \<Rightarrow> served client_api" where
  "served_api utf8 =
     \<lparr>ca_now = Pair 0, ca_create = (\<lambda>w. (length (ho_sessions (sd_host w)), w)),
      ca_connect_async = (\<lambda>c endpoint until w. (0, served_event utf8 Connect w)),
      ca_connected = (\<lambda>f w. (Inr (), w)),
      ca_call_async = (\<lambda>c oper until w. served_call utf8 c oper w),
      ca_result = (\<lambda>f w. (if f < length (sd_results w) then sd_results w ! f else Inl (local_failure CK_invalid_request), w)),
      ca_close = (\<lambda>c w. served_event utf8 (Disconnect c) w)\<rparr>"

definition served_answer :: "served \<Rightarrow> nat \<Rightarrow> outcome option" where
  "served_answer w f =
     (if f < length (sd_results w) then case sd_results w ! f of Inl _ \<Rightarrow> None | Inr res \<Rightarrow> Some (rs_body res) else None)"

lemma served_answers:
  assumes "utf8_validator utf8" and "utf8 (''caf'' @ [CHR 0xC3, CHR 0xA9])"
  shows "answering_server utf8 (served_api utf8) sd_host served_answer"
proof (intro answering_server.intro answering_server_axioms.intro, goal_cases)
  case (3 w c oper r h until f w')
  then show ?case by (auto simp: served_api_def served_call_def served_answer_def fun_eq_iff nth_append)
next
  case (4 w f r x w')
  then show ?case by (auto simp: served_api_def served_answer_def split: if_splits sum.splits)
qed (use assms in \<open>auto simp: served_api_def served_event_def\<close>)

interpretation demonstration: answering_server structurally_valid "served_api structurally_valid" sd_host served_answer
proof (rule served_answers)
  show "utf8_validator structurally_valid" by (rule utf8_table.utf8_validator_axioms)
  show "structurally_valid (''caf'' @ [CHR 0xC3, CHR 0xA9])" by code_simp
qed


definition demo_served :: served where
  "demo_served = \<lparr>sd_host = \<lparr>ho_ids = 1, ho_sessions = []\<rparr>, sd_results = []\<rparr>"


end
