(* ===== verification/Spec2Isabelle.thy ===== *)
theory Spec2Isabelle
  imports Server_Properties Client_Properties Application_Properties Scenario_Properties
begin

text \<open>
  Verification of PipeForge, a Windows service that stores values and objects for clients that
  reach it over named pipes.

  \<^bold>\<open>The program.\<close> A client process makes calls (\<open>client.cpp\<close>). A call is a request that the codec
  (\<open>codec.cpp\<close>) turns into a Protobuf message, framing (\<open>framing.cpp\<close>) prefixes with its length, and a
  pipe stream (\<open>stream.cpp\<close> over \<open>native.cpp\<close>) writes with overlapped I/O. The pipe server
  (\<open>server.cpp\<close>) runs one worker per pipe instance; a worker hands payloads to the dispatcher
  (\<open>dispatcher.cpp\<close>), which decodes them and executes them on the store of the session (\<open>domain.cpp\<close>)
  over the registered classes (\<open>builtins.cpp\<close>). The command line (\<open>application.cpp\<close>) starts either side
  inside a diagnostic session (\<open>diagnostics.cpp\<close>). All paths are under \<open>src/\<close>, which repeats the
  layout of the repository.

  \<^bold>\<open>Conventions.\<close> A C++ integer is a word of its width, a double its 64 bits, \<open>std::string\<close> a list of
  characters, \<open>std::map\<close> the sorted association list of \<open>Ordered_Map\<close>. A \<open>std::variant<T, failure>\<close>
  is a sum with the failure on the left. An operation that could leave the defined behaviour of
  C++ returns an option, and \<open>None\<close> is that case; the theorems on reachable states show that it
  does not occur. Objects whose state changes are records that are passed on; threads are steps
  that interleave, one step for each stretch of code between two points where another thread can
  run. Each record has a prefix of its own for its fields.

  \<^bold>\<open>Values on the wire.\<close>
  \<^item> \<open>Prelude\<close> has the shared vocabulary and list lemmas, \<open>Contracts\<close> the types of \<open>contracts.hpp\<close>,
    \<open>Validation\<close> the predicates of \<open>validation.cpp\<close>, \<open>Utf8\<close> a table of well-formed UTF-8.
  \<^item> \<open>Framing\<close> models \<open>frame\<close> and \<open>frame_decoder\<close>. The decoder is shown equal to a reference
    that splits the whole stream at once, however the bytes arrive.
  \<^item> \<open>Wire\<close> has the messages of \<open>protocol.proto\<close>, \<open>Codec\<close> all of \<open>codec.cpp\<close>, \<open>Codec_Limits\<close> and
    \<open>Codec_Properties\<close> the exact domain of encoder and resource check, round trips in both
    directions, and which failures leave a session open.

  \<^bold>\<open>The domain.\<close>
  \<^item> \<open>Registry\<close> and \<open>Store\<close> model \<open>domain.cpp\<close>, \<open>Builtins\<close> the two linked classes; \<open>Object_Contract\<close>
    states what \<open>domain.hpp\<close> asks of a class and shows that the linked ones keep it.
  \<^item> \<open>Store_Invariant\<close> has the specification of a store as a relation and the refinement,
    \<open>Store_Behaviour\<close> pagination, persistence and disposal, \<open>Sessions\<close> the stores of all connections
    with their shared identifier source, and \<open>Domain_Properties\<close> what a client may rely on.
  \<^item> \<open>Dispatcher\<close> models \<open>dispatcher.cpp\<close> with its log lines: every request gets an answer under its
    identifier that the peer can decode.

  \<^bold>\<open>Transport and server.\<close>
  \<^item> \<open>Transport\<close> models \<open>transport.hpp\<close> and \<open>completion.cpp\<close>, \<open>Native\<close> models \<open>native.cpp\<close>, and
    \<open>Pipe_Stream\<close> models \<open>stream.cpp\<close>. \<open>Transport_Properties\<close> shows that no overlapped operation is left
    in flight, that a send writes its frame or a prefix, and that receive is the reference decoder.
  \<^item> \<open>Pipe_Server\<close> models \<open>server.cpp\<close>. \<open>Server_Properties\<close> shows the invariant of every schedule of
    its workers, that only requests still within their deadline change the domain, and the
    security of the pipe instances.

  \<^bold>\<open>Client.\<close>
  \<^item> \<open>Client\<close> models \<open>client.cpp\<close> and \<open>windows_channel.cpp\<close> as a machine of the owner and three threads.
    \<open>Client_Invariant\<close> and \<open>Client_Properties\<close> show that every promise is set once, that closing
    settles all of them, that responses are matched to their calls, and, together with the codec, the
    dispatcher and the store, that an answered call completes.

  \<^bold>\<open>Processes.\<close>
  \<^item> \<open>Diagnostics\<close> and \<open>Diagnostic_Properties\<close>: the log, and a trace file that is a complete document
    once the session has ended and no scope is alive.
  \<^item> \<open>Application\<close> and \<open>Application_Properties\<close>: parsing the command line, running one command, exit
    codes, the serving command.
  \<^item> \<open>Scenario\<close> models the demonstration in \<open>client_commands.cpp\<close>. \<open>Demo_Store\<close> evaluates the requests
    it makes on a session store, and \<open>Scenario_Properties\<close> composes them: against a server that
    answers each call from the session of its connection, the demonstration passes in all modes.

  \<^bold>\<open>Interfaces.\<close> Locales state what a component asks of another: the UTF-8 check, an ordered map, the
  classes of objects, a server that answers. Each is interpreted on the definitions of the model.

  \<^bold>\<open>Bounds and fuel.\<close> Two loops of \<open>stream.cpp\<close> take fuel. \<open>receive\<close> gets the largest frame in bytes and
  two more iterations, which is enough because each iteration reads at least a byte of the frame.
  \<open>connect\<close> waits as long as its deadline allows, so the fuel is an argument and
  \<open>connect_loop_terminates\<close> bounds it by the deadline. All other loops have termination proofs or
  recurse on their data. The demonstration starts with an identifier source at least 2000 below
  the end of its range, of which it uses 103.

  \<^bold>\<open>Code that is an argument.\<close> The UTF-8 check of \<open>utf8_range\<close>, the Protobuf runtime and the code it
  generates, the Win32 calls, the logging and JSON libraries and the file system are not part of
  the repository. They are arguments of the definitions, with their documented behaviour as
  hypotheses (\<open>utf8_validator\<close>, \<open>faithful_on\<close>, the contract of the operating system), and every
  theorem with such a hypothesis is applied to a concrete instance.

  \<^bold>\<open>Not modelled.\<close>
  \<^item> Build files, tests, fuzz drivers and benchmarks use the library and are not part of it.
  \<^item> The Python scripts for formatting, auditing and packaging run at development time. They mostly
    drive other programs and the regular-expression engine, and neither process uses them.
  \<^item> Failing allocations, which the code does not handle, and the release of memory.
  \<^item> Instruction-level interleaving inside a critical section, which the mutexes exclude.
  \<^item> The duration of calls; a clock reading is an input. Profiling scopes are modelled in
    \<open>Diagnostics\<close> and at the outermost scope of a process, not at each place that enters one.
  \<^item> The demonstration is proved against a server that answers calls in the order they are made;
    lost connections and timeouts are covered by the properties of the client.
\<close>

end
